(* ===== verification/Prelude.thy ===== *)
theory Prelude
  imports Complex_Main "HOL-Library.Word"
begin

text \<open>
  Shared ground of the development: the machine-integer types of the Rust source, the
  outcome type of its fallible functions, the integer operations of the standard library
  the source uses, and the generic lemmas the component theories rest on.

  The workspace is built with overflow checks in the release profile and with
  \<^verbatim>\<open>panic = 'abort'\<close> (\<^verbatim>\<open>src/Cargo.toml\<close>). An arithmetic operation of the source that is neither
  wrapping nor saturating therefore has a third outcome beside a value and an error:
  \<open>Panic\<close>, which ends the process.
\<close>

unbundle bit_operations_syntax

section \<open>Types\<close>

type_synonym u8 = "8 word"
type_synonym u16 = "16 word"
type_synonym u32 = "32 word"
type_synonym bytes = "u8 list"

text \<open>
  \<^verbatim>\<open>usize\<close> counts bytes and elements that are in memory, and \<^verbatim>\<open>Instant\<close> and \<^verbatim>\<open>Duration\<close> count
  nanoseconds from an arbitrary origin. They are natural numbers.
\<close>

type_synonym usize = nat
type_synonym instant = nat
type_synonym duration = nat

section \<open>Collections of simplification rules\<close>

named_theorems res_simps \<open>evaluation of outcomes\<close>
named_theorems wire_simps \<open>lengths and round trips of the byte-level encoding\<close>
named_theorems peer_defs \<open>definitions of the small accessors and updates of a peer\<close>
named_theorems inv_intros \<open>preservation of invariants\<close>

section \<open>Outcomes\<close>

text \<open>\<open>Ok\<close> and \<open>Err\<close> are Rust's \<^verbatim>\<open>Result\<close>; \<open>Panic\<close> is the aborted process.\<close>

datatype ('e, 'a) res = Ok 'a | Err 'e | Panic

primrec res_bind :: "('e, 'a) res \<Rightarrow> ('a \<Rightarrow> ('e, 'b) res) \<Rightarrow> ('e, 'b) res" where
  "res_bind (Ok a) f = f a"
| "res_bind (Err e) f = Err e"
| "res_bind Panic f = Panic"

primrec map_err :: "('e \<Rightarrow> 'f) \<Rightarrow> ('e, 'a) res \<Rightarrow> ('f, 'a) res" where
  "map_err g (Ok a) = Ok a"
| "map_err g (Err e) = Err (g e)"
| "map_err g Panic = Panic"

primrec is_ok :: "('e, 'a) res \<Rightarrow> bool" where
  "is_ok (Ok a) = True"
| "is_ok (Err e) = False"
| "is_ok Panic = False"

declare res_bind.simps [res_simps] map_err.simps [res_simps] is_ok.simps [res_simps]

lemma res_bind_Ok_iff: "res_bind r f = Ok b \<longleftrightarrow> (\<exists>a. r = Ok a \<and> f a = Ok b)"
  by (cases r) auto

lemma res_bind_Panic_iff: "res_bind r f = Panic \<longleftrightarrow> r = Panic \<or> (\<exists>a. r = Ok a \<and> f a = Panic)"
  by (cases r) auto

lemma res_bind_assoc: "res_bind (res_bind r f) g = res_bind r (\<lambda>a. res_bind (f a) g)"
  by (cases r) auto

lemma res_bind_cong [fundef_cong]:
  "r = r' \<Longrightarrow> (\<And>a. r' = Ok a \<Longrightarrow> f a = f' a) \<Longrightarrow> res_bind r f = res_bind r' f'"
  by (cases r') auto

lemma map_err_Ok_iff [simp]: "map_err g r = Ok a \<longleftrightarrow> r = Ok a"
  by (cases r) auto

lemma map_err_Panic_iff [simp]: "map_err g r = Panic \<longleftrightarrow> r = Panic"
  by (cases r) auto

section \<open>Integer operations of the standard library\<close>

text \<open>Wrapping operations are \<open>+\<close> and \<open>-\<close> on words. The others name what they do on overflow.\<close>

definition add_checked :: "'a::len word \<Rightarrow> 'a word \<Rightarrow> ('e, 'a word) res" where
  "add_checked a b = (if unat a + unat b < 2 ^ LENGTH('a) then Ok (a + b) else Panic)"

definition sub_checked :: "'a::len word \<Rightarrow> 'a word \<Rightarrow> ('e, 'a word) res" where
  "sub_checked a b = (if b \<le> a then Ok (a - b) else Panic)"

definition mul_checked :: "'a::len word \<Rightarrow> 'a word \<Rightarrow> ('e, 'a word) res" where
  "mul_checked a b = (if unat a * unat b < 2 ^ LENGTH('a) then Ok (a * b) else Panic)"

definition saturating_add :: "'a::len word \<Rightarrow> 'a word \<Rightarrow> 'a word" where
  "saturating_add a b = (if unat a + unat b < 2 ^ LENGTH('a) then a + b else - 1)"

definition saturating_sub :: "'a::len word \<Rightarrow> 'a word \<Rightarrow> 'a word" where
  "saturating_sub a b = (if b \<le> a then a - b else 0)"

text \<open>\<^verbatim>\<open>Ord::clamp\<close> asserts that the bounds are ordered.\<close>

definition clamp :: "'a::linorder \<Rightarrow> 'a \<Rightarrow> 'a \<Rightarrow> ('e, 'a) res" where
  "clamp x lo hi = (if lo \<le> hi then Ok (if x < lo then lo else if hi < x then hi else x) else Panic)"

text \<open>\<^verbatim>\<open>Instant::duration_since\<close> is zero for a later instant.\<close>

definition duration_since :: "instant \<Rightarrow> instant \<Rightarrow> duration" where
  "duration_since now earlier = now - earlier"

definition from_secs :: "nat \<Rightarrow> duration" where
  "from_secs s = s * 1000000000"

definition from_millis :: "nat \<Rightarrow> duration" where
  "from_millis ms = ms * 1000000"

definition as_millis :: "duration \<Rightarrow> nat" where
  "as_millis d = d div 1000000"

definition div_ceil :: "nat \<Rightarrow> nat \<Rightarrow> nat" where
  "div_ceil a b = (if a mod b = 0 then a div b else a div b + 1)"

lemma as_millis_from_millis [simp]: "as_millis (from_millis n) = n"
  by (simp add: as_millis_def from_millis_def)

lemma from_millis_mono [simp]: "from_millis a \<le> from_millis b \<longleftrightarrow> a \<le> b"
  by (simp add: from_millis_def)

section \<open>Words\<close>

lemma unat_saturating_add:
  fixes a b :: "'a::len word"
  shows "unat (saturating_add a b) = min (unat a + unat b) (2 ^ LENGTH('a) - 1)"
  by (auto simp: saturating_add_def unat_word_ariths min_def unsigned_minus_1_eq_mask mask_eq_exp_minus_1)

lemma unat_saturating_sub: "unat (saturating_sub a b) = unat a - unat b"
  by (auto simp: saturating_sub_def word_le_nat_alt unat_sub)

lemma unat_add_checked:
  "add_checked a b = Ok c \<Longrightarrow> unat c = unat a + unat b"
  by (auto simp: add_checked_def unat_word_ariths split: if_splits)

lemma unat_mul_checked:
  "mul_checked a b = Ok c \<Longrightarrow> unat c = unat a * unat b"
  by (auto simp: mul_checked_def unat_word_ariths split: if_splits)

lemma add_checked_not_Err [simp]: "add_checked a b \<noteq> Err e"
  by (simp add: add_checked_def)

lemma sub_checked_not_Err [simp]: "sub_checked a b \<noteq> Err e"
  by (simp add: sub_checked_def)

lemma mul_checked_not_Err [simp]: "mul_checked a b \<noteq> Err e"
  by (simp add: mul_checked_def)

lemma clamp_not_Err [simp]: "clamp x lo hi \<noteq> Err e"
  by (simp add: clamp_def)

lemma clamp_bounds: "clamp x lo hi = Ok y \<Longrightarrow> lo \<le> y \<and> y \<le> hi"
  by (auto simp: clamp_def split: if_splits)

lemma clamp_id: "lo \<le> x \<Longrightarrow> x \<le> hi \<Longrightarrow> clamp x lo hi = Ok x"
  by (auto simp: clamp_def)

text \<open>The number of steps from one 16-bit number forward to another, and back.\<close>

lemma unat_sub_u16: "unat (a - b :: u16) = (if b \<le> a then unat a - unat b else 65536 + unat a - unat b)"
proof (cases "b \<le> a")
  case True
  then show ?thesis by (simp add: unat_sub)
next
  case False
  then have lt: "unat a < unat b" by (simp add: word_le_nat_alt)
  then have "\<not> unat b \<le> unat a" by simp
  then have "unat (a - b) = unat a + 65536 - unat b" by (simp add: unat_sub_if')
  then show ?thesis using False by simp
qed

lemma unat_add_u16:
  "unat (a + b :: u16) = (if unat a + unat b < 65536 then unat a + unat b else unat a + unat b - 65536)"
  using unsigned_less [of a, where ?'a = nat] unsigned_less [of b, where ?'a = nat]
  by (simp add: unat_word_ariths mod_if)

lemma unat_u16_bound: "unat (a :: u16) < 65536"
  using unsigned_less [of a, where ?'a = nat] by simp

lemma unat_u8_bound: "unat (a :: u8) < 256"
  using unsigned_less [of a, where ?'a = nat] by simp

lemma unat_u32_bound: "unat (a :: u32) < 4294967296"
  using unsigned_less [of a, where ?'a = nat] by simp

lemma unat_inj_iff [simp]: "unat a = unat b \<longleftrightarrow> a = b"
  by (metis unsigned_word_eqI)

lemma unat_of_nat_u16: "n < 65536 \<Longrightarrow> unat (of_nat n :: u16) = n"
  by (simp add: unat_of_nat)

lemma unat_of_nat_u8: "n < 256 \<Longrightarrow> unat (of_nat n :: u8) = n"
  by (simp add: unat_of_nat)

lemma unat_of_nat_u32: "n < 4294967296 \<Longrightarrow> unat (of_nat n :: u32) = n"
  by (simp add: unat_of_nat)

section \<open>Arithmetic\<close>

lemma div_ceil_le_iff: "0 < b \<Longrightarrow> div_ceil a b \<le> n \<longleftrightarrow> a \<le> n * b"
proof -
  assume b: "0 < b"
  have eq: "a = a div b * b + a mod b" by simp
  have lt: "a mod b < b" using b by simp
  show ?thesis
  proof (cases "a mod b = 0")
    case True
    then show ?thesis using b
      by (metis div_ceil_def div_le_mono div_mult_self_is_m dvd_imp_mod_0 less_not_refl
          mod_0_imp_dvd mult.commute mult_le_mono1 dvd_div_mult_self)
  next
    case False
    have "div_ceil a b \<le> n \<longleftrightarrow> a div b < n" using False by (auto simp: div_ceil_def)
    also have "\<dots> \<longleftrightarrow> a < n * b" using b by (simp add: div_less_iff_less_mult)
    also have "\<dots> \<longleftrightarrow> a \<le> n * b" using False
      by (metis le_neq_implies_less less_imp_le mod_mult_self2_is_0)
    finally show ?thesis .
  qed
qed

lemma div_ceil_lower: "0 < b \<Longrightarrow> k < div_ceil a b \<Longrightarrow> k * b < a"
  using div_ceil_le_iff [of b a k] by simp

lemma div_ceil_upper: "0 < b \<Longrightarrow> a \<le> div_ceil a b * b"
  using div_ceil_le_iff [of b a "div_ceil a b"] by simp

lemma div_ceil_pos: "0 < b \<Longrightarrow> 0 < a \<Longrightarrow> 0 < div_ceil a b"
  using div_ceil_le_iff [of b a 0] by simp

section \<open>Lists\<close>

lemma take_drop_append: "take n xs @ take m (drop n xs) = take (n + m) xs"
  by (simp add: take_add)

text \<open>Cutting a list into consecutive pieces of a fixed size and joining them again.\<close>

lemma concat_chunks:
  "concat (map (\<lambda>i. take (min ((i + 1) * s) (length xs) - i * s) (drop (i * s) xs)) [0..<n])
     = take (n * s) xs"
proof (induction n)
  case 0
  then show ?case by simp
next
  case (Suc n)
  have "take (min ((n + 1) * s) (length xs) - n * s) (drop (n * s) xs) = take s (drop (n * s) xs)"
    by (cases "(n + 1) * s \<le> length xs") (simp_all add: min_def)
  then show ?case using Suc by (simp add: take_drop_append add.commute)
qed

end
