(* ===== verification/Float32.thy ===== *)
theory Float32
  imports Prelude "HOL-Library.Log_Nat"
begin

text \<open>
  The \<^verbatim>\<open>f32\<close> values of the congestion control and of the flow control: IEEE 754 binary32.
  A finite value is the rational number it denotes, and every operation computes the exact
  result and rounds it to the nearest representable number, ties to even
  (\<open>f32_round\<close>, with gradual underflow below \<open>2^-126\<close> and overflow to infinity from \<open>2^128\<close>).
  The sign of a zero is not kept: no operation of the source observes it.

  The locale \<open>rounding\<close> states what the range theorems need of a rounding function: it is
  monotone and exact on the integers up to \<open>2^24\<close>. It is interpreted by \<open>f32_round\<close>.
\<close>

section \<open>Rounding\<close>

definition pow2 :: "int \<Rightarrow> rat" where
  "pow2 e = (if 0 \<le> e then 2 ^ nat e else 1 / 2 ^ nat (- e))"

text \<open>The binary exponent of a positive rational: \<open>2^e \<le> x < 2^(e+1)\<close>.\<close>

definition expo :: "rat \<Rightarrow> int" where
  "expo x = (let (n, d) = quotient_of x; e = int (floorlog 2 (nat n)) - int (floorlog 2 (nat d))
             in if pow2 e \<le> x then e else e - 1)"

definition quantum :: "rat \<Rightarrow> rat" where
  "quantum x = pow2 (max (expo x) (- 126) - 23)"

definition round_half_even :: "rat \<Rightarrow> int" where
  "round_half_even r = (let n = \<lfloor>r\<rfloor>; f = r - of_int n in
     if f < 1 / 2 then n else if f > 1 / 2 then n + 1 else if even n then n else n + 1)"

definition f32_round_pos :: "rat \<Rightarrow> rat" where
  "f32_round_pos x = of_int (round_half_even (x / quantum x)) * quantum x"

definition f32_round :: "rat \<Rightarrow> rat" where
  "f32_round x = (if x = 0 then 0 else if 0 < x then f32_round_pos x else - f32_round_pos (- x))"

section \<open>Values and operations\<close>

datatype f32 = Fin rat | Inf bool | NaN

text \<open>\<open>Inf True\<close> is positive infinity.\<close>

definition f32_of_rat :: "rat \<Rightarrow> f32" where
  "f32_of_rat x = (let r = f32_round x in
     if r \<ge> pow2 128 then Inf True else if r \<le> - pow2 128 then Inf False else Fin r)"

text \<open>\<^verbatim>\<open>n as f32\<close> for an unsigned integer.\<close>

definition f32_of_nat :: "nat \<Rightarrow> f32" where
  "f32_of_nat n = f32_of_rat (of_nat n)"

fun f32_neg :: "f32 \<Rightarrow> f32" where
  "f32_neg (Fin a) = Fin (- a)"
| "f32_neg (Inf s) = Inf (\<not> s)"
| "f32_neg NaN = NaN"

fun f32_add :: "f32 \<Rightarrow> f32 \<Rightarrow> f32" where
  "f32_add (Fin a) (Fin b) = f32_of_rat (a + b)"
| "f32_add (Fin a) (Inf s) = Inf s"
| "f32_add (Inf s) (Fin a) = Inf s"
| "f32_add (Inf s) (Inf t) = (if s = t then Inf s else NaN)"
| "f32_add NaN y = NaN"
| "f32_add x NaN = NaN"

definition f32_sub :: "f32 \<Rightarrow> f32 \<Rightarrow> f32" where
  "f32_sub x y = f32_add x (f32_neg y)"

fun f32_mul :: "f32 \<Rightarrow> f32 \<Rightarrow> f32" where
  "f32_mul (Fin a) (Fin b) = f32_of_rat (a * b)"
| "f32_mul (Fin a) (Inf s) = (if a = 0 then NaN else Inf (s = (0 < a)))"
| "f32_mul (Inf s) (Fin a) = (if a = 0 then NaN else Inf (s = (0 < a)))"
| "f32_mul (Inf s) (Inf t) = Inf (s = t)"
| "f32_mul NaN y = NaN"
| "f32_mul x NaN = NaN"

text \<open>A divisor of zero is an unsigned integer converted to \<^verbatim>\<open>f32\<close>, hence positive zero.\<close>

fun f32_div :: "f32 \<Rightarrow> f32 \<Rightarrow> f32" where
  "f32_div (Fin a) (Fin b) =
     (if b = 0 then (if a = 0 then NaN else Inf (0 < a)) else f32_of_rat (a / b))"
| "f32_div (Fin a) (Inf s) = Fin 0"
| "f32_div (Inf s) (Fin a) = Inf (s = (0 \<le> a))"
| "f32_div (Inf s) (Inf t) = NaN"
| "f32_div NaN y = NaN"
| "f32_div x NaN = NaN"

fun f32_abs :: "f32 \<Rightarrow> f32" where
  "f32_abs (Fin a) = Fin \<bar>a\<bar>"
| "f32_abs (Inf s) = Inf True"
| "f32_abs NaN = NaN"

fun f32_lt :: "f32 \<Rightarrow> f32 \<Rightarrow> bool" where
  "f32_lt (Fin a) (Fin b) = (a < b)"
| "f32_lt (Fin a) (Inf s) = s"
| "f32_lt (Inf s) (Fin a) = (\<not> s)"
| "f32_lt (Inf s) (Inf t) = (\<not> s \<and> t)"
| "f32_lt NaN y = False"
| "f32_lt x NaN = False"

definition f32_eq :: "f32 \<Rightarrow> f32 \<Rightarrow> bool" where
  "f32_eq x y \<longleftrightarrow> x \<noteq> NaN \<and> x = y"

text \<open>\<^verbatim>\<open>f32::min\<close> and \<^verbatim>\<open>f32::max\<close> return the other operand when one is NaN.\<close>

definition f32_min :: "f32 \<Rightarrow> f32 \<Rightarrow> f32" where
  "f32_min x y = (if x = NaN then y else if y = NaN then x else if f32_lt y x then y else x)"

definition f32_max :: "f32 \<Rightarrow> f32 \<Rightarrow> f32" where
  "f32_max x y = (if x = NaN then y else if y = NaN then x else if f32_lt x y then y else x)"

text \<open>\<^verbatim>\<open>f32::clamp\<close> to a range with finite ordered bounds: NaN is kept.\<close>

definition f32_clamp :: "f32 \<Rightarrow> f32 \<Rightarrow> f32 \<Rightarrow> f32" where
  "f32_clamp x lo hi = (if f32_lt x lo then lo else if f32_lt hi x then hi else x)"

text \<open>\<^verbatim>\<open>x as u64\<close> truncates towards zero and saturates.\<close>

fun f32_to_u64 :: "f32 \<Rightarrow> nat" where
  "f32_to_u64 (Fin a) = (if a \<le> 0 then 0 else min (nat \<lfloor>a\<rfloor>) (2 ^ 64 - 1))"
| "f32_to_u64 (Inf s) = (if s then 2 ^ 64 - 1 else 0)"
| "f32_to_u64 NaN = 0"

section \<open>Laws of rounding\<close>

locale rounding =
  fixes rnd :: "rat \<Rightarrow> rat"
  assumes mono: "x \<le> y \<Longrightarrow> rnd x \<le> rnd y"
    and exact_nat: "n \<le> 2 ^ 24 \<Longrightarrow> rnd (of_nat n) = of_nat n"
begin

lemma zero: "rnd 0 = 0"
  using exact_nat [of 0] by simp

lemma one: "rnd 1 = 1"
  using exact_nat [of 1] by simp

lemma nonneg: "0 \<le> x \<Longrightarrow> 0 \<le> rnd x"
  using mono [of 0 x] zero by simp

lemma le_nat: "x \<le> of_nat n \<Longrightarrow> n \<le> 2 ^ 24 \<Longrightarrow> rnd x \<le> of_nat n"
  using mono [of x "of_nat n"] exact_nat [of n] by simp

lemma ge_nat: "of_nat n \<le> x \<Longrightarrow> n \<le> 2 ^ 24 \<Longrightarrow> of_nat n \<le> rnd x"
  using mono [of "of_nat n" x] exact_nat [of n] by simp

lemma unit_interval: "0 \<le> x \<Longrightarrow> x \<le> 1 \<Longrightarrow> 0 \<le> rnd x \<and> rnd x \<le> 1"
  using nonneg le_nat [of x 1] by simp

end

lemma pow2_powi: "pow2 e = 2 powi e"
  by (simp add: pow2_def power_int_def power_inverse inverse_eq_divide power_one_over)

lemma pow2_pos [simp]: "0 < pow2 e"
  by (simp add: pow2_powi)

lemma pow2_add: "pow2 (a + b) = pow2 a * pow2 b"
  by (simp add: pow2_powi power_int_add)

lemma pow2_less_imp: "a < b \<Longrightarrow> pow2 a < pow2 b"
  using power_int_strict_increasing [of a b "2 :: rat"] by (simp add: pow2_powi)

lemma pow2_less [simp]: "pow2 a < pow2 b \<longleftrightarrow> a < b"
  using pow2_less_imp [of a b] pow2_less_imp [of b a] by (cases a b rule: linorder_cases) auto

lemma pow2_mono [simp]: "pow2 a \<le> pow2 b \<longleftrightarrow> a \<le> b"
  by (simp add: linorder_not_less [symmetric])

lemma pow2_div: "pow2 a / pow2 b = pow2 (a - b)"
  by (simp add: pow2_powi power_int_diff)

lemma pow2_int: "0 \<le> e \<Longrightarrow> pow2 e = of_int (2 ^ nat e)"
  by (simp add: pow2_def)

lemma pow2_of_nat: "pow2 (int k) = of_nat (2 ^ k)"
  by (simp add: pow2_def)

lemma floorlog_pow2:
  assumes "0 < n"
  shows "pow2 (int (floorlog 2 n) - 1) \<le> of_nat n \<and> of_nat n < pow2 (int (floorlog 2 n))"
proof -
  let ?a = "floorlog 2 n"
  have b: "2 ^ (?a - 1) \<le> n" "n < 2 ^ ?a"
    using floorlog_bounds [of n 2] assms by simp_all
  have a: "0 < ?a" using assms by (simp add: floorlog_def)
  then have "int ?a - 1 = int (?a - 1)" by simp
  then have "pow2 (int ?a - 1) = of_nat (2 ^ (?a - 1))" by (simp only: pow2_of_nat)
  moreover have "(of_nat (2 ^ (?a - 1)) :: rat) \<le> of_nat n" using b(1) of_nat_le_iff by blast
  moreover have "(of_nat n :: rat) < of_nat (2 ^ ?a)" using b(2) of_nat_less_iff by blast
  ultimately show ?thesis by (simp only: pow2_of_nat)
qed

lemma expo_bounds:
  assumes "0 < x"
  shows "pow2 (expo x) \<le> x \<and> x < pow2 (expo x + 1)"
proof -
  obtain n d where q: "quotient_of x = (n, d)" by (cases "quotient_of x") auto
  have d: "0 < d" using quotient_of_denom_pos [OF q] .
  have x: "x = of_int n / of_int d" using quotient_of_div [OF q] .
  then have n: "0 < n" using assms d by (simp add: zero_less_divide_iff)
  let ?a = "int (floorlog 2 (nat n))" and ?b = "int (floorlog 2 (nat d))"
  have N: "pow2 (?a - 1) \<le> of_int n" "of_int n < pow2 ?a"
    using floorlog_pow2 [of "nat n"] n by simp_all
  have D: "pow2 (?b - 1) \<le> of_int d" "of_int d < pow2 ?b"
    using floorlog_pow2 [of "nat d"] d by simp_all
  have "of_int n / of_int d < pow2 ?a / pow2 (?b - 1)"
    using N D d n by (intro frac_less) (auto simp: less_imp_le)
  then have up: "x < pow2 (?a - ?b + 1)" by (simp add: x pow2_div algebra_simps)
  have "pow2 (?a - 1) / pow2 ?b \<le> of_int n / of_int d"
    using N D d n by (intro frac_le) (auto simp: less_imp_le)
  then have lo: "pow2 (?a - ?b - 1) \<le> x" by (simp add: x pow2_div algebra_simps)
  show ?thesis using up lo by (simp add: expo_def q Let_def)
qed

lemma expo_mono: "0 < x \<Longrightarrow> x \<le> y \<Longrightarrow> expo x \<le> expo y"
proof -
  assume x: "0 < x" and xy: "x \<le> y"
  then have "pow2 (expo x) < pow2 (expo y + 1)"
    using expo_bounds [of x] expo_bounds [of y] by linarith
  then show ?thesis by simp
qed

lemma rhe_bounds: "\<lfloor>r\<rfloor> \<le> round_half_even r \<and> round_half_even r \<le> \<lfloor>r\<rfloor> + 1"
  by (simp add: round_half_even_def Let_def)

lemma rhe_int [simp]: "round_half_even (of_int n) = n"
  by (simp add: round_half_even_def)

lemma rhe_mono: "r \<le> s \<Longrightarrow> round_half_even r \<le> round_half_even s"
proof -
  assume rs: "r \<le> s"
  consider "\<lfloor>r\<rfloor> = \<lfloor>s\<rfloor>" | "\<lfloor>r\<rfloor> < \<lfloor>s\<rfloor>" using floor_mono [OF rs] by linarith
  then show ?thesis
  proof cases
    case 1
    then show ?thesis using rs by (auto simp: round_half_even_def Let_def)
  next
    case 2
    then show ?thesis using rhe_bounds [of r] rhe_bounds [of s] by linarith
  qed
qed

lemma quantum_pos [simp]: "0 < quantum x"
  by (simp add: quantum_def)

lemma round_pos_le:
  assumes "x / quantum x \<le> of_int k"
  shows "f32_round_pos x \<le> of_int k * quantum x"
  unfolding f32_round_pos_def
  using rhe_mono [OF assms] by (intro mult_right_mono) (auto simp: less_imp_le)

lemma round_pos_ge:
  assumes "of_int k \<le> x / quantum x"
  shows "of_int k * quantum x \<le> f32_round_pos x"
  unfolding f32_round_pos_def
  using rhe_mono [OF assms] by (intro mult_right_mono) (auto simp: less_imp_le)

lemma round_pos_nonneg: "0 < x \<Longrightarrow> 0 \<le> f32_round_pos x"
  using round_pos_ge [of 0 x] by (simp add: less_imp_le)

lemma round_pos_exact: "x / quantum x = of_int k \<Longrightarrow> f32_round_pos x = x"
  by (simp add: f32_round_pos_def) (metis nonzero_eq_divide_eq quantum_pos less_irrefl)

lemma round_pos_mono:
  assumes x: "0 < x" and xy: "x \<le> y"
  shows "f32_round_pos x \<le> f32_round_pos y"
proof -
  let ?ex = "max (expo x) (- 126)" and ?ey = "max (expo y) (- 126)"
  have le: "?ex \<le> ?ey" using expo_mono [OF assms] by auto
  show ?thesis
  proof (cases "?ex = ?ey")
    case True
    then have q: "quantum x = quantum y" by (simp add: quantum_def)
    have "x / quantum y \<le> y / quantum y" using xy by (simp add: divide_right_mono less_imp_le)
    then show ?thesis
      by (auto simp: f32_round_pos_def q less_imp_le intro!: mult_right_mono rhe_mono)
  next
    case False
    with le have lt: "?ex < ?ey" and ey: "?ey = expo y" by auto
    have Py: "pow2 ?ey \<le> y" using expo_bounds [of y] x xy ey by simp
    have "pow2 (expo x + 1) \<le> pow2 ?ey" using lt by simp
    then have xP: "x \<le> pow2 ?ey" using expo_bounds [OF x] by linarith
    have kx: "pow2 ?ey / quantum x = of_int (2 ^ nat (?ey - ?ex + 23))"
    proof -
      have eq: "pow2 ?ey / quantum x = pow2 (?ey - ?ex + 23)"
        unfolding quantum_def pow2_div by (simp add: algebra_simps)
      have "0 \<le> ?ey - ?ex + 23" using lt by linarith
      then show ?thesis unfolding eq by (rule pow2_int)
    qed
    have ky: "pow2 ?ey / quantum y = of_int (2 ^ 23)"
    proof -
      have eq: "pow2 ?ey / quantum y = pow2 23"
        unfolding quantum_def pow2_div by (simp add: algebra_simps)
      show ?thesis unfolding eq by (simp add: pow2_def)
    qed
    have "f32_round_pos x \<le> of_int (2 ^ nat (?ey - ?ex + 23)) * quantum x"
      using xP by (intro round_pos_le) (metis kx divide_right_mono less_imp_le quantum_pos)
    also have "\<dots> = pow2 ?ey"
      by (metis kx nonzero_eq_divide_eq quantum_pos less_irrefl)
    also have "\<dots> = of_int (2 ^ 23) * quantum y"
      by (metis ky nonzero_eq_divide_eq quantum_pos less_irrefl)
    also have "\<dots> \<le> f32_round_pos y"
      using Py by (intro round_pos_ge) (metis ky divide_right_mono less_imp_le quantum_pos)
    finally show ?thesis .
  qed
qed

lemma round_pos_nat:
  assumes n: "0 < n" "n \<le> 2 ^ 24"
  shows "f32_round_pos (of_nat n) = of_nat n"
proof -
  let ?x = "of_nat n :: rat"
  have b: "pow2 (expo ?x) \<le> ?x" "?x < pow2 (expo ?x + 1)"
    using expo_bounds [of ?x] n by simp_all
  have "pow2 0 \<le> ?x" using n by (simp add: pow2_def)
  then have e0: "0 \<le> expo ?x" using b(2) le_less_trans by fastforce
  have x24: "?x \<le> pow2 24"
  proof -
    have "?x \<le> of_nat (2 ^ 24)" using n(2) of_nat_le_iff by blast
    then show ?thesis by (simp add: pow2_def)
  qed
  then have e24: "expo ?x \<le> 24" using b(1) by (metis order_trans pow2_mono)
  have q: "quantum ?x = pow2 (expo ?x - 23)" using e0 by (simp add: quantum_def)
  show ?thesis
  proof (cases "expo ?x = 24")
    case True
    then have "?x = pow2 24" using b(1) x24 by simp
    then have "?x / quantum ?x = pow2 (24 - (expo ?x - 23))"
      unfolding q by (metis pow2_div)
    then have "?x / quantum ?x = of_int (2 ^ 23)"
      by (simp add: True pow2_def)
    then show ?thesis by (rule round_pos_exact)
  next
    case False
    with e24 have e23: "expo ?x \<le> 23" by simp
    have "?x / quantum ?x = ?x * (pow2 0 / pow2 (expo ?x - 23))"
      unfolding q by (simp add: pow2_def)
    also have "\<dots> = ?x * pow2 (23 - expo ?x)" unfolding pow2_div by simp
    also have "\<dots> = of_int (int n * 2 ^ nat (23 - expo ?x))"
      using e23 by (simp add: pow2_int)
    finally show ?thesis by (rule round_pos_exact)
  qed
qed

interpretation f32r: rounding f32_round
proof
  fix x y :: rat
  assume xy: "x \<le> y"
  consider "0 < x" | "y < 0" | "x \<le> 0" "0 \<le> y" by linarith
  then show "f32_round x \<le> f32_round y"
  proof cases
    case 1
    then show ?thesis using xy round_pos_mono [of x y] by (simp add: f32_round_def)
  next
    case 2
    then show ?thesis using xy round_pos_mono [of "- y" "- x"] by (simp add: f32_round_def)
  next
    case 3
    then show ?thesis using round_pos_nonneg [of y] round_pos_nonneg [of "- x"]
      by (auto simp: f32_round_def)
  qed
next
  fix n :: nat
  assume "n \<le> 2 ^ 24"
  then show "f32_round (of_nat n) = of_nat n"
    using round_pos_nat [of n] by (cases "n = 0") (simp_all add: f32_round_def)
qed

section \<open>Ranges\<close>

lemma pow2_128_big: "of_nat (2 ^ 24) < pow2 128"
  by (simp add: pow2_def)

lemma f32_of_rat_small:
  assumes "0 \<le> x" and "x \<le> of_nat (2 ^ 24)"
  shows "f32_of_rat x = Fin (f32_round x)"
proof -
  have "f32_round x \<le> of_nat (2 ^ 24)" using f32r.le_nat [OF assms(2)] by simp
  then have "f32_round x < pow2 128" using pow2_128_big by (rule le_less_trans)
  moreover have "0 \<le> f32_round x" using f32r.nonneg [OF assms(1)] .
  moreover have "- pow2 128 < 0" by simp
  ultimately show ?thesis by (auto simp: f32_of_rat_def Let_def simp del: pow2_pos)
qed

lemma f32_of_nat_small: "n \<le> 2 ^ 24 \<Longrightarrow> f32_of_nat n = Fin (of_nat n)"
proof -
  assume n: "n \<le> 2 ^ 24"
  then have "(of_nat n :: rat) \<le> of_nat (2 ^ 24)" using of_nat_le_iff by blast
  then show ?thesis using f32_of_rat_small [of "of_nat n"] f32r.exact_nat [OF n]
    by (simp add: f32_of_nat_def)
qed

end
