(* ===== verification/Core_Types.thy ===== *)
theory Core_Types
  imports Prelude Float32
begin

text \<open>
  The crate \<^verbatim>\<open>bitfold-core\<close>: the protocol constants (\<^verbatim>\<open>lib.rs\<close>), the error types
  (\<^verbatim>\<open>error.rs\<close>), the configuration (\<^verbatim>\<open>config.rs\<close>) and the shared byte slices
  (\<^verbatim>\<open>shared.rs\<close>). The buffer pools are in \<open>Packet_Pool\<close>.
\<close>

section \<open>Constants\<close>

definition MAX_FRAGMENTS_DEFAULT :: u16 where
  "MAX_FRAGMENTS_DEFAULT = 16"

definition FRAGMENT_SIZE_DEFAULT :: u16 where
  "FRAGMENT_SIZE_DEFAULT = 1024"

definition DEFAULT_MTU :: u16 where
  "DEFAULT_MTU = 1452"

definition PROTOCOL_VERSION :: u16 where
  "PROTOCOL_VERSION = 3"

section \<open>Errors\<close>

datatype decoding_error_kind = DecPacketType | DecOrderingGuarantee | DecDeliveryGuarantee

datatype packet_error_kind =
    ExceededMaxPacketSize
  | PacketCannotBeFragmented
  | MtuTooSmall
  | PayloadTooLargeToFragment

datatype fragment_error_kind =
    PacketHeaderNotFound
  | ExceededMaxFragments
  | AlreadyProcessedFragment
  | FragmentWithUnevenNumberOfFragments
  | CouldNotFindFragmentById
  | MultipleAckHeaders
  | MissingAckHeader

text \<open>
  An I/O error carries what the source formats into its message, so that different messages
  stay different; \<open>io_kind\<close> reads its \<^verbatim>\<open>io::ErrorKind\<close>. \<open>ExternalError\<close> is an error a third-party
  codec or the operating system reports.
\<close>

datatype io_error =
    FailedToFillBuffer
  | UnknownCommandType u8
  | CommandLengthExceedsBuffer
  | DataTooShortForChecksum
  | ChecksumMismatch u32 u32
  | EmptyDataForDecompression
  | Lz4PayloadTooShort
  | UnknownCompressionAlgorithm u8
  | ExternalError string

datatype io_error_kind = UnexpectedEof | InvalidData | OtherKind

fun io_kind :: "io_error \<Rightarrow> io_error_kind" where
  "io_kind FailedToFillBuffer = UnexpectedEof"
| "io_kind (UnknownCommandType _) = InvalidData"
| "io_kind CommandLengthExceedsBuffer = UnexpectedEof"
| "io_kind DataTooShortForChecksum = InvalidData"
| "io_kind (ChecksumMismatch _ _) = InvalidData"
| "io_kind EmptyDataForDecompression = InvalidData"
| "io_kind Lz4PayloadTooShort = InvalidData"
| "io_kind (UnknownCompressionAlgorithm _) = InvalidData"
| "io_kind (ExternalError _) = OtherKind"

text \<open>
  The text of a \<^verbatim>\<open>CouldNotReadHeader\<close> is either an I/O error turned into a string or the
  literal of the session check.
\<close>

datatype header_text = IoText io_error | SessionIdMismatch

datatype error_kind =
    DecodingError decoding_error_kind
  | FragmentError fragment_error_kind
  | PacketError packet_error_kind
  | IOError io_error
  | ReceivedDataToShort
  | ProtocolVersionMismatch
  | CouldNotReadHeader header_text

definition error_from_io :: "io_error \<Rightarrow> error_kind" where
  "error_from_io inner = IOError inner"

definition error_from_packet :: "packet_error_kind \<Rightarrow> error_kind" where
  "error_from_packet inner = PacketError inner"

definition error_from_fragment :: "fragment_error_kind \<Rightarrow> error_kind" where
  "error_from_fragment inner = FragmentError inner"

section \<open>Configuration\<close>

datatype compression_algorithm = NoCompression | Zlib | Lz4

record config =
  blocking_mode :: bool
  idle_connection_timeout :: duration
  heartbeat_interval :: "duration option"
  max_packet_size :: usize
  max_fragments :: u8
  fragment_size :: u16
  fragment_reassembly_buffer_size :: u16
  receive_buffer_max_size :: usize
  rtt_smoothing_factor :: f32
  rtt_max_value :: u16
  socket_event_buffer_size :: usize
  socket_polling_timeout :: "duration option"
  max_packets_in_flight :: u16
  max_unestablished_connections :: u16
  channel_count :: u8
  incoming_bandwidth_limit :: u32
  outgoing_bandwidth_limit :: u32
  use_checksums :: bool
  compression :: compression_algorithm
  compression_threshold :: usize
  use_connection_handshake :: bool
  max_waiting_data :: usize
  use_advanced_throttling :: bool
  throttle_scale :: u32
  throttle_acceleration :: u32
  throttle_deceleration :: u32
  throttle_interval :: u32
  use_window_flow_control :: bool
  initial_window_size :: u32
  min_window_size :: u32
  max_window_size :: u32
  max_duplicate_peers :: u16
  socket_recv_buffer_size :: "usize option"
  socket_send_buffer_size :: "usize option"
  socket_ttl :: "u32 option"
  socket_broadcast :: bool
  use_pmtu_discovery :: bool
  pmtu_min :: u16
  pmtu_max :: u16
  pmtu_interval_ms :: u32
  pmtu_converge_threshold :: u16

definition default_config :: config where
  "default_config = \<lparr>
     blocking_mode = False,
     idle_connection_timeout = from_secs 5,
     heartbeat_interval = None,
     max_packet_size = unat (MAX_FRAGMENTS_DEFAULT * FRAGMENT_SIZE_DEFAULT),
     max_fragments = ucast MAX_FRAGMENTS_DEFAULT,
     fragment_size = FRAGMENT_SIZE_DEFAULT,
     fragment_reassembly_buffer_size = 64,
     receive_buffer_max_size = unat DEFAULT_MTU,
     rtt_smoothing_factor = f32_of_rat (1 / 10),
     rtt_max_value = 250,
     socket_event_buffer_size = 1024,
     socket_polling_timeout = Some (from_millis 1),
     max_packets_in_flight = 512,
     max_unestablished_connections = 50,
     channel_count = 1,
     incoming_bandwidth_limit = 2097152,
     outgoing_bandwidth_limit = 2097152,
     use_checksums = True,
     compression = NoCompression,
     compression_threshold = 128,
     use_connection_handshake = True,
     max_waiting_data = 32 * 1024 * 1024,
     use_advanced_throttling = False,
     throttle_scale = 32,
     throttle_acceleration = 2,
     throttle_deceleration = 2,
     throttle_interval = 5000,
     use_window_flow_control = False,
     initial_window_size = 512,
     min_window_size = 64,
     max_window_size = 4096,
     max_duplicate_peers = 0,
     socket_recv_buffer_size = None,
     socket_send_buffer_size = None,
     socket_ttl = None,
     socket_broadcast = False,
     use_pmtu_discovery = True,
     pmtu_min = 576,
     pmtu_max = 1400,
     pmtu_interval_ms = 5000,
     pmtu_converge_threshold = 64\<rparr>"

text \<open>
  The byte counts that the encoder, the fragmenter, the PMTU prober and the session each
  compute from the configuration before they fill a datagram.
\<close>

definition compression_overhead :: "config \<Rightarrow> nat" where
  "compression_overhead c = (case compression c of Lz4 \<Rightarrow> 5 | _ \<Rightarrow> 1)"

definition checksum_overhead :: "config \<Rightarrow> nat" where
  "checksum_overhead c = (if use_checksums c then 4 else 0)"

definition per_packet_overhead :: "config \<Rightarrow> nat" where
  "per_packet_overhead c = 1 + compression_overhead c + checksum_overhead c"

section \<open>Shared byte slices\<close>

record shared_bytes =
  sb_data :: bytes
  sb_start :: usize
  sb_len :: usize

definition sb_from_vec :: "bytes \<Rightarrow> shared_bytes" where
  "sb_from_vec v = \<lparr>sb_data = v, sb_start = 0, sb_len = length v\<rparr>"

definition sb_from_arc :: "bytes \<Rightarrow> shared_bytes" where
  "sb_from_arc a = \<lparr>sb_data = a, sb_start = 0, sb_len = length a\<rparr>"

definition sb_slice :: "shared_bytes \<Rightarrow> usize \<Rightarrow> usize \<Rightarrow> ('e, shared_bytes) res" where
  "sb_slice s start len =
     (if \<not> start \<le> sb_len s then Panic
      else if \<not> start + len \<le> sb_len s then Panic
      else Ok \<lparr>sb_data = sb_data s, sb_start = sb_start s + start, sb_len = len\<rparr>)"

definition sb_as_slice :: "shared_bytes \<Rightarrow> bytes" where
  "sb_as_slice s = take (sb_len s) (drop (sb_start s) (sb_data s))"

definition sb_is_empty :: "shared_bytes \<Rightarrow> bool" where
  "sb_is_empty s \<longleftrightarrow> sb_len s = 0"

definition sb_into_full_arc :: "shared_bytes \<Rightarrow> bytes option" where
  "sb_into_full_arc s =
     (if sb_start s = 0 \<and> sb_len s = length (sb_data s) then Some (sb_data s) else None)"

text \<open>
  The expression \<^verbatim>\<open>data.clone().into_full_arc().unwrap_or_else(|| Arc::from(data.as_slice().to_vec()))\<close>,
  which the command processor repeats wherever it takes a payload out of a command.
\<close>

definition sb_to_arc :: "shared_bytes \<Rightarrow> bytes" where
  "sb_to_arc s = (case sb_into_full_arc s of Some a \<Rightarrow> a | None \<Rightarrow> sb_as_slice s)"

text \<open>
  The view of a slice lies inside its buffer. The fields are private, every constructor
  establishes this and \<open>sb_slice\<close> keeps it, so \<open>as_slice\<close> never indexes out of range.
\<close>

definition sb_wf :: "shared_bytes \<Rightarrow> bool" where
  "sb_wf s \<longleftrightarrow> sb_start s + sb_len s \<le> length (sb_data s)"

lemma sb_wf_from_vec [simp, intro]: "sb_wf (sb_from_vec v)"
  by (simp add: sb_wf_def sb_from_vec_def)

lemma sb_wf_from_arc [simp, intro]: "sb_wf (sb_from_arc v)"
  by (simp add: sb_wf_def sb_from_arc_def)

lemma sb_wf_slice: "sb_wf s \<Longrightarrow> sb_slice s i n = Ok t \<Longrightarrow> sb_wf t"
  by (auto simp: sb_wf_def sb_slice_def split: if_splits)

lemma sb_as_slice_from_vec [simp]: "sb_as_slice (sb_from_vec v) = v"
  by (simp add: sb_as_slice_def sb_from_vec_def)

lemma sb_as_slice_from_arc [simp]: "sb_as_slice (sb_from_arc v) = v"
  by (simp add: sb_as_slice_def sb_from_arc_def)

lemma sb_len_from_vec [simp]: "sb_len (sb_from_vec v) = length v"
  by (simp add: sb_from_vec_def)

lemma sb_len_from_arc [simp]: "sb_len (sb_from_arc v) = length v"
  by (simp add: sb_from_arc_def)

lemma length_as_slice [simp]: "sb_wf s \<Longrightarrow> length (sb_as_slice s) = sb_len s"
  by (auto simp: sb_wf_def sb_as_slice_def)

lemma sb_as_slice_slice:
  "sb_slice s i n = Ok t \<Longrightarrow> sb_as_slice t = take n (drop i (sb_as_slice s))"
  by (auto simp: sb_slice_def sb_as_slice_def drop_take add.commute split: if_splits)

lemma sb_slice_ok: "i + n \<le> sb_len s \<Longrightarrow> \<exists>t. sb_slice s i n = Ok t \<and> sb_len t = n"
  by (auto simp: sb_slice_def)

lemma sb_to_arc_as_slice [simp]: "sb_wf s \<Longrightarrow> sb_to_arc s = sb_as_slice s"
  by (auto simp: sb_to_arc_def sb_into_full_arc_def sb_as_slice_def sb_wf_def)

end
