(* ===== verification/Packet_Pool.thy ===== *)
theory Packet_Pool
  imports Core_Types
begin

text \<open>
  Buffer pools and pooled packets (\<^verbatim>\<open>bitfold-core/src/packet_pool.rs\<close>). A \<^verbatim>\<open>Vec<u8>\<close> is its
  contents and its capacity. The locale \<open>buffer_pool\<close> is what the two pools promise to their
  users: a buffer that is handed out is empty, and the pool never holds more buffers than its
  limit. Both pools interpret it.
\<close>

record vec_buf =
  vb_data :: bytes
  vb_capacity :: usize

definition vec_with_capacity :: "usize \<Rightarrow> vec_buf" where
  "vec_with_capacity n = \<lparr>vb_data = [], vb_capacity = n\<rparr>"

definition vec_clear :: "vec_buf \<Rightarrow> vec_buf" where
  "vec_clear b = b\<lparr>vb_data := []\<rparr>"

text \<open>Appending grows the capacity when it must; Rust promises no more than that it is enough.\<close>

definition vec_extend :: "vec_buf \<Rightarrow> bytes \<Rightarrow> vec_buf" where
  "vec_extend b xs = \<lparr>vb_data = vb_data b @ xs, vb_capacity = max (vb_capacity b) (length (vb_data b @ xs))\<rparr>"

section \<open>Pooled packets\<close>

record pooled_packet =
  pp_data :: bytes
  pp_start :: usize
  pp_len :: usize

definition pooled_new :: "bytes \<Rightarrow> pooled_packet" where
  "pooled_new d = \<lparr>pp_data = d, pp_start = 0, pp_len = length d\<rparr>"

definition pooled_from_arc :: "bytes \<Rightarrow> usize \<Rightarrow> usize \<Rightarrow> pooled_packet" where
  "pooled_from_arc d start len = \<lparr>pp_data = d, pp_start = start, pp_len = len\<rparr>"

text \<open>
  \<open>from_arc\<close> does not check its range, so \<open>as_slice\<close> and \<open>into_owned\<close> panic on a view that
  leaves the buffer. \<open>unique\<close> is whether the packet holds the only reference.
\<close>

definition pooled_as_slice :: "pooled_packet \<Rightarrow> ('e, bytes) res" where
  "pooled_as_slice p =
     (if pp_start p + pp_len p \<le> length (pp_data p)
      then Ok (take (pp_len p) (drop (pp_start p) (pp_data p))) else Panic)"

definition pooled_into_owned :: "bool \<Rightarrow> pooled_packet \<Rightarrow> ('e, bytes) res" where
  "pooled_into_owned unique p =
     (if unique
      then (if pp_start p = 0 \<and> pp_len p = length (pp_data p) then Ok (pp_data p)
            else pooled_as_slice p)
      else pooled_as_slice p)"

lemma pooled_into_owned_eq: "pooled_into_owned unique p = pooled_as_slice p"
  by (simp add: pooled_into_owned_def pooled_as_slice_def)

section \<open>The packet allocator\<close>

record packet_allocator =
  pa_pool :: "vec_buf list"
  pa_buffer_size :: usize
  pa_max_pool_size :: usize

definition pa_new :: "usize \<Rightarrow> usize \<Rightarrow> packet_allocator" where
  "pa_new buffer_size max_pool_size =
     \<lparr>pa_pool = [], pa_buffer_size = buffer_size, pa_max_pool_size = max_pool_size\<rparr>"

text \<open>The last element of the list is the top of the stack: \<^verbatim>\<open>push\<close> appends, \<^verbatim>\<open>pop\<close> takes it off.\<close>

definition pa_allocate :: "packet_allocator \<Rightarrow> packet_allocator \<times> vec_buf" where
  "pa_allocate a =
     (if pa_pool a = [] then (a, vec_with_capacity (pa_buffer_size a))
      else (a\<lparr>pa_pool := butlast (pa_pool a)\<rparr>, last (pa_pool a)))"

definition pa_deallocate :: "packet_allocator \<Rightarrow> vec_buf \<Rightarrow> packet_allocator" where
  "pa_deallocate a buffer =
     (if length (pa_pool a) < pa_max_pool_size a
      then a\<lparr>pa_pool := pa_pool a @ [vec_clear buffer]\<rparr> else a)"

definition pa_available :: "packet_allocator \<Rightarrow> usize" where
  "pa_available a = length (pa_pool a)"

definition pa_clear :: "packet_allocator \<Rightarrow> packet_allocator" where
  "pa_clear a = a\<lparr>pa_pool := []\<rparr>"

definition pa_default :: packet_allocator where
  "pa_default = pa_new 1500 256"

section \<open>The compression buffer pool\<close>

record compression_buffer_pool =
  cp_pool :: "vec_buf list"
  cp_max_buffer_size :: usize
  cp_max_pool_size :: usize

definition cp_new :: "usize \<Rightarrow> usize \<Rightarrow> compression_buffer_pool" where
  "cp_new max_buffer_size max_pool_size =
     \<lparr>cp_pool = [], cp_max_buffer_size = max_buffer_size, cp_max_pool_size = max_pool_size\<rparr>"

definition cp_acquire :: "compression_buffer_pool \<Rightarrow> compression_buffer_pool \<times> vec_buf" where
  "cp_acquire c =
     (if cp_pool c = [] then (c, vec_with_capacity 0)
      else (c\<lparr>cp_pool := butlast (cp_pool c)\<rparr>, last (cp_pool c)))"

definition cp_release :: "compression_buffer_pool \<Rightarrow> vec_buf \<Rightarrow> compression_buffer_pool" where
  "cp_release c buffer =
     (if vb_capacity buffer \<le> cp_max_buffer_size c \<and> length (cp_pool c) < cp_max_pool_size c
      then c\<lparr>cp_pool := cp_pool c @ [vec_clear buffer]\<rparr> else c)"

definition cp_available :: "compression_buffer_pool \<Rightarrow> usize" where
  "cp_available c = length (cp_pool c)"

definition cp_clear :: "compression_buffer_pool \<Rightarrow> compression_buffer_pool" where
  "cp_clear c = c\<lparr>cp_pool := []\<rparr>"

definition cp_default :: compression_buffer_pool where
  "cp_default = cp_new 8192 32"

section \<open>The contract of a pool\<close>

locale buffer_pool =
  fixes take_buf :: "'p \<Rightarrow> 'p \<times> vec_buf"
    and give_buf :: "'p \<Rightarrow> vec_buf \<Rightarrow> 'p"
    and wipe :: "'p \<Rightarrow> 'p"
    and avail :: "'p \<Rightarrow> nat"
    and limit :: "'p \<Rightarrow> nat"
    and inv :: "'p \<Rightarrow> bool"
  assumes take_inv: "inv p \<Longrightarrow> inv (fst (take_buf p))"
    and give_inv: "inv p \<Longrightarrow> inv (give_buf p b)"
    and wipe_inv: "inv p \<Longrightarrow> inv (wipe p)"
    and take_empty: "inv p \<Longrightarrow> vb_data (snd (take_buf p)) = []"
    and inv_limit: "inv p \<Longrightarrow> avail p \<le> limit p"
    and take_limit: "limit (fst (take_buf p)) = limit p"
    and give_limit: "limit (give_buf p b) = limit p"
    and wipe_limit: "limit (wipe p) = limit p"
begin

text \<open>A use of the pool takes a buffer, gives one back, or wipes it.\<close>

definition pool_op :: "'p \<Rightarrow> vec_buf option option \<Rightarrow> 'p" where
  "pool_op p u = (case u of None \<Rightarrow> wipe p | Some None \<Rightarrow> fst (take_buf p) | Some (Some b) \<Rightarrow> give_buf p b)"

lemma pool_op_inv: "inv p \<Longrightarrow> inv (pool_op p u)"
  by (auto simp: pool_op_def take_inv give_inv wipe_inv split: option.splits)

lemma pool_op_limit: "limit (pool_op p u) = limit p"
  by (auto simp: pool_op_def take_limit give_limit wipe_limit split: option.splits)

lemma pool_run: "inv p \<Longrightarrow> inv (foldl pool_op p us) \<and> avail (foldl pool_op p us) \<le> limit p"
proof (induction us arbitrary: p)
  case Nil
  then show ?case by (simp add: inv_limit)
next
  case (Cons u us)
  have "inv (pool_op p u)" using Cons.prems by (rule pool_op_inv)
  then show ?case using Cons.IH [of "pool_op p u"] by (simp add: pool_op_limit)
qed

lemma pool_run_take_empty: "inv p \<Longrightarrow> vb_data (snd (take_buf (foldl pool_op p us))) = []"
  using pool_run take_empty by blast

end

definition pool_cleared :: "vec_buf list \<Rightarrow> bool" where
  "pool_cleared bs \<longleftrightarrow> (\<forall>b \<in> set bs. vb_data b = [])"

definition pa_inv :: "packet_allocator \<Rightarrow> bool" where
  "pa_inv a \<longleftrightarrow> pool_cleared (pa_pool a) \<and> length (pa_pool a) \<le> pa_max_pool_size a"

definition cp_inv :: "compression_buffer_pool \<Rightarrow> bool" where
  "cp_inv c \<longleftrightarrow> pool_cleared (cp_pool c) \<and> length (cp_pool c) \<le> cp_max_pool_size c"

lemma pool_cleared_butlast: "pool_cleared bs \<Longrightarrow> pool_cleared (butlast bs)"
  by (auto simp: pool_cleared_def dest: in_set_butlastD)

lemma pool_cleared_last: "pool_cleared bs \<Longrightarrow> bs \<noteq> [] \<Longrightarrow> vb_data (last bs) = []"
  by (auto simp: pool_cleared_def)

lemma pool_cleared_snoc: "pool_cleared bs \<Longrightarrow> pool_cleared (bs @ [vec_clear b])"
  by (auto simp: pool_cleared_def vec_clear_def)

lemmas pool_cleared_rules = pool_cleared_butlast pool_cleared_last pool_cleared_snoc

interpretation pa: buffer_pool pa_allocate pa_deallocate pa_clear pa_available pa_max_pool_size pa_inv
  by unfold_locales
    (auto simp: pa_allocate_def pa_deallocate_def pa_clear_def pa_available_def pa_inv_def
       pool_cleared_rules vec_with_capacity_def pool_cleared_def [of "[]"])

interpretation cp: buffer_pool cp_acquire cp_release cp_clear cp_available cp_max_pool_size cp_inv
  by unfold_locales
    (auto simp: cp_acquire_def cp_release_def cp_clear_def cp_available_def cp_inv_def
       pool_cleared_rules vec_with_capacity_def pool_cleared_def [of "[]"])

lemma pa_inv_new [simp]: "pa_inv (pa_new s n)"
  by (simp add: pa_inv_def pa_new_def pool_cleared_def)

lemma cp_inv_new [simp]: "cp_inv (cp_new s n)"
  by (simp add: cp_inv_def cp_new_def pool_cleared_def)

end
