(* ===== verification/Hash_Map.thy ===== *)
theory Hash_Map
  imports Prelude "HOL-Library.AList"
begin

text \<open>
  \<^verbatim>\<open>std::collections::HashMap\<close>, the container of the sent packets, the fragment buffers, the
  channel states and the sessions. A map is an association list with distinct keys; the
  order of the list stands for the iteration order, which Rust leaves open.

  The locale \<open>rust_map\<close> is the interface the components rely on: what a lookup returns after
  an update, what the length counts, and that the invariant is kept. The components use the
  facts of its interpretation \<open>hm\<close>.
\<close>

type_synonym ('k, 'v) hmap = "('k \<times> 'v) list"

definition hm_empty :: "('k, 'v) hmap" where
  "hm_empty = []"

definition hm_get :: "('k, 'v) hmap \<Rightarrow> 'k \<Rightarrow> 'v option" where
  "hm_get m = map_of m"

definition hm_insert :: "'k \<Rightarrow> 'v \<Rightarrow> ('k, 'v) hmap \<Rightarrow> ('k, 'v) hmap" where
  "hm_insert k v m = AList.update k v m"

definition hm_delete :: "'k \<Rightarrow> ('k, 'v) hmap \<Rightarrow> ('k, 'v) hmap" where
  "hm_delete k m = AList.delete k m"

definition hm_len :: "('k, 'v) hmap \<Rightarrow> nat" where
  "hm_len m = length m"

definition hm_keys :: "('k, 'v) hmap \<Rightarrow> 'k list" where
  "hm_keys m = map fst m"

definition hm_wf :: "('k, 'v) hmap \<Rightarrow> bool" where
  "hm_wf m \<longleftrightarrow> distinct (map fst m)"

text \<open>\<^verbatim>\<open>entry(k).or_insert_with(f)\<close>: the value at the key, inserted first when it is missing.\<close>

definition hm_entry :: "'k \<Rightarrow> 'v \<Rightarrow> ('k, 'v) hmap \<Rightarrow> 'v" where
  "hm_entry k d m = (case hm_get m k of Some v \<Rightarrow> v | None \<Rightarrow> d)"

lemmas hm_defs = hm_empty_def hm_get_def hm_insert_def hm_delete_def hm_len_def hm_keys_def hm_wf_def

section \<open>The interface\<close>

locale rust_map =
  fixes empty :: "'m"
    and insert :: "'k \<Rightarrow> 'v \<Rightarrow> 'm \<Rightarrow> 'm"
    and delete :: "'k \<Rightarrow> 'm \<Rightarrow> 'm"
    and get :: "'m \<Rightarrow> 'k \<Rightarrow> 'v option"
    and len :: "'m \<Rightarrow> nat"
    and keys :: "'m \<Rightarrow> 'k list"
    and wf :: "'m \<Rightarrow> bool"
  assumes get_empty: "get empty k = None"
    and get_insert: "get (insert k v m) k' = (if k' = k then Some v else get m k')"
    and get_delete: "get (delete k m) k' = (if k' = k then None else get m k')"
    and len_card: "wf m \<Longrightarrow> len m = card (dom (get m))"
    and dom_finite: "finite (dom (get m))"
    and set_keys: "set (keys m) = dom (get m)"
    and distinct_keys: "wf m \<Longrightarrow> distinct (keys m)"
    and wf_empty: "wf empty"
    and wf_insert: "wf m \<Longrightarrow> wf (insert k v m)"
    and wf_delete: "wf m \<Longrightarrow> wf (delete k m)"
begin

lemma get_insert_same: "get (insert k v m) k = Some v"
  by (simp add: get_insert)

lemma dom_insert: "dom (get (insert k v m)) = Set.insert k (dom (get m))"
  by (auto simp: get_insert dom_def)

lemma dom_delete: "dom (get (delete k m)) = dom (get m) - {k}"
  by (auto simp: get_delete dom_def)

lemma dom_empty: "dom (get empty) = {}"
  by (simp add: get_empty dom_def)

lemma len_empty: "len empty = 0"
  by (simp add: len_card [OF wf_empty] dom_empty)

lemma len_insert:
  "wf m \<Longrightarrow> len (insert k v m) = (if k \<in> dom (get m) then len m else Suc (len m))"
  by (simp add: len_card wf_insert dom_insert dom_finite insert_absorb)

lemma len_insert_le: "wf m \<Longrightarrow> len (insert k v m) \<le> Suc (len m)"
  by (simp add: len_insert)

lemma len_delete:
  "wf m \<Longrightarrow> len (delete k m) = (if k \<in> dom (get m) then len m - 1 else len m)"
  by (simp add: len_card wf_delete dom_delete dom_finite)

lemma len_delete_less: "wf m \<Longrightarrow> get m k = Some v \<Longrightarrow> len (delete k m) < len m"
proof -
  assume wf: "wf m" and g: "get m k = Some v"
  then have k: "k \<in> dom (get m)" by blast
  then have "0 < len m" using wf by (auto simp: len_card card_gt_0_iff dom_finite)
  with k wf show ?thesis by (simp add: len_delete)
qed

lemma len_eq_subset:
  assumes "wf m" and "finite S" and "dom (get m) \<subseteq> S"
  shows "len m = card S \<longleftrightarrow> dom (get m) = S"
  using assms card_subset_eq [of S "dom (get m)"] by (auto simp: len_card)

end

lemma hm_len_update:
  "length (AList.update k v m) = (if k \<in> fst ` set m then length m else Suc (length m))"
  by (induction m) auto

interpretation hm: rust_map hm_empty hm_insert hm_delete hm_get hm_len hm_keys hm_wf
proof (unfold_locales, goal_cases)
  case 1 show ?case by (simp add: hm_defs)
next
  case 2 show ?case by (simp add: hm_defs update_conv')
next
  case 3 show ?case by (simp add: hm_defs delete_conv')
next
  case (4 m)
  have "length m = card (set (map fst m))"
    using 4 distinct_card [of "map fst m"] by (simp add: hm_wf_def)
  then show ?case by (simp add: hm_defs dom_map_of_conv_image_fst)
next
  case (5 m) show ?case by (simp add: hm_defs finite_dom_map_of)
next
  case (6 m) show ?case by (simp add: hm_defs dom_map_of_conv_image_fst)
next
  case 7 then show ?case by (simp add: hm_defs)
next
  case 8 show ?case by (simp add: hm_defs)
next
  case 9 then show ?case by (simp add: hm_defs distinct_update)
next
  case 10 then show ?case by (simp add: hm_defs distinct_delete)
qed

lemmas hm_simps [simp] = hm.get_empty hm.get_insert hm.get_delete hm.wf_empty hm.wf_insert
  hm.wf_delete hm.dom_insert hm.dom_delete hm.dom_empty hm.len_empty

lemma hm_entry_Some [simp]: "hm_get m k = Some v \<Longrightarrow> hm_entry k d m = v"
  by (simp add: hm_entry_def)

lemma hm_entry_None [simp]: "hm_get m k = None \<Longrightarrow> hm_entry k d m = d"
  by (simp add: hm_entry_def)

end
