(* ===== verification/Packets.thy ===== *)
theory Packets
  imports Core_Types
begin

text \<open>
  Packets and their guarantees (\<^verbatim>\<open>bitfold-protocol/src/packet.rs\<close>) and the channels that
  carry them (\<^verbatim>\<open>channel.rs\<close>).
\<close>

section \<open>Guarantees\<close>

datatype delivery_guarantee = Unreliable | Reliable

definition delivery_to_u8 :: "delivery_guarantee \<Rightarrow> u8" where
  "delivery_to_u8 d = (case d of Unreliable \<Rightarrow> 0 | Reliable \<Rightarrow> 1)"

definition delivery_try_from :: "u8 \<Rightarrow> (error_kind, delivery_guarantee) res" where
  "delivery_try_from v =
     (if v = 0 then Ok Unreliable
      else if v = 1 then Ok Reliable
      else Err (DecodingError DecDeliveryGuarantee))"

datatype ordering_guarantee = NoOrdering | Sequenced "u8 option" | Ordered "u8 option" | Unsequenced

definition ordering_to_u8 :: "ordering_guarantee \<Rightarrow> u8" where
  "ordering_to_u8 g = (case g of NoOrdering \<Rightarrow> 0 | Sequenced _ \<Rightarrow> 1 | Ordered _ \<Rightarrow> 2 | Unsequenced \<Rightarrow> 3)"

definition ordering_try_from :: "u8 \<Rightarrow> (error_kind, ordering_guarantee) res" where
  "ordering_try_from v =
     (if v = 0 then Ok NoOrdering
      else if v = 1 then Ok (Sequenced None)
      else if v = 2 then Ok (Ordered None)
      else if v = 3 then Ok Unsequenced
      else Err (DecodingError DecOrderingGuarantee))"

datatype packet_type = PtPacket | PtFragment | PtHeartbeat

definition packet_type_to_u8 :: "packet_type \<Rightarrow> u8" where
  "packet_type_to_u8 t = (case t of PtPacket \<Rightarrow> 0 | PtFragment \<Rightarrow> 1 | PtHeartbeat \<Rightarrow> 2)"

definition packet_type_try_from :: "u8 \<Rightarrow> (error_kind, packet_type) res" where
  "packet_type_try_from v =
     (if v = 0 then Ok PtPacket
      else if v = 1 then Ok PtFragment
      else if v = 2 then Ok PtHeartbeat
      else Err (DecodingError DecPacketType))"

section \<open>Packets\<close>

text \<open>A socket address is the IP address and the port; the code only compares and projects them.\<close>

datatype ip_addr = V4 u32 | V6 "128 word"

record socket_addr =
  sa_ip :: ip_addr
  sa_port :: u16

record packet =
  pk_addr :: socket_addr
  pk_payload :: bytes
  pk_delivery :: delivery_guarantee
  pk_ordering :: ordering_guarantee
  pk_channel_id :: u8

definition packet_new ::
  "socket_addr \<Rightarrow> bytes \<Rightarrow> delivery_guarantee \<Rightarrow> ordering_guarantee \<Rightarrow> u8 \<Rightarrow> packet" where
  "packet_new addr payload delivery order channel_id =
     \<lparr>pk_addr = addr, pk_payload = payload, pk_delivery = delivery, pk_ordering = order,
      pk_channel_id = channel_id\<rparr>"

definition packet_unreliable :: "socket_addr \<Rightarrow> bytes \<Rightarrow> packet" where
  "packet_unreliable addr payload = packet_new addr payload Unreliable NoOrdering 0"

definition packet_unreliable_sequenced :: "socket_addr \<Rightarrow> bytes \<Rightarrow> u8 option \<Rightarrow> packet" where
  "packet_unreliable_sequenced addr payload stream_id =
     packet_new addr payload Unreliable (Sequenced stream_id) 0"

definition packet_unsequenced :: "socket_addr \<Rightarrow> bytes \<Rightarrow> packet" where
  "packet_unsequenced addr payload = packet_new addr payload Unreliable Unsequenced 0"

definition packet_reliable_unordered :: "socket_addr \<Rightarrow> bytes \<Rightarrow> packet" where
  "packet_reliable_unordered addr payload = packet_new addr payload Reliable NoOrdering 0"

definition packet_reliable_ordered :: "socket_addr \<Rightarrow> bytes \<Rightarrow> u8 option \<Rightarrow> packet" where
  "packet_reliable_ordered addr payload stream_id =
     packet_new addr payload Reliable (Ordered stream_id) 0"

definition packet_reliable_sequenced :: "socket_addr \<Rightarrow> bytes \<Rightarrow> u8 option \<Rightarrow> packet" where
  "packet_reliable_sequenced addr payload stream_id =
     packet_new addr payload Reliable (Sequenced stream_id) 0"

definition packet_unreliable_on_channel :: "socket_addr \<Rightarrow> bytes \<Rightarrow> u8 \<Rightarrow> packet" where
  "packet_unreliable_on_channel addr payload channel_id =
     packet_new addr payload Unreliable NoOrdering channel_id"

definition packet_reliable_on_channel :: "socket_addr \<Rightarrow> bytes \<Rightarrow> u8 \<Rightarrow> packet" where
  "packet_reliable_on_channel addr payload channel_id =
     packet_new addr payload Reliable NoOrdering channel_id"

record packet_info =
  pi_packet_type :: packet_type
  pi_payload :: bytes
  pi_delivery :: delivery_guarantee
  pi_ordering :: ordering_guarantee

definition user_packet_info :: "bytes \<Rightarrow> delivery_guarantee \<Rightarrow> ordering_guarantee \<Rightarrow> packet_info" where
  "user_packet_info payload delivery order =
     \<lparr>pi_packet_type = PtPacket, pi_payload = payload, pi_delivery = delivery, pi_ordering = order\<rparr>"

definition heartbeat_packet_info :: "bytes \<Rightarrow> packet_info" where
  "heartbeat_packet_info payload =
     \<lparr>pi_packet_type = PtHeartbeat, pi_payload = payload, pi_delivery = Unreliable,
      pi_ordering = NoOrdering\<rparr>"

section \<open>Zero, one or many items\<close>

text \<open>The iterator \<^verbatim>\<open>ZeroOrMore\<close> over \<^verbatim>\<open>Either<Option<T>, VecDeque<T>>\<close>.\<close>

datatype 'a zero_or_more = ZLeft "'a option" | ZRight "'a list"

definition zom_zero :: "'a zero_or_more" where
  "zom_zero = ZLeft None"

definition zom_one :: "'a \<Rightarrow> 'a zero_or_more" where
  "zom_one x = ZLeft (Some x)"

definition zom_many :: "'a list \<Rightarrow> 'a zero_or_more" where
  "zom_many xs = ZRight xs"

fun zom_next :: "'a zero_or_more \<Rightarrow> 'a option \<times> 'a zero_or_more" where
  "zom_next (ZLeft x) = (x, ZLeft None)"
| "zom_next (ZRight []) = (None, ZRight [])"
| "zom_next (ZRight (x # xs)) = (Some x, ZRight xs)"

text \<open>Draining the iterator: calling \<open>zom_next\<close> until it returns nothing.\<close>

fun zom_size :: "'a zero_or_more \<Rightarrow> nat" where
  "zom_size (ZLeft None) = 0"
| "zom_size (ZLeft (Some _)) = 1"
| "zom_size (ZRight xs) = length xs"

function zom_collect :: "'a zero_or_more \<Rightarrow> 'a list" where
  "zom_collect z = (case zom_next z of (None, _) \<Rightarrow> [] | (Some x, z') \<Rightarrow> x # zom_collect z')"
  by pat_completeness auto

lemma zom_next_decreases: "zom_next z = (Some x, z') \<Longrightarrow> zom_size z' < zom_size z"
  by (cases z rule: zom_next.cases) (auto split: option.splits)

termination zom_collect
  by (relation "measure zom_size") (auto dest: sym intro: zom_next_decreases)

declare zom_collect.simps [simp del]

lemma zom_collect_many: "zom_collect (ZRight xs) = xs"
  by (induction xs) (simp_all add: zom_collect.simps [of "ZRight _"])

lemma zom_collect_zero [simp]: "zom_collect zom_zero = []"
  by (simp add: zom_zero_def zom_collect.simps [of "ZLeft _"])

lemma zom_collect_one [simp]: "zom_collect (zom_one x) = [x]"
  by (simp add: zom_one_def zom_collect.simps [of "ZLeft _"])

lemma zom_collect_zom_many [simp]: "zom_collect (zom_many xs) = xs"
  by (simp add: zom_many_def zom_collect_many)

type_synonym incoming_packets = "(packet \<times> packet_type) zero_or_more"

section \<open>Channels\<close>

record channel =
  ch_id :: u8
  ch_delivery :: delivery_guarantee
  ch_ordering :: ordering_guarantee

definition channel_new :: "u8 \<Rightarrow> delivery_guarantee \<Rightarrow> ordering_guarantee \<Rightarrow> channel" where
  "channel_new i d g = \<lparr>ch_id = i, ch_delivery = d, ch_ordering = g\<rparr>"

definition channel_unreliable :: "u8 \<Rightarrow> channel" where
  "channel_unreliable i = channel_new i Unreliable NoOrdering"

definition channel_unreliable_sequenced :: "u8 \<Rightarrow> channel" where
  "channel_unreliable_sequenced i = channel_new i Unreliable (Sequenced (Some i))"

definition channel_reliable_unordered :: "u8 \<Rightarrow> channel" where
  "channel_reliable_unordered i = channel_new i Reliable NoOrdering"

definition channel_reliable_ordered :: "u8 \<Rightarrow> channel" where
  "channel_reliable_ordered i = channel_new i Reliable (Ordered (Some i))"

type_synonym channel_manager = "channel list"

definition cm_new :: "u8 \<Rightarrow> channel_manager" where
  "cm_new n = map (\<lambda>i. channel_unreliable (of_nat i)) [0..<unat n]"

definition cm_default_channels :: channel_manager where
  "cm_default_channels = (cm_new 1)[0 := channel_reliable_ordered 0]"

definition cm_configure_channel ::
  "channel_manager \<Rightarrow> u8 \<Rightarrow> delivery_guarantee \<Rightarrow> ordering_guarantee \<Rightarrow> channel_manager" where
  "cm_configure_channel m i d g =
     (if unat i < length m
      then m[unat i := (m ! unat i)\<lparr>ch_delivery := d, ch_ordering := g\<rparr>] else m)"

definition cm_get_channel :: "channel_manager \<Rightarrow> u8 \<Rightarrow> channel option" where
  "cm_get_channel m i = (if unat i < length m then Some (m ! unat i) else None)"

definition cm_channel_count :: "channel_manager \<Rightarrow> u8" where
  "cm_channel_count m = of_nat (length m)"

text \<open>Every channel sits at the index its identifier names, and there are at most 255.\<close>

definition cm_inv :: "channel_manager \<Rightarrow> bool" where
  "cm_inv m \<longleftrightarrow> length m \<le> 255 \<and> (\<forall>i < length m. unat (ch_id (m ! i)) = i)"

lemma cm_inv_new: "cm_inv (cm_new n)"
  using unat_u8_bound [of n]
  by (auto simp: cm_inv_def cm_new_def channel_unreliable_def channel_new_def unat_of_nat_u8)

lemma cm_inv_configure: "cm_inv m \<Longrightarrow> cm_inv (cm_configure_channel m i d g)"
  by (auto simp: cm_inv_def cm_configure_channel_def nth_list_update)

text \<open>
  Reconfiguring a channel changes exactly that channel. On a manager built by
  \<open>cm_new\<close> and reconfigured any number of times, looking a channel up returns the
  channel with that identifier, with the guarantees of the last configuration of it, and an
  identifier beyond the count has no channel.
\<close>

theorem configure_channel_lookup:
  assumes "cm_inv m"
  shows "cm_inv (cm_configure_channel m i d g)
    \<and> cm_channel_count (cm_configure_channel m i d g) = cm_channel_count m
    \<and> cm_get_channel (cm_configure_channel m i d g) j =
       (if unat j < unat (cm_channel_count m)
        then Some (if j = i then channel_new i d g else the (cm_get_channel m j)) else None)"
proof -
  have len: "unat (cm_channel_count m) = length m"
    using assms by (simp add: cm_channel_count_def cm_inv_def unat_of_nat_u8)
  have upd: "unat i < length m \<Longrightarrow> (m ! unat i)\<lparr>ch_delivery := d, ch_ordering := g\<rparr> = channel_new i d g"
  proof -
    assume i: "unat i < length m"
    then have "unat (ch_id (m ! unat i)) = unat i" using assms by (simp add: cm_inv_def)
    then have "ch_id (m ! unat i) = i" by simp
    then show ?thesis by (simp add: channel_new_def)
  qed
  have "cm_get_channel (cm_configure_channel m i d g) j =
       (if unat j < length m
        then Some (if j = i then channel_new i d g else the (cm_get_channel m j)) else None)"
  proof (cases "j = i")
    case True
    then show ?thesis by (simp add: cm_get_channel_def cm_configure_channel_def upd)
  next
    case False
    then have "unat j \<noteq> unat i" by simp
    then show ?thesis using False by (simp add: cm_get_channel_def cm_configure_channel_def)
  qed
  moreover have "cm_channel_count (cm_configure_channel m i d g) = cm_channel_count m"
    by (simp add: cm_channel_count_def cm_configure_channel_def)
  ultimately show ?thesis using cm_inv_configure [OF assms] by (simp only: len simp_thms)
qed

theorem configure_channel_lookup_witness:
  "cm_inv (cm_new 4) \<and>
   cm_get_channel (cm_configure_channel (cm_new 4) 2 Reliable Unsequenced) 2 =
     Some (channel_new 2 Reliable Unsequenced)"
  using configure_channel_lookup [OF cm_inv_new, of 4 2 Reliable Unsequenced 2] cm_inv_new [of 4]
  by (simp add: cm_channel_count_def cm_new_def)

end
