(* ===== verification/Sequence_Buffer.thy ===== *)
theory Sequence_Buffer
  imports Prelude
begin

text \<open>
  The circular buffer of received sequence numbers (\<^verbatim>\<open>bitfold-protocol/src/sequence_buffer.rs\<close>) and
  the comparison of wrapping sequence numbers.

  The default value of the element type is the parameter \<open>dflt\<close>. The capacity is never 0 in the
  code (the acknowledgment handler uses 33); the index is a remainder by it.

  The abstract specification \<open>recv_step\<close> keeps the set of the numbers received since the head last
  passed them. The buffer never claims a number that is not in this set; it holds every number of the window
  as long as the numbers do not wrap. Across the wrap it may lose one, because the capacity does not
  divide 65536.
\<close>

section \<open>Comparison\<close>

definition sequence_greater_than :: "u16 \<Rightarrow> u16 \<Rightarrow> bool" where
  "sequence_greater_than s1 s2 \<longleftrightarrow>
     (s1 > s2 \<and> s1 - s2 \<le> 32768) \<or> (s1 < s2 \<and> s2 - s1 > 32768)"

definition sequence_less_than :: "u16 \<Rightarrow> u16 \<Rightarrow> bool" where
  "sequence_less_than s1 s2 = sequence_greater_than s2 s1"

section \<open>The buffer\<close>

record 'a sequence_buffer =
  sq_sequence_num :: u16
  entry_sequences :: "u16 option list"
  sq_entries :: "'a list"

definition sq_with_capacity :: "'a \<Rightarrow> u16 \<Rightarrow> 'a sequence_buffer" where
  "sq_with_capacity dflt cap = \<lparr>sq_sequence_num = 0,
     entry_sequences = replicate (unat cap) None, sq_entries = replicate (unat cap) dflt\<rparr>"

definition sq_index :: "'a sequence_buffer \<Rightarrow> u16 \<Rightarrow> usize" where
  "sq_index b s = unat s mod length (entry_sequences b)"

definition sq_exists :: "'a sequence_buffer \<Rightarrow> u16 \<Rightarrow> bool" where
  "sq_exists b s =
     (case entry_sequences b ! sq_index b s of Some t \<Rightarrow> t = s | None \<Rightarrow> False)"

definition sq_get :: "'a sequence_buffer \<Rightarrow> u16 \<Rightarrow> 'a option" where
  "sq_get b s = (if sq_exists b s then Some (sq_entries b ! sq_index b s) else None)"

definition sq_remove :: "'a \<Rightarrow> 'a sequence_buffer \<Rightarrow> u16 \<Rightarrow> 'a sequence_buffer \<times> 'a option" where
  "sq_remove dflt b s =
     (if sq_exists b s
      then let i = sq_index b s; v = sq_entries b ! i
           in (b\<lparr>sq_entries := (sq_entries b)[i := dflt], entry_sequences := (entry_sequences b)[i := None]\<rparr>,
               Some v)
      else (b, None))"

definition remove_entries :: "'a \<Rightarrow> 'a sequence_buffer \<Rightarrow> nat \<Rightarrow> 'a sequence_buffer" where
  "remove_entries dflt b finish_sequence =
     (let start_sequence = unat (sq_sequence_num b);
          finish_sequence =
            (if finish_sequence < start_sequence then finish_sequence + 65536 else finish_sequence)
      in if finish_sequence - start_sequence < length (entry_sequences b)
         then fold (\<lambda>s b. fst (sq_remove dflt b (of_nat s))) [start_sequence..<finish_sequence + 1] b
         else b\<lparr>sq_entries := map (\<lambda>_. dflt) (sq_entries b),
                entry_sequences := map (\<lambda>_. None) (entry_sequences b)\<rparr>)"

definition advance_sequence :: "'a \<Rightarrow> 'a sequence_buffer \<Rightarrow> u16 \<Rightarrow> 'a sequence_buffer" where
  "advance_sequence dflt b s =
     (if sequence_greater_than (s + 1) (sq_sequence_num b)
      then (remove_entries dflt b (unat s))\<lparr>sq_sequence_num := s + 1\<rparr> else b)"

text \<open>The flag tells whether the reference to the new entry was returned.\<close>

definition sq_insert :: "'a \<Rightarrow> 'a sequence_buffer \<Rightarrow> u16 \<Rightarrow> 'a \<Rightarrow> 'a sequence_buffer \<times> bool" where
  "sq_insert dflt b s entry =
     (if sequence_less_than s (sq_sequence_num b - of_nat (length (entry_sequences b))) then (b, False)
      else let b = advance_sequence dflt b s;
               i = sq_index b s
           in (b\<lparr>entry_sequences := (entry_sequences b)[i := Some s],
                 sq_entries := (sq_entries b)[i := entry]\<rparr>, True))"

section \<open>Comparison of wrapping numbers\<close>

lemma sequence_greater_than_alt:
  "sequence_greater_than s1 s2 \<longleftrightarrow>
     0 < unat (s1 - s2) \<and> (unat (s1 - s2) < 32768 \<or> unat (s1 - s2) = 32768 \<and> s2 < s1)"
proof -
  have "unat s1 < 65536" "unat s2 < 65536" by (simp_all add: unat_u16_bound)
  then show ?thesis
    by (auto simp: sequence_greater_than_def unat_sub_u16 word_less_nat_alt word_le_nat_alt
        split: if_splits)
qed

lemma sequence_greater_than_irrefl [simp]: "\<not> sequence_greater_than s s"
  by (simp add: sequence_greater_than_def)

lemma sequence_greater_than_total:
  "s1 \<noteq> s2 \<Longrightarrow> sequence_greater_than s1 s2 \<longleftrightarrow> \<not> sequence_greater_than s2 s1"
proof -
  assume "s1 \<noteq> s2"
  then have "unat s1 \<noteq> unat s2" by simp
  moreover have "unat s1 < 65536" "unat s2 < 65536" by (simp_all add: unat_u16_bound)
  ultimately show ?thesis
    unfolding sequence_greater_than_alt word_less_nat_alt
    by (auto simp: unat_sub_u16 word_le_nat_alt split: if_splits)
qed

section \<open>Invariant\<close>

text \<open>Both arrays have the capacity, and an entry is stored at the index of its number.\<close>

definition sq_inv :: "nat \<Rightarrow> 'a sequence_buffer \<Rightarrow> bool" where
  "sq_inv cap b \<longleftrightarrow> 0 < cap \<and> length (entry_sequences b) = cap \<and> length (sq_entries b) = cap \<and>
     (\<forall>i < cap. \<forall>s. entry_sequences b ! i = Some s \<longrightarrow> i = unat s mod cap)"

lemma sq_inv_with_capacity: "0 < cap \<Longrightarrow> sq_inv (unat cap) (sq_with_capacity dflt cap)"
  by (simp add: sq_inv_def sq_with_capacity_def word_less_nat_alt)

lemma sq_exists_with_capacity: "0 < cap \<Longrightarrow> \<not> sq_exists (sq_with_capacity dflt cap) s"
  by (simp add: sq_exists_def sq_index_def sq_with_capacity_def word_less_nat_alt)

lemma sq_exists_iff: "sq_inv cap b \<Longrightarrow> sq_exists b s \<longleftrightarrow> entry_sequences b ! (unat s mod cap) = Some s"
  by (auto simp: sq_exists_def sq_index_def sq_inv_def split: option.split)

lemma sq_inv_remove:
  assumes "sq_inv cap b"
  shows "sq_inv cap (fst (sq_remove dflt b s))"
    and "sq_exists (fst (sq_remove dflt b s)) t \<longleftrightarrow> sq_exists b t \<and> t \<noteq> s"
    and "sq_sequence_num (fst (sq_remove dflt b s)) = sq_sequence_num b"
proof -
  have lt: "unat u mod cap < cap" for u :: u16 using assms by (simp add: sq_inv_def)
  show inv: "sq_inv cap (fst (sq_remove dflt b s))"
    using assms by (auto simp: sq_inv_def sq_remove_def Let_def sq_index_def nth_list_update split: if_splits)
  show "sq_exists (fst (sq_remove dflt b s)) t \<longleftrightarrow> sq_exists b t \<and> t \<noteq> s"
    unfolding sq_exists_iff [OF inv] sq_exists_iff [OF assms]
    using assms lt sq_exists_iff [OF assms, of s]
    by (auto simp: sq_remove_def Let_def sq_index_def sq_inv_def nth_list_update split: if_splits)
  show "sq_sequence_num (fst (sq_remove dflt b s)) = sq_sequence_num b"
    by (simp add: sq_remove_def Let_def)
qed

lemma sq_remove_range:
  fixes dflt :: 'a
  assumes "sq_inv cap b"
  defines "f \<equiv> \<lambda>s b. fst (sq_remove dflt b (of_nat s))"
  shows "sq_inv cap (fold f ns b) \<and>
         (\<forall>t. sq_exists (fold f ns b) t \<longleftrightarrow> sq_exists b t \<and> t \<notin> of_nat ` set ns) \<and>
         sq_sequence_num (fold f ns b) = sq_sequence_num b"
  using assms(1) by (induction ns arbitrary: b) (auto simp: f_def sq_inv_remove)

text \<open>The numbers from \<open>a\<close> forward to \<open>b\<close>, both included.\<close>

definition between :: "u16 \<Rightarrow> u16 \<Rightarrow> u16 \<Rightarrow> bool" where
  "between a b t \<longleftrightarrow> unat (t - a) \<le> unat (b - a)"

lemma of_nat_range_between:
  fixes a s t :: u16
  defines "fin \<equiv> (if unat s < unat a then unat s + 65536 else unat s)"
  shows "t \<in> of_nat ` set [unat a..<fin + 1] \<longleftrightarrow> between a s t"
proof -
  have bounds: "unat a < 65536" "unat s < 65536" "unat t < 65536" by (simp_all add: unat_u16_bound)
  have dist: "unat (s - a) = fin - unat a"
    using bounds by (auto simp: fin_def unat_sub_u16 word_le_nat_alt)
  have fin: "unat a \<le> fin" using bounds by (auto simp: fin_def)
  show ?thesis
  proof
    assume "t \<in> of_nat ` set [unat a..<fin + 1]"
    then obtain n where n: "unat a \<le> n" "n \<le> fin" "t = of_nat n" by auto
    then have "t - a = of_nat (n - unat a)" by (simp add: of_nat_diff)
    moreover have "n - unat a < 65536" using n(2) bounds dist unat_u16_bound [of "s - a"] fin by linarith
    ultimately have "unat (t - a) = n - unat a" by (simp add: unat_of_nat_u16)
    then show "between a s t" using n dist by (simp add: between_def)
  next
    assume "between a s t"
    then have "unat a + unat (t - a) \<le> fin" using dist fin by (simp add: between_def)
    moreover have "t = of_nat (unat a + unat (t - a))" by simp
    ultimately show "t \<in> of_nat ` set [unat a..<fin + 1]"
      by (metis atLeastLessThan_iff image_eqI le_add1 less_Suc_eq_le semiring_norm(174) set_upt Suc_eq_plus1)
  qed
qed

text \<open>After the head has passed the numbers up to \<open>s\<close>, none of them is held.\<close>

lemma sq_remove_entries:
  assumes "sq_inv cap b"
  shows "sq_inv cap (remove_entries dflt b (unat s))"
    and "sq_exists (remove_entries dflt b (unat s)) t \<Longrightarrow>
           sq_exists b t \<and> \<not> between (sq_sequence_num b) s t"
    and "unat (s - sq_sequence_num b) < cap \<Longrightarrow>
           sq_exists (remove_entries dflt b (unat s)) t \<longleftrightarrow>
           sq_exists b t \<and> \<not> between (sq_sequence_num b) s t"
proof -
  let ?n = "sq_sequence_num b"
  let ?fin = "if unat s < unat ?n then unat s + 65536 else unat s"
  note range = sq_remove_range [OF assms, of dflt "[unat ?n..<?fin + 1]"]
  have dist: "?fin - unat ?n = unat (s - ?n)"
    using unat_u16_bound [of s] unat_u16_bound [of ?n] by (auto simp: unat_sub_u16 word_le_nat_alt)
  have cap: "length (entry_sequences b) = cap" using assms by (simp add: sq_inv_def)
  let ?near = "fold (\<lambda>s b. fst (sq_remove dflt b (of_nat s))) [unat ?n..<?fin + 1] b"
  let ?far = "b\<lparr>sq_entries := map (\<lambda>_. dflt) (sq_entries b),
                entry_sequences := map (\<lambda>_. None) (entry_sequences b)\<rparr>"
  have rm: "remove_entries dflt b (unat s) = (if unat (s - ?n) < cap then ?near else ?far)"
    unfolding remove_entries_def Let_def cap dist ..
  have far: "sq_inv cap ?far" using assms by (simp add: sq_inv_def)
  have none: "\<not> sq_exists ?far t" for t
    using assms by (simp add: sq_exists_iff [OF far]) (simp add: sq_inv_def)
  show "sq_inv cap (remove_entries dflt b (unat s))"
    unfolding rm using range far by presburger
  have near: "sq_exists ?near t \<longleftrightarrow> sq_exists b t \<and> \<not> between ?n s t"
    using range unfolding of_nat_range_between by blast
  show "sq_exists (remove_entries dflt b (unat s)) t \<longleftrightarrow> sq_exists b t \<and> \<not> between ?n s t"
    if "unat (s - ?n) < cap"
    unfolding rm using that near by presburger
  show "sq_exists b t \<and> \<not> between ?n s t" if "sq_exists (remove_entries dflt b (unat s)) t"
  proof (cases "unat (s - ?n) < cap")
    case True
    then show ?thesis using that near unfolding rm by presburger
  next
    case False
    then show ?thesis using that none [of t] unfolding rm by presburger
  qed
qed

section \<open>Abstract specification\<close>

text \<open>
  The abstract state is the next expected number and the set of numbers received since the head
  last passed them.
\<close>

definition recv_step :: "nat \<Rightarrow> u16 \<times> u16 set \<Rightarrow> u16 \<Rightarrow> u16 \<times> u16 set" where
  "recv_step cap st s = (case st of (n, R) \<Rightarrow>
     if sequence_less_than s (n - of_nat cap) then (n, R)
     else if sequence_greater_than (s + 1) n then (s + 1, insert s {t \<in> R. \<not> between n s t})
     else (n, insert s R))"

definition sq_received :: "'a sequence_buffer \<Rightarrow> u16 set" where
  "sq_received b = {s. sq_exists b s}"

lemma sq_inv_advance:
  fixes dflt :: 'a and s :: u16
  assumes "sq_inv cap b"
  defines "b' \<equiv> advance_sequence dflt b s"
  shows "sq_inv cap b'"
    and "sq_sequence_num b' = (if sequence_greater_than (s + 1) (sq_sequence_num b) then s + 1 else sq_sequence_num b)"
    and "sq_exists b' t \<Longrightarrow> sq_exists b t \<and>
           (sequence_greater_than (s + 1) (sq_sequence_num b) \<longrightarrow> \<not> between (sq_sequence_num b) s t)"
proof -
  have upd: "sq_inv cap (c\<lparr>sq_sequence_num := n\<rparr>) \<longleftrightarrow> sq_inv cap c"
    "sq_exists (c\<lparr>sq_sequence_num := n\<rparr>) t \<longleftrightarrow> sq_exists c t" for c :: "'a sequence_buffer" and n t
    by (simp_all add: sq_inv_def sq_exists_def sq_index_def)
  note rem = sq_remove_entries [OF assms(1), where dflt = dflt and s = s]
  show "sq_inv cap b'"
    using assms(1) rem(1) by (simp add: b'_def advance_sequence_def upd)
  show "sq_sequence_num b' = (if sequence_greater_than (s + 1) (sq_sequence_num b) then s + 1 else sq_sequence_num b)"
    by (simp add: b'_def advance_sequence_def)
  show "sq_exists b t \<and> (sequence_greater_than (s + 1) (sq_sequence_num b) \<longrightarrow> \<not> between (sq_sequence_num b) s t)"
    if "sq_exists b' t"
    using that rem(2) by (auto simp: b'_def advance_sequence_def upd split: if_splits)
qed

lemma sq_exists_store:
  fixes e :: 'a and s :: u16
  assumes "sq_inv cap b"
  defines "b' \<equiv> b\<lparr>entry_sequences := (entry_sequences b)[sq_index b s := Some s],
                   sq_entries := (sq_entries b)[sq_index b s := e]\<rparr>"
  shows "sq_inv cap b'"
    and "sq_exists b' t \<longleftrightarrow> t = s \<or> sq_exists b t \<and> unat t mod cap \<noteq> unat s mod cap"
    and "sq_sequence_num b' = sq_sequence_num b"
proof -
  have lt: "unat u mod cap < cap" for u :: u16 using assms(1) by (simp add: sq_inv_def)
  show inv: "sq_inv cap b'"
    using assms(1) lt by (auto simp: b'_def sq_inv_def sq_index_def nth_list_update split: if_splits)
  show "sq_exists b' t \<longleftrightarrow> t = s \<or> sq_exists b t \<and> unat t mod cap \<noteq> unat s mod cap"
    unfolding sq_exists_iff [OF inv] sq_exists_iff [OF assms(1)]
    using assms(1) lt by (auto simp: b'_def sq_inv_def sq_index_def nth_list_update)
  show "sq_sequence_num b' = sq_sequence_num b" by (simp add: b'_def)
qed

lemma sq_insert_refines:
  fixes dflt e :: 'a and s :: u16
  assumes inv: "sq_inv cap b" and sub: "sq_received b \<subseteq> R"
  defines "b' \<equiv> fst (sq_insert dflt b s e)" and "st \<equiv> recv_step cap (sq_sequence_num b, R) s"
  shows "sq_inv cap b' \<and> sq_sequence_num b' = fst st \<and> sq_received b' \<subseteq> snd st"
proof (cases "sequence_less_than s (sq_sequence_num b - of_nat cap)")
  case True
  then show ?thesis
    using inv sub by (simp add: b'_def st_def sq_insert_def recv_step_def sq_inv_def)
next
  case False
  let ?a = "advance_sequence dflt b s"
  note adv = sq_inv_advance [OF inv, where dflt = dflt and s = s]
  have b': "b' = ?a\<lparr>entry_sequences := (entry_sequences ?a)[sq_index ?a s := Some s],
                  sq_entries := (sq_entries ?a)[sq_index ?a s := e]\<rparr>"
    using False inv by (simp add: b'_def sq_insert_def sq_inv_def Let_def)
  note store = sq_exists_store [OF adv(1), where s = s and e = e, folded b']
  show ?thesis
    using store(1,3) adv(2) False sub
    by (auto simp: st_def recv_step_def sq_received_def store(2) dest: adv(3))
qed

lemma sq_inserts_refine:
  "sq_inv cap b \<Longrightarrow> sq_received b \<subseteq> R \<Longrightarrow>
   (let b' = foldl (\<lambda>b s. fst (sq_insert dflt b s e)) b ss;
        st = foldl (recv_step cap) (sq_sequence_num b, R) ss
    in sq_inv cap b' \<and> sq_sequence_num b' = fst st \<and> sq_received b' \<subseteq> snd st)"
proof (induction ss arbitrary: b R)
  case (Cons s ss)
  from sq_insert_refines [OF Cons.prems, of dflt s e]
  show ?case
    using Cons.IH [of "fst (sq_insert dflt b s e)" "snd (recv_step cap (sq_sequence_num b, R) s)"]
    by (simp add: Let_def)
qed simp

section \<open>Nothing of the window is lost before the numbers wrap\<close>

lemma mod_neq_near:
  fixes a b cap :: nat
  assumes "a \<noteq> b" "a < b + cap" "b < a + cap"
  shows "a mod cap \<noteq> b mod cap"
proof
  assume eq: "a mod cap = b mod cap"
  show False
  proof (cases "a \<le> b")
    case True
    then have "cap dvd b - a" using eq by (metis mod_eq_dvd_iff_nat)
    then have "cap \<le> b - a" using True assms(1) by (intro dvd_imp_le) simp_all
    then show False using True assms by linarith
  next
    case False
    then have "cap dvd a - b" using eq by (metis mod_eq_dvd_iff_nat nat_le_linear)
    then have "cap \<le> a - b" using False by (intro dvd_imp_le) simp_all
    then show False using False assms by linarith
  qed
qed

text \<open>The abstract set is below the head, and the buffer holds what of it lies in the window.\<close>

definition sq_complete :: "nat \<Rightarrow> 'a sequence_buffer \<Rightarrow> u16 set \<Rightarrow> bool" where
  "sq_complete cap b R \<longleftrightarrow> unat (sq_sequence_num b) + cap \<le> 32768 \<and>
     (\<forall>r \<in> R. unat r < unat (sq_sequence_num b)) \<and>
     (\<forall>r \<in> R. unat (sq_sequence_num b) \<le> unat r + cap \<longrightarrow> sq_exists b r)"

lemma no_wrap_compare:
  assumes "unat n + cap \<le> 32768" "unat s + cap < 32768" "0 < cap"
  shows "sequence_greater_than (s + 1) n \<longleftrightarrow> unat n \<le> unat s"
    and "sequence_less_than s (n - of_nat cap) \<longleftrightarrow> unat s + cap < unat n"
    and "unat (s + 1) = unat s + 1"
proof -
  show s1: "unat (s + 1) = unat s + 1"
    using assms by (simp add: unat_word_ariths)
  have cap: "unat (of_nat cap :: u16) = cap" using assms by (simp add: unat_of_nat_u16)
  show "sequence_greater_than (s + 1) n \<longleftrightarrow> unat n \<le> unat s"
    using assms s1 by (auto simp: sequence_greater_than_alt unat_sub_u16 word_le_nat_alt word_less_nat_alt)
  have nc: "unat (n - of_nat cap) = (if cap \<le> unat n then unat n - cap else 65536 + unat n - cap)"
    using cap by (simp add: unat_sub_u16 word_le_nat_alt)
  show "sequence_less_than s (n - of_nat cap) \<longleftrightarrow> unat s + cap < unat n"
    using assms nc
    by (auto simp: sequence_less_than_def sequence_greater_than_alt unat_sub_u16 [of "n - of_nat cap"]
        word_le_nat_alt word_less_nat_alt split: if_splits)
qed

lemma sq_insert_complete:
  fixes dflt e :: 'a
  assumes inv: "sq_inv cap b" and comp: "sq_complete cap b R" and s: "unat s + cap < 32768"
  defines "b' \<equiv> fst (sq_insert dflt b s e)" and "R' \<equiv> snd (recv_step cap (sq_sequence_num b, R) s)"
  shows "sq_complete cap b' R'"
proof -
  let ?n = "sq_sequence_num b" and ?a = "advance_sequence dflt b s"
  have n: "unat ?n + cap \<le> 32768" and cap: "0 < cap"
    using comp inv by (simp_all add: sq_complete_def sq_inv_def)
  note cmp = no_wrap_compare [OF n s cap]
  note adv = sq_inv_advance [OF inv, where dflt = dflt and s = s]
  note store = sq_exists_store [OF adv(1), where s = s and e = e]
  show ?thesis
  proof (cases "unat s + cap < unat ?n")
    case True
    then show ?thesis
      using comp inv by (simp add: b'_def R'_def sq_insert_def recv_step_def cmp sq_inv_def)
  next
    case False
    then have b': "b' = ?a\<lparr>entry_sequences := (entry_sequences ?a)[sq_index ?a s := Some s],
                  sq_entries := (sq_entries ?a)[sq_index ?a s := e]\<rparr>"
      using inv by (simp add: b'_def sq_insert_def sq_inv_def Let_def cmp)
    note stored = store [folded b']
    show ?thesis
    proof (cases "unat ?n \<le> unat s")
      case True
      have num: "sq_sequence_num b' = s + 1" using True by (simp add: stored(3) adv(2) cmp)
      have R': "R' = insert s {t \<in> R. \<not> between ?n s t}"
        using False True by (simp add: R'_def recv_step_def cmp)
      have "sq_exists b' r" if "r \<in> R" "unat s + 1 \<le> unat r + cap" for r
      proof -
        have r: "unat r < unat ?n" "sq_exists b r"
          using comp that True by (auto simp: sq_complete_def)
        have "\<not> between ?n s r"
          using r(1) True unat_u16_bound [of ?n] unat_u16_bound [of s]
          by (auto simp: between_def unat_sub_u16 word_le_nat_alt)
        moreover have "unat (s - ?n) < cap"
          using that(2) r(1) True by (simp add: unat_sub_u16 word_le_nat_alt)
        ultimately have "sq_exists ?a r"
          using r(2) sq_remove_entries(3) [OF inv] True
          by (simp add: advance_sequence_def cmp sq_exists_def sq_index_def)
        moreover have "unat r mod cap \<noteq> unat s mod cap"
          by (rule mod_neq_near) (use r(1) that(2) True in auto)
        ultimately show ?thesis by (simp add: stored(2))
      qed
      then show ?thesis
        using s True comp by (auto simp: sq_complete_def num cmp(3) R' stored(2))
    next
      case n_gt: False
      have num: "sq_sequence_num b' = ?n" using n_gt by (simp add: stored(3) adv(2) cmp)
      have R': "R' = insert s R"
        using False n_gt by (simp add: R'_def recv_step_def cmp)
      have "sq_exists b' r" if "r \<in> R" "unat ?n \<le> unat r + cap" for r
      proof (cases "r = s")
        case r_neq: False
        have "unat r < unat ?n" "sq_exists b r"
          using comp that by (auto simp: sq_complete_def)
        moreover from this have "unat r mod cap \<noteq> unat s mod cap"
          by (intro mod_neq_near) (use r_neq that(2) False n_gt in simp_all)
        ultimately show ?thesis using n_gt by (simp add: stored(2) advance_sequence_def cmp)
      qed (simp add: stored(2))
      then show ?thesis
        using n_gt comp by (auto simp: sq_complete_def num R' stored(2))
    qed
  qed
qed

lemma sq_inserts_complete:
  "sq_inv cap b \<Longrightarrow> sq_received b \<subseteq> R \<Longrightarrow> sq_complete cap b R \<Longrightarrow> \<forall>s \<in> set ss. unat s + cap < 32768 \<Longrightarrow>
   sq_complete cap (foldl (\<lambda>b s. fst (sq_insert dflt b s e)) b ss)
     (snd (foldl (recv_step cap) (sq_sequence_num b, R) ss))"
proof (induction ss arbitrary: b R)
  case (Cons s ss)
  let ?b = "fst (sq_insert dflt b s e)" and ?st = "recv_step cap (sq_sequence_num b, R) s"
  have "sq_inv cap ?b \<and> sq_sequence_num ?b = fst ?st \<and> sq_received ?b \<subseteq> snd ?st"
    by (rule sq_insert_refines [OF Cons.prems(1,2)])
  moreover have "sq_complete cap ?b (snd ?st)"
    by (rule sq_insert_complete) (use Cons.prems in simp_all)
  ultimately show ?case
    using Cons.IH [of ?b "snd ?st"] Cons.prems(4) by simp
qed simp

text \<open>Numbers 65520 and 15 have the same slot, and both fit in one window across the wrap.\<close>

lemma wrap_collision:
  assumes inv: "sq_inv 33 b" and num: "sq_sequence_num b = 65521"
  shows "sq_sequence_num (fst (sq_insert dflt b 15 e)) = 16" and
    "\<not> sq_exists (fst (sq_insert dflt b 15 e)) 65520"
proof -
  let ?a = "advance_sequence dflt b 15"
  note adv = sq_inv_advance [OF inv, where dflt = dflt and s = 15]
  have len: "length (entry_sequences b) = 33" using inv by (simp add: sq_inv_def)
  have ins: "fst (sq_insert dflt b 15 e) = ?a\<lparr>entry_sequences := (entry_sequences ?a)[sq_index ?a 15 := Some 15],
      sq_entries := (sq_entries ?a)[sq_index ?a 15 := e]\<rparr>"
    unfolding sq_insert_def Let_def len num
    by (simp add: sequence_less_than_def sequence_greater_than_def)
  note store = sq_exists_store [OF adv(1), where s = 15 and e = e, folded ins]
  show "\<not> sq_exists (fst (sq_insert dflt b 15 e)) 65520"
    unfolding store(2) by simp
  show "sq_sequence_num (fst (sq_insert dflt b 15 e)) = 16"
    unfolding store(3) adv(2) num by (simp add: sequence_greater_than_def)
qed

section \<open>Properties\<close>

text \<open>
  The wrapping comparison orders any two different sequence numbers in exactly one direction,
  also across the wrap and at distance 32768, and the successor of a number is greater than it.
\<close>

theorem sequence_order_total:
  "(s1 \<noteq> s2 \<longrightarrow> sequence_greater_than s1 s2 \<noteq> sequence_less_than s1 s2) \<and>
   \<not> sequence_greater_than s1 s1 \<and> sequence_greater_than (s1 + 1) s1"
  using sequence_greater_than_total [of s1 s2]
  by (auto simp: sequence_less_than_def sequence_greater_than_alt)

theorem sequence_order_total_witness:
  "sequence_greater_than 0 65535 \<noteq> sequence_less_than 0 65535"
  using sequence_order_total [of 0 65535] by simp

text \<open>
  C16: The circular buffer implements its specification on every sequence of insertions: its head is
  the specified one, and it reports no number as received that was not received since the head last
  passed it. As long as the numbers stay below the wrap, it also reports every received number that is
  at most the capacity behind the head.
\<close>

theorem sequence_buffer_refines:
  fixes dflt e :: 'a and ss :: "u16 list"
  assumes "0 < cap"
  defines "b \<equiv> foldl (\<lambda>b s. fst (sq_insert dflt b s e)) (sq_with_capacity dflt cap) ss"
    and "st \<equiv> foldl (recv_step (unat cap)) (0, {}) ss"
  shows "sq_sequence_num b = fst st \<and> sq_received b \<subseteq> snd st \<and>
    ((\<forall>s \<in> set ss. unat s + unat cap < 32768) \<longrightarrow> unat cap \<le> 32768 \<longrightarrow>
       {s \<in> snd st. unat (fst st) \<le> unat s + unat cap} \<subseteq> sq_received b)"
proof -
  let ?b0 = "sq_with_capacity dflt cap"
  have init: "sq_inv (unat cap) ?b0" "sq_received ?b0 \<subseteq> {}" "sq_sequence_num ?b0 = 0"
    using assms(1) by (simp_all add: sq_inv_with_capacity sq_received_def sq_exists_with_capacity)
      (simp add: sq_with_capacity_def)
  have ref: "sq_sequence_num b = fst st" "sq_received b \<subseteq> snd st"
    using sq_inserts_refine [OF init(1,2), of dflt e ss] init(3) by (simp_all add: b_def st_def Let_def)
  have "sq_complete (unat cap) b (snd st)"
    if "\<forall>s \<in> set ss. unat s + unat cap < 32768" "unat cap \<le> 32768"
    using sq_inserts_complete [OF init(1,2) _ that(1), of dflt e] init(3) that(2)
    by (simp add: b_def st_def sq_complete_def)
  then show ?thesis using ref by (auto simp: sq_complete_def sq_received_def)
qed

theorem sequence_buffer_refines_witness:
  "(1 :: u16) \<in> sq_received
     (foldl (\<lambda>b s. fst (sq_insert () b s ())) (sq_with_capacity () 33) [0, 2, 1])"
proof -
  have "recv_step 33 (recv_step 33 (recv_step 33 (0, {}) 0) 2) 1 = (3, {0, 1, 2})"
    by (auto simp: recv_step_def sequence_less_than_def sequence_greater_than_def between_def
        unsigned_minus_1_eq_mask mask_eq_exp_minus_1)
  then show ?thesis
    using sequence_buffer_refines [of 33 "()" "()" "[0, 2, 1]"] by auto
qed

text \<open>
  The capacity 33 does not divide 65536, so two numbers of one window that straddle the wrap can
  share a slot. When number 15 arrives after number 65520 (the head is then 16, so 65520 is still in
  the window of 33), the buffer stops reporting 65520, although it was received.
\<close>

theorem sequence_buffer_loses_at_wrap:
  "let b = foldl (\<lambda>b s. fst (sq_insert () b s ())) (sq_with_capacity () 33) [30000, 60000, 65520, 15];
       st = foldl (recv_step 33) (0, {}) [30000, 60000, 65520, 15]
   in sq_sequence_num b = 16 \<and> unat (sq_sequence_num b - 65520) \<le> 33 \<and> 65520 \<in> snd st \<and>
      \<not> sq_exists b 65520"
proof -
  let ?b0 = "sq_with_capacity () 33" and ?ins = "\<lambda>b s. fst (sq_insert () b s ())"
  define b3 where "b3 = foldl ?ins ?b0 [30000, 60000, 65520]"
  have init: "sq_inv 33 ?b0" "sq_received ?b0 \<subseteq> {}" "sq_sequence_num ?b0 = 0"
    using sq_inv_with_capacity [of 33 "()"] by (simp_all add: sq_received_def sq_exists_with_capacity)
      (simp add: sq_with_capacity_def)
  have st3: "foldl (recv_step 33) (0, {}) [30000, 60000, 65520] = (65521, {30000, 60000, 65520})"
    by (auto simp: recv_step_def sequence_less_than_def sequence_greater_than_def between_def
        unsigned_minus_1_eq_mask mask_eq_exp_minus_1)
  have b3: "sq_inv 33 b3" "sq_sequence_num b3 = 65521"
    using sq_inserts_refine [OF init(1,2), of "()" "()" "[30000, 60000, 65520]", folded b3_def] init(3) st3
    by (simp_all only: Let_def fst_conv)
  have "65520 \<in> snd (recv_step 33 (65521, {30000, 60000, 65520}) 15)"
    by (simp add: recv_step_def sequence_less_than_def sequence_greater_than_def between_def
        unsigned_minus_1_eq_mask mask_eq_exp_minus_1)
  moreover have "foldl (recv_step 33) (0, {}) [30000, 60000, 65520, 15]
      = recv_step 33 (65521, {30000, 60000, 65520}) 15"
    using st3 by simp
  moreover have "foldl ?ins ?b0 [30000, 60000, 65520, 15] = ?ins b3 15"
    by (simp add: b3_def)
  ultimately show ?thesis
    using wrap_collision [OF b3, of "()" "()"] by (simp only: Let_def) simp
qed

end
