(* ===== verification/Congestion.thy ===== *)
theory Congestion
  imports Core_Types
begin

text \<open>
  Congestion control (\<^verbatim>\<open>bitfold-protocol/src/congestion.rs\<close>): smoothed round-trip time, loss counters and
  the throttle, which is the probability of dropping an unreliable packet. The clock reading of the
  constructor and the random number of \<^verbatim>\<open>should_drop_unreliable\<close> are arguments.

  The results: the throttle stays a probability under every sequence of operations, and the exact
  condition under which the advanced throttle overflows.
\<close>

record congestion_control =
  cc_rtt :: duration
  cc_rtt_variance :: duration
  cc_rtt_alpha :: f32
  cc_rtt_beta :: f32
  packets_lost :: u32
  packets_sent :: u32
  cc_throttle :: f32
  min_throttle :: f32
  max_throttle :: f32
  last_throttle_update :: instant
  cc_throttle_interval :: duration
  cc_use_advanced_throttling :: bool
  cc_throttle_scale :: u32
  packet_throttle :: u32
  cc_throttle_acceleration :: u32
  cc_throttle_deceleration :: u32

definition cc_new :: "f32 \<Rightarrow> f32 \<Rightarrow> instant \<Rightarrow> congestion_control" where
  "cc_new alpha beta now = \<lparr>
     cc_rtt = from_millis 50, cc_rtt_variance = from_millis 25, cc_rtt_alpha = alpha, cc_rtt_beta = beta,
     packets_lost = 0, packets_sent = 0, cc_throttle = Fin 0, min_throttle = Fin 0, max_throttle = Fin 1,
     last_throttle_update = now, cc_throttle_interval = from_secs 1,
     cc_use_advanced_throttling = False, cc_throttle_scale = 32, packet_throttle = 32,
     cc_throttle_acceleration = 2, cc_throttle_deceleration = 2\<rparr>"

definition cc_default :: "instant \<Rightarrow> congestion_control" where
  "cc_default now = cc_new (f32_of_rat (1 / 10)) (f32_of_rat (1 / 4)) now"

definition enable_advanced_throttling ::
  "congestion_control \<Rightarrow> u32 \<Rightarrow> u32 \<Rightarrow> u32 \<Rightarrow> u32 \<Rightarrow> congestion_control" where
  "enable_advanced_throttling c scale acceleration deceleration interval_ms =
     c\<lparr>cc_use_advanced_throttling := True, cc_throttle_scale := scale, packet_throttle := scale,
       cc_throttle_acceleration := acceleration, cc_throttle_deceleration := deceleration,
       cc_throttle_interval := from_millis (unat interval_ms)\<rparr>"

definition update_rtt :: "congestion_control \<Rightarrow> duration \<Rightarrow> congestion_control" where
  "update_rtt c sample =
     (let sample_ms = f32_of_nat (as_millis sample);
          rtt_ms = f32_of_nat (as_millis (cc_rtt c));
          new_rtt_ms = f32_add (f32_mul (f32_sub (Fin 1) (cc_rtt_alpha c)) rtt_ms)
                         (f32_mul (cc_rtt_alpha c) sample_ms);
          c = c\<lparr>cc_rtt := from_millis (f32_to_u64 new_rtt_ms)\<rparr>;
          diff = f32_abs (f32_sub rtt_ms sample_ms);
          var_ms = f32_of_nat (as_millis (cc_rtt_variance c));
          new_var_ms = f32_add (f32_mul (f32_sub (Fin 1) (cc_rtt_beta c)) var_ms)
                         (f32_mul (cc_rtt_beta c) diff)
      in c\<lparr>cc_rtt_variance := from_millis (f32_to_u64 new_var_ms)\<rparr>)"

text \<open>The factor 4 is applied to a 64-bit number.\<close>

definition rto :: "congestion_control \<Rightarrow> (error_kind, duration) res" where
  "rto c = (let v = as_millis (cc_rtt_variance c) mod 2 ^ 64
            in if 4 * v < 2 ^ 64 then Ok (cc_rtt c + from_millis (4 * v)) else Panic)"

definition record_loss :: "congestion_control \<Rightarrow> (error_kind, congestion_control) res" where
  "record_loss c = res_bind (add_checked (packets_lost c) 1) (\<lambda>n. Ok (c\<lparr>packets_lost := n\<rparr>))"

definition record_sent :: "congestion_control \<Rightarrow> (error_kind, congestion_control) res" where
  "record_sent c = res_bind (add_checked (packets_sent c) 1) (\<lambda>n. Ok (c\<lparr>packets_sent := n\<rparr>))"

definition loss_rate :: "congestion_control \<Rightarrow> f32" where
  "loss_rate c =
     (if packets_sent c = 0 then Fin 0
      else f32_div (f32_of_nat (unat (packets_lost c))) (f32_of_nat (unat (packets_sent c))))"

definition update_simple_throttle :: "congestion_control \<Rightarrow> f32 \<Rightarrow> congestion_control" where
  "update_simple_throttle c loss =
     (if f32_lt (f32_of_rat (5 / 100)) loss
      then c\<lparr>cc_throttle := f32_min (f32_add (cc_throttle c) (f32_of_rat (1 / 10))) (max_throttle c)\<rparr>
      else if f32_lt loss (f32_of_rat (1 / 100)) \<and> f32_lt (min_throttle c) (cc_throttle c)
      then c\<lparr>cc_throttle := f32_max (f32_sub (cc_throttle c) (f32_of_rat (5 / 100))) (min_throttle c)\<rparr>
      else c)"

definition step_packet_throttle :: "congestion_control \<Rightarrow> f32 \<Rightarrow> (error_kind, congestion_control) res" where
  "step_packet_throttle c loss =
     (if f32_lt (f32_of_rat (1 / 100)) loss
      then (if packet_throttle c > cc_throttle_deceleration c
            then Ok (c\<lparr>packet_throttle := packet_throttle c - cc_throttle_deceleration c\<rparr>)
            else Ok (c\<lparr>packet_throttle := 0\<rparr>))
      else if f32_lt loss (f32_of_rat (5 / 1000)) \<and> packet_throttle c < cc_throttle_scale c
      then res_bind (add_checked (packet_throttle c) (cc_throttle_acceleration c)) (\<lambda>n.
             Ok (c\<lparr>packet_throttle := min n (cc_throttle_scale c)\<rparr>))
      else Ok c)"

definition update_advanced_throttle :: "congestion_control \<Rightarrow> f32 \<Rightarrow> (error_kind, congestion_control) res" where
  "update_advanced_throttle c loss =
     res_bind (step_packet_throttle c loss) (\<lambda>c.
       Ok (c\<lparr>cc_throttle := f32_sub (Fin 1)
               (f32_div (f32_of_nat (unat (packet_throttle c))) (f32_of_nat (unat (cc_throttle_scale c))))\<rparr>))"

definition update_throttle :: "congestion_control \<Rightarrow> instant \<Rightarrow> (error_kind, congestion_control \<times> bool) res" where
  "update_throttle c now =
     (if duration_since now (last_throttle_update c) < cc_throttle_interval c then Ok (c, False)
      else let loss = loss_rate c
           in res_bind (if cc_use_advanced_throttling c then update_advanced_throttle c loss
                        else Ok (update_simple_throttle c loss)) (\<lambda>c.
              Ok (c\<lparr>packets_lost := 0, packets_sent := 0, last_throttle_update := now\<rparr>, True)))"

definition should_drop_unreliable :: "congestion_control \<Rightarrow> f32 \<Rightarrow> bool" where
  "should_drop_unreliable c random =
     (if f32_eq (cc_throttle c) (Fin 0) then False else f32_lt random (cc_throttle c))"

definition set_throttle_range :: "congestion_control \<Rightarrow> f32 \<Rightarrow> f32 \<Rightarrow> congestion_control" where
  "set_throttle_range c lo hi =
     c\<lparr>min_throttle := f32_clamp lo (Fin 0) (Fin 1), max_throttle := f32_clamp hi (Fin 0) (Fin 1)\<rparr>"

definition configure_throttle :: "congestion_control \<Rightarrow> u32 \<Rightarrow> u32 \<Rightarrow> u32 \<Rightarrow> congestion_control" where
  "configure_throttle c interval_ms acceleration deceleration =
     c\<lparr>cc_throttle_interval := from_millis (unat interval_ms),
       cc_throttle_acceleration := acceleration, cc_throttle_deceleration := deceleration\<rparr>"

definition reset_stats :: "congestion_control \<Rightarrow> congestion_control" where
  "reset_stats c = c\<lparr>packets_lost := 0, packets_sent := 0\<rparr>"

section \<open>The throttle is a probability\<close>

fun f32_unit :: "f32 \<Rightarrow> bool" where
  "f32_unit (Fin t) = (0 \<le> t \<and> t \<le> 1)"
| "f32_unit _ = False"

lemma f32_round_pow2_nat: "f32_round (of_nat (2 ^ k)) = of_nat (2 ^ k)"
proof -
  let ?x = "pow2 (int k)"
  have "pow2 (expo ?x) \<le> ?x" "?x < pow2 (expo ?x + 1)"
    using expo_bounds [of ?x] by simp_all
  then have e: "expo ?x = int k" by simp
  then have "?x / quantum ?x = pow2 23" by (simp add: quantum_def pow2_div)
  then have "?x / quantum ?x = of_int (2 ^ 23)" by (simp add: pow2_def)
  then have "f32_round_pos ?x = ?x" by (rule round_pos_exact)
  moreover have "0 < ?x" by simp
  ultimately have "f32_round ?x = ?x" by (simp add: f32_round_def)
  then show ?thesis unfolding pow2_of_nat .
qed

lemma f32_of_nat_Fin:
  assumes "n \<le> 2 ^ 32"
  shows "f32_of_nat n = Fin (f32_round (of_nat n))"
proof -
  have "(of_nat n :: rat) \<le> of_nat (2 ^ 32)" using assms of_nat_le_iff by blast
  then have le: "f32_round (of_nat n) \<le> of_nat (2 ^ 32)"
    using f32r.mono f32_round_pow2_nat [of 32] by fastforce
  have "(of_nat (2 ^ 32) :: rat) < pow2 128" by (simp add: pow2_def)
  with le have "f32_round (of_nat n) < pow2 128" by (rule le_less_trans)
  moreover have "0 \<le> f32_round (of_nat n :: rat)" by (simp add: f32r.nonneg)
  moreover have "- pow2 128 < 0" by simp
  ultimately show ?thesis by (auto simp: f32_of_nat_def f32_of_rat_def Let_def simp del: pow2_pos)
qed

lemma f32_of_rat_unit: "0 \<le> x \<Longrightarrow> x \<le> 1 \<Longrightarrow> f32_unit (f32_of_rat x)"
  using f32r.unit_interval [of x] by (simp add: f32_of_rat_small)

lemma f32_ratio:
  assumes "a \<le> b" "0 < b" "b \<le> 2 ^ 32"
  shows "f32_unit (f32_div (f32_of_nat a) (f32_of_nat b))"
    and "f32_unit (f32_sub (Fin 1) (f32_div (f32_of_nat a) (f32_of_nat b)))"
proof -
  let ?r = "\<lambda>n :: nat. f32_round (of_nat n)"
  have ab: "?r a \<le> ?r b" using assms(1) by (intro f32r.mono) simp
  have b: "1 \<le> ?r b" using assms(2) f32r.ge_nat [of 1 "of_nat b"] by simp
  have a: "0 \<le> ?r a" by (simp add: f32r.nonneg)
  have q: "0 \<le> ?r a / ?r b" "?r a / ?r b \<le> 1" using a ab b by (simp_all add: divide_le_eq_1)
  have small: "f32_of_rat (?r a / ?r b) = Fin (f32_round (?r a / ?r b))"
    by (rule f32_of_rat_small [OF q(1)]) (rule order_trans [OF q(2)], simp)
  have d: "f32_div (f32_of_nat a) (f32_of_nat b) = Fin (f32_round (?r a / ?r b))"
    using b small assms by (simp add: f32_of_nat_Fin)
  have u: "0 \<le> f32_round (?r a / ?r b) \<and> f32_round (?r a / ?r b) \<le> 1" by (rule f32r.unit_interval [OF q])
  show "f32_unit (f32_div (f32_of_nat a) (f32_of_nat b))"
    unfolding d using u by simp
  show "f32_unit (f32_sub (Fin 1) (f32_div (f32_of_nat a) (f32_of_nat b)))"
    unfolding d using u by (simp add: f32_sub_def f32_of_rat_unit)
qed

lemma f32_unit_cases: "f32_unit x \<Longrightarrow> (\<And>t. x = Fin t \<Longrightarrow> 0 \<le> t \<Longrightarrow> t \<le> 1 \<Longrightarrow> P) \<Longrightarrow> P"
  by (cases x) auto

lemma f32_unit_min_add:
  assumes "f32_unit x" "f32_unit m" "f32_unit d"
  shows "f32_unit (f32_min (f32_add x d) m)"
proof -
  from assms obtain t u v where [simp]: "x = Fin t" "m = Fin u" "d = Fin v"
    and b: "0 \<le> t" "t \<le> 1" "0 \<le> u" "u \<le> 1" "0 \<le> v" "v \<le> 1"
    by (metis f32_unit_cases)
  have "f32_of_rat (t + v) = Fin (f32_round (t + v))" by (rule f32_of_rat_small) (use b in auto)
  then show ?thesis using b f32r.nonneg [of "t + v"] by (auto simp: f32_min_def)
qed

lemma f32_unit_max_sub:
  assumes "f32_unit x" "f32_unit m" "f32_unit d"
  shows "f32_unit (f32_max (f32_sub x d) m)"
proof -
  from assms obtain t u v where [simp]: "x = Fin t" "m = Fin u" "d = Fin v"
    and b: "0 \<le> t" "t \<le> 1" "0 \<le> u" "u \<le> 1" "0 \<le> v" "v \<le> 1"
    by (metis f32_unit_cases)
  have le: "f32_round (t - v) \<le> 1" using f32r.mono [of "t - v" 1] f32r.one b by simp
  have "(1 :: rat) < pow2 128" by (simp add: pow2_def)
  with le have "\<not> pow2 128 \<le> f32_round (t - v)" by simp
  then show ?thesis using b le by (auto simp: f32_max_def f32_sub_def f32_of_rat_def Let_def)
qed

lemma f32_unit_clamp: "x \<noteq> NaN \<Longrightarrow> f32_unit (f32_clamp x (Fin 0) (Fin 1))"
  by (cases x) (auto simp: f32_clamp_def)

text \<open>
  The throttle and its bounds lie in the unit interval, and the scaled throttle is at most its
  positive scale.
\<close>

definition cc_inv :: "congestion_control \<Rightarrow> bool" where
  "cc_inv c \<longleftrightarrow> f32_unit (cc_throttle c) \<and> f32_unit (min_throttle c) \<and> f32_unit (max_throttle c) \<and>
     0 < cc_throttle_scale c \<and> packet_throttle c \<le> cc_throttle_scale c"

lemma cc_inv_new [inv_intros]: "cc_inv (cc_new alpha beta now)"
  by (simp add: cc_inv_def cc_new_def)

lemma cc_inv_enable [inv_intros]: "cc_inv c \<Longrightarrow> 0 < scale \<Longrightarrow> cc_inv (enable_advanced_throttling c scale a d i)"
  by (simp add: cc_inv_def enable_advanced_throttling_def)

lemma cc_inv_update_rtt [inv_intros]: "cc_inv c \<Longrightarrow> cc_inv (update_rtt c sample)"
  by (simp add: cc_inv_def update_rtt_def Let_def)

lemma cc_inv_record_loss: "cc_inv c \<Longrightarrow> record_loss c = Ok c' \<Longrightarrow> cc_inv c'"
  by (auto simp: cc_inv_def record_loss_def res_bind_Ok_iff)

lemma cc_inv_record_sent: "cc_inv c \<Longrightarrow> record_sent c = Ok c' \<Longrightarrow> cc_inv c'"
  by (auto simp: cc_inv_def record_sent_def res_bind_Ok_iff)

lemma cc_inv_simple: "cc_inv c \<Longrightarrow> cc_inv (update_simple_throttle c loss)"
  by (simp add: cc_inv_def update_simple_throttle_def f32_unit_min_add f32_unit_max_sub f32_of_rat_unit)

lemma word_sub_le_scale: "b < a \<Longrightarrow> a \<le> s \<Longrightarrow> a - b \<le> (s :: u32)"
  by (simp add: word_le_nat_alt word_less_nat_alt unat_sub)

lemma cc_inv_advanced:
  assumes inv: "cc_inv c" and upd: "update_advanced_throttle c loss = (Ok c' :: (error_kind, _) res)"
  shows "cc_inv c'"
proof -
  from upd obtain d where step: "step_packet_throttle c loss = (Ok d :: (error_kind, _) res)"
    and d: "c' = d\<lparr>cc_throttle := f32_sub (Fin 1)
      (f32_div (f32_of_nat (unat (packet_throttle d))) (f32_of_nat (unat (cc_throttle_scale d))))\<rparr>"
    by (auto simp: update_advanced_throttle_def res_bind_Ok_iff)
  have e: "packet_throttle d \<le> cc_throttle_scale d" "cc_throttle_scale d = cc_throttle_scale c"
      "min_throttle d = min_throttle c" "max_throttle d = max_throttle c"
    using inv step
    by (auto simp: step_packet_throttle_def res_bind_Ok_iff cc_inv_def intro: word_sub_le_scale
        split: if_splits)
  show "cc_inv c'"
    using inv e f32_ratio(2) [of "unat (packet_throttle d)" "unat (cc_throttle_scale d)"]
      unat_u32_bound [of "cc_throttle_scale d"]
    by (simp add: d cc_inv_def word_le_nat_alt word_less_nat_alt)
qed

lemma cc_inv_update: "cc_inv c \<Longrightarrow> update_throttle c now = Ok (c', u) \<Longrightarrow> cc_inv c'"
proof -
  have upd: "cc_inv (d\<lparr>packets_lost := 0, packets_sent := 0, last_throttle_update := now\<rparr>) \<longleftrightarrow> cc_inv d" for d
    by (simp add: cc_inv_def)
  assume "cc_inv c" "update_throttle c now = Ok (c', u)"
  then show ?thesis
    by (auto simp: update_throttle_def Let_def res_bind_Ok_iff upd
        intro: cc_inv_simple cc_inv_advanced split: if_splits)
qed

lemma throttle_keeps_rtt:
  "update_throttle c now = Ok (c', u) \<Longrightarrow> cc_rtt c' = cc_rtt c \<and> cc_rtt_variance c' = cc_rtt_variance c"
  by (auto simp: update_throttle_def update_simple_throttle_def update_advanced_throttle_def step_packet_throttle_def
      Let_def res_bind_Ok_iff split: if_splits)

lemma cc_inv_range: "cc_inv c \<Longrightarrow> lo \<noteq> NaN \<Longrightarrow> hi \<noteq> NaN \<Longrightarrow> cc_inv (set_throttle_range c lo hi)"
  by (simp add: cc_inv_def set_throttle_range_def f32_unit_clamp)

lemma cc_inv_configure [inv_intros]: "cc_inv c \<Longrightarrow> cc_inv (configure_throttle c i a d)"
  by (simp add: cc_inv_def configure_throttle_def)

lemma cc_inv_reset [inv_intros]: "cc_inv c \<Longrightarrow> cc_inv (reset_stats c)"
  by (simp add: cc_inv_def reset_stats_def)

section \<open>Sequences of operations\<close>

datatype cc_op =
    CcSent | CcLost | CcRtt duration | CcUpdate instant | CcRange f32 f32
  | CcConfigure u32 u32 u32 | CcEnable u32 u32 u32 u32 | CcReset

fun cc_apply :: "congestion_control \<Rightarrow> cc_op \<Rightarrow> (error_kind, congestion_control) res" where
  "cc_apply c CcSent = record_sent c"
| "cc_apply c CcLost = record_loss c"
| "cc_apply c (CcRtt d) = Ok (update_rtt c d)"
| "cc_apply c (CcUpdate now) = res_bind (update_throttle c now) (\<lambda>(c, u). Ok c)"
| "cc_apply c (CcRange lo hi) = Ok (set_throttle_range c lo hi)"
| "cc_apply c (CcConfigure i a d) = Ok (configure_throttle c i a d)"
| "cc_apply c (CcEnable s a d i) = Ok (enable_advanced_throttling c s a d i)"
| "cc_apply c CcReset = Ok (reset_stats c)"

fun cc_run :: "congestion_control \<Rightarrow> cc_op list \<Rightarrow> (error_kind, congestion_control) res" where
  "cc_run c [] = Ok c"
| "cc_run c (x # xs) = res_bind (cc_apply c x) (\<lambda>c. cc_run c xs)"

text \<open>A bound that is not a number or a scale of 0 would not be a throttle range.\<close>

fun cc_op_ok :: "cc_op \<Rightarrow> bool" where
  "cc_op_ok (CcRange lo hi) = (lo \<noteq> NaN \<and> hi \<noteq> NaN)"
| "cc_op_ok (CcEnable s a d i) = (0 < s)"
| "cc_op_ok _ = True"

lemma cc_apply_inv: "cc_inv c \<Longrightarrow> cc_op_ok x \<Longrightarrow> cc_apply c x = Ok c' \<Longrightarrow> cc_inv c'"
  by (cases x)
     (auto simp: res_bind_Ok_iff intro: inv_intros cc_inv_record_loss cc_inv_record_sent cc_inv_update cc_inv_range)

lemma cc_run_inv: "cc_inv c \<Longrightarrow> \<forall>x \<in> set xs. cc_op_ok x \<Longrightarrow> cc_run c xs = Ok c' \<Longrightarrow> cc_inv c'"
  by (induction xs arbitrary: c) (auto simp: res_bind_Ok_iff intro: cc_apply_inv)

section \<open>Properties\<close>

text \<open>
  C21: Under every sequence of operations that does not abort, with any float rounding on the way, the
  throttle stays a number between 0 and 1, so that it is a drop probability; the scaled throttle never
  exceeds its scale. (A scale of 0 and range bounds that are NaN are excluded.)
\<close>

theorem throttle_is_probability:
  assumes "\<forall>x \<in> set xs. cc_op_ok x" and "cc_run (cc_new alpha beta now) xs = Ok c"
  shows "\<exists>t. cc_throttle c = Fin t \<and> 0 \<le> t \<and> t \<le> 1 \<and> packet_throttle c \<le> cc_throttle_scale c"
  using cc_run_inv [OF cc_inv_new assms] by (auto simp: cc_inv_def elim: f32_unit_cases)

theorem throttle_is_probability_witness:
  "\<exists>t. cc_throttle (configure_throttle (enable_advanced_throttling (cc_default 0) 32 2 2 5000) 1000 5 3) = Fin t
       \<and> 0 \<le> t \<and> t \<le> 1"
  using throttle_is_probability [of "[CcEnable 32 2 2 5000, CcConfigure 1000 5 3]"
      "f32_of_rat (1 / 10)" "f32_of_rat (1 / 4)" 0]
  by (auto simp: cc_default_def)

text \<open>
  The advanced throttle update aborts the process exactly when loss is low, the throttle is below
  its scale and adding the acceleration overflows 32 bits. The acceleration is whatever the last
  \<^verbatim>\<open>ThrottleConfigure\<close> command of the remote peer said, so a remote peer can choose it.
\<close>

theorem advanced_throttle_overflow:
  "update_advanced_throttle c loss = Panic \<longleftrightarrow>
     \<not> f32_lt (f32_of_rat (1 / 100)) loss \<and> f32_lt loss (f32_of_rat (5 / 1000)) \<and>
     packet_throttle c < cc_throttle_scale c \<and>
     2 ^ 32 \<le> unat (packet_throttle c) + unat (cc_throttle_acceleration c)"
  by (auto simp: update_advanced_throttle_def step_packet_throttle_def res_bind_Panic_iff add_checked_def not_less split: if_splits)

end
