(* ===== verification/Acknowledgment.thy ===== *)
theory Acknowledgment
  imports Hash_Map Packets Sequence_Buffer Congestion
begin

text \<open>
  The acknowledgment handler (\<^verbatim>\<open>bitfold-protocol/src/acknowledgment.rs\<close>): it numbers the outgoing packets,
  remembers them until they are acknowledged or given up, and summarises the received numbers as the
  latest one and a bit field of the 32 before it.

  The results: what each bit of the field says, exactly which packets an acknowledgment removes, which ones
  are given up, and that between two handlers only packets that arrived are ever acknowledged.
\<close>

definition REDUNDANT_PACKET_ACKS_SIZE :: u16 where
  "REDUNDANT_PACKET_ACKS_SIZE = 32"

record sent_packet =
  sp_packet_type :: packet_type
  sp_payload :: bytes
  sp_ordering_guarantee :: ordering_guarantee
  sp_item_identifier :: "u16 option"
  sp_sent_time :: instant

record acknowledgment_handler =
  ah_sequence_number :: u16
  remote_ack_sequence_num :: u16
  sent_packets :: "(u16, sent_packet) hmap"
  received_packets :: "unit sequence_buffer"
  ah_congestion :: congestion_control

definition ah_with_congestion :: "congestion_control \<Rightarrow> acknowledgment_handler" where
  "ah_with_congestion c = \<lparr>ah_sequence_number = 0, remote_ack_sequence_num = - 1, sent_packets = hm_empty,
     received_packets = sq_with_capacity () (REDUNDANT_PACKET_ACKS_SIZE + 1), ah_congestion = c\<rparr>"

definition ah_new :: "instant \<Rightarrow> acknowledgment_handler" where
  "ah_new now = ah_with_congestion (cc_default now)"

definition packets_in_flight :: "acknowledgment_handler \<Rightarrow> u16" where
  "packets_in_flight h = of_nat (hm_len (sent_packets h))"

definition local_sequence_num :: "acknowledgment_handler \<Rightarrow> u16" where
  "local_sequence_num h = ah_sequence_number h"

definition remote_sequence_num :: "acknowledgment_handler \<Rightarrow> u16" where
  "remote_sequence_num h = sq_sequence_num (received_packets h) - 1"

definition ah_update_throttle :: "acknowledgment_handler \<Rightarrow> instant \<Rightarrow> (error_kind, acknowledgment_handler \<times> bool) res" where
  "ah_update_throttle h now =
     res_bind (update_throttle (ah_congestion h) now) (\<lambda>(c, u). Ok (h\<lparr>ah_congestion := c\<rparr>, u))"

definition ack_bitfield :: "acknowledgment_handler \<Rightarrow> u32" where
  "ack_bitfield h =
     (let most_recent_remote_seq_num = remote_sequence_num h
      in fst (foldl (\<lambda>(field, mask) i.
                 let sequence = most_recent_remote_seq_num - of_nat i
                 in (if sq_exists (received_packets h) sequence then field OR mask else field,
                     push_bit 1 mask))
               (0, 1) [1..<unat REDUNDANT_PACKET_ACKS_SIZE + 1]))"

text \<open>The removal of one acknowledged packet, which the source repeats for the latest number and for every bit.\<close>

definition ack_sent :: "instant \<Rightarrow> u16 \<Rightarrow> acknowledgment_handler \<Rightarrow> acknowledgment_handler" where
  "ack_sent now s h =
     (case hm_get (sent_packets h) s of
        Some p \<Rightarrow> h\<lparr>sent_packets := hm_delete s (sent_packets h),
                    ah_congestion := update_rtt (ah_congestion h) (duration_since now (sp_sent_time p))\<rparr>
      | None \<Rightarrow> h)"

definition process_incoming ::
  "acknowledgment_handler \<Rightarrow> u16 \<Rightarrow> u16 \<Rightarrow> u32 \<Rightarrow> instant \<Rightarrow> acknowledgment_handler" where
  "process_incoming h remote_seq_num remote_ack_seq remote_ack_field now =
     (let h = (if sequence_greater_than remote_ack_seq (remote_ack_sequence_num h)
               then h\<lparr>remote_ack_sequence_num := remote_ack_seq\<rparr> else h);
          h = h\<lparr>received_packets := fst (sq_insert () (received_packets h) remote_seq_num ())\<rparr>;
          h = ack_sent now remote_ack_seq h
      in fst (foldl (\<lambda>(h, field) i.
                 let ack_sequence = remote_ack_seq - of_nat i
                 in (if field AND 1 = 1 then ack_sent now ack_sequence h else h, drop_bit 1 field))
               (h, remote_ack_field) [1..<unat REDUNDANT_PACKET_ACKS_SIZE + 1]))"

definition process_outgoing ::
  "acknowledgment_handler \<Rightarrow> packet_type \<Rightarrow> bytes \<Rightarrow> ordering_guarantee \<Rightarrow> u16 option \<Rightarrow> instant \<Rightarrow>
     (error_kind, acknowledgment_handler) res" where
  "process_outgoing h ptype payload order item now =
     (let h = h\<lparr>sent_packets := hm_insert (ah_sequence_number h)
                 \<lparr>sp_packet_type = ptype, sp_payload = payload, sp_ordering_guarantee = order,
                  sp_item_identifier = item, sp_sent_time = now\<rparr> (sent_packets h)\<rparr>
      in res_bind (record_sent (ah_congestion h)) (\<lambda>c.
         Ok (h\<lparr>ah_congestion := c, ah_sequence_number := ah_sequence_number h + 1\<rparr>)))"

definition is_dropped :: "u16 \<Rightarrow> u16 \<Rightarrow> bool" where
  "is_dropped remote_ack_sequence s =
     (if sequence_less_than s remote_ack_sequence
      then let distance = remote_ack_sequence - s in distance > REDUNDANT_PACKET_ACKS_SIZE
      else False)"

fun record_losses :: "nat \<Rightarrow> congestion_control \<Rightarrow> (error_kind, congestion_control) res" where
  "record_losses 0 c = Ok c"
| "record_losses (Suc n) c = res_bind (record_loss c) (record_losses n)"

definition take_dropped ::
  "(u16, sent_packet) hmap \<times> sent_packet list \<Rightarrow> u16 \<Rightarrow> (u16, sent_packet) hmap \<times> sent_packet list" where
  "take_dropped = (\<lambda>(sent, out) s.
     case hm_get sent s of Some p \<Rightarrow> (hm_delete s sent, out @ [p]) | None \<Rightarrow> (sent, out))"

definition dropped_packets ::
  "acknowledgment_handler \<Rightarrow> (error_kind, acknowledgment_handler \<times> sent_packet list) res" where
  "dropped_packets h =
     (let sent_sequences = sort (hm_keys (sent_packets h));
          remote_ack_sequence = remote_ack_sequence_num h;
          (sent, dropped) =
            foldl take_dropped (sent_packets h, []) (filter (is_dropped remote_ack_sequence) sent_sequences)
      in res_bind (record_losses (length dropped) (ah_congestion h)) (\<lambda>c.
         Ok (h\<lparr>sent_packets := sent, ah_congestion := c\<rparr>, dropped)))"

section \<open>The bit field\<close>

lemma ack_loop:
  "n \<le> 32 \<Longrightarrow>
   foldl (\<lambda>(field, mask) i. (if P i then field OR mask else field, push_bit 1 mask)) (0, 1 :: u32) [1..<n + 1]
     = (foldl (\<lambda>f i. if P i then f OR push_bit (i - 1) 1 else f) 0 [1..<n + 1], push_bit n 1)"
  by (induction n) (auto simp: push_bit_push_bit)

lemma bit_ack_field:
  "n \<le> 32 \<Longrightarrow> bit (foldl (\<lambda>f i. if P i then f OR push_bit (i - 1) 1 else f) (0 :: u32) [1..<n + 1]) k
     \<longleftrightarrow> k < n \<and> P (k + 1)"
proof (induction n)
  case (Suc n)
  then show ?case
    by (cases "k = n") (auto simp: bit_simps less_Suc_eq)
qed simp

lemma bit_ack_bitfield:
  "bit (ack_bitfield h) k \<longleftrightarrow>
     k < 32 \<and> sq_exists (received_packets h) (remote_sequence_num h - of_nat (k + 1))"
proof -
  have "ack_bitfield h = foldl (\<lambda>f i. if sq_exists (received_packets h) (remote_sequence_num h - of_nat i)
          then f OR push_bit (i - 1) 1 else f) 0 [1..<32 + 1]"
    unfolding ack_bitfield_def Let_def
    using ack_loop [of 32 "\<lambda>i. sq_exists (received_packets h) (remote_sequence_num h - of_nat i)"]
    by (simp add: REDUNDANT_PACKET_ACKS_SIZE_def)
  then show ?thesis by (simp only: bit_ack_field)
qed

section \<open>Acknowledged packets\<close>

lemma ack_sent_simps [simp]:
  "hm_get (sent_packets (ack_sent now s h)) t = (if t = s then None else hm_get (sent_packets h) t)"
  "received_packets (ack_sent now s h) = received_packets h"
  "remote_ack_sequence_num (ack_sent now s h) = remote_ack_sequence_num h"
  "ah_sequence_number (ack_sent now s h) = ah_sequence_number h"
  "hm_wf (sent_packets h) \<Longrightarrow> hm_wf (sent_packets (ack_sent now s h))"
  by (auto simp: ack_sent_def split: option.split)

definition ack_loop_step ::
  "instant \<Rightarrow> u16 \<Rightarrow> acknowledgment_handler \<times> u32 \<Rightarrow> nat \<Rightarrow> acknowledgment_handler \<times> u32" where
  "ack_loop_step now a = (\<lambda>(h, field) i.
     let ack_sequence = a - of_nat i
     in (if field AND 1 = 1 then ack_sent now ack_sequence h else h, drop_bit 1 field))"

lemma and_1_bit: "(w :: u32) AND 1 = 1 \<longleftrightarrow> bit w 0"
  by (simp add: and_one_eq bit_0 odd_iff_mod_2_eq_one)

lemma ack_loop_result:
  fixes h :: acknowledgment_handler and f :: u32 and a s :: u16 and now :: instant
  defines "r \<equiv> \<lambda>n. foldl (ack_loop_step now a) (h, f) [1..<n + 1]"
  shows "snd (r n) = drop_bit n f \<and>
    hm_get (sent_packets (fst (r n))) s =
      (if \<exists>k < n. s = a - of_nat (k + 1) \<and> bit f k then None else hm_get (sent_packets h) s) \<and>
    received_packets (fst (r n)) = received_packets h \<and>
    remote_ack_sequence_num (fst (r n)) = remote_ack_sequence_num h \<and>
    ah_sequence_number (fst (r n)) = ah_sequence_number h \<and>
    (hm_wf (sent_packets h) \<longrightarrow> hm_wf (sent_packets (fst (r n))))"
proof (induction n)
  case (Suc n)
  have step: "r (Suc n) = ack_loop_step now a (r n) (n + 1)" by (simp add: r_def)
  obtain h' f' where r: "r n = (h', f')" by fastforce
  have f': "f' = drop_bit n f" using Suc by (simp add: r)
  have bit: "bit (drop_bit n f) 0 \<longleftrightarrow> bit f n" by (simp add: bit_drop_bit_eq)
  show ?case
    using Suc by (auto simp: step r ack_loop_step_def and_1_bit bit less_Suc_eq f' drop_bit_drop_bit)
qed (simp add: r_def)

definition acked_by :: "u16 \<Rightarrow> u32 \<Rightarrow> u16 \<Rightarrow> bool" where
  "acked_by a f s \<longleftrightarrow> s = a \<or> (\<exists>k < 32. s = a - of_nat (k + 1) \<and> bit f k)"

lemma process_incoming_result:
  fixes h :: acknowledgment_handler and f :: u32 and r a s :: u16 and now :: instant
  defines "h' \<equiv> process_incoming h r a f now"
  shows "hm_get (sent_packets h') s = (if acked_by a f s then None else hm_get (sent_packets h) s)"
    and "received_packets h' = fst (sq_insert () (received_packets h) r ())"
    and "ah_sequence_number h' = ah_sequence_number h"
    and "hm_wf (sent_packets h) \<Longrightarrow> hm_wf (sent_packets h')"
    and "remote_ack_sequence_num h' =
          (if sequence_greater_than a (remote_ack_sequence_num h) then a else remote_ack_sequence_num h)"
proof -
  define g where "g = ack_sent now a
    ((if sequence_greater_than a (remote_ack_sequence_num h) then h\<lparr>remote_ack_sequence_num := a\<rparr> else h)
       \<lparr>received_packets := fst (sq_insert () (received_packets h) r ())\<rparr>)"
  have h': "h' = fst (foldl (ack_loop_step now a) (g, f) [1..<32 + 1])"
    by (simp add: h'_def process_incoming_def Let_def g_def ack_loop_step_def [abs_def]
        REDUNDANT_PACKET_ACKS_SIZE_def)
  note res = ack_loop_result [where n = 32, of now a g f, folded h']
  show "hm_get (sent_packets h') s = (if acked_by a f s then None else hm_get (sent_packets h) s)"
    using res by (auto simp: acked_by_def g_def)
  show "received_packets h' = fst (sq_insert () (received_packets h) r ())"
    using res by (simp add: g_def)
  show "ah_sequence_number h' = ah_sequence_number h"
    using res by (simp add: g_def)
  show "hm_wf (sent_packets h) \<Longrightarrow> hm_wf (sent_packets h')"
    using res by (simp add: g_def)
  show "remote_ack_sequence_num h' =
          (if sequence_greater_than a (remote_ack_sequence_num h) then a else remote_ack_sequence_num h)"
    using res by (simp add: g_def)
qed

section \<open>Packets given up\<close>

lemma drop_loop:
  assumes "distinct ss" and "set ss \<subseteq> dom (hm_get m)"
  shows "snd (foldl take_dropped (m, out) ss) = out @ map (\<lambda>s. the (hm_get m s)) ss \<and>
    (\<forall>t. hm_get (fst (foldl take_dropped (m, out) ss)) t = (if t \<in> set ss then None else hm_get m t))"
  using assms
proof (induction ss arbitrary: m out)
  case (Cons s ss)
  then obtain p where p: "hm_get m s = Some p" by auto
  have sub: "set ss \<subseteq> dom (hm_get (hm_delete s m))" using Cons.prems by auto
  have eq: "map (\<lambda>t. the (hm_get (hm_delete s m) t)) ss = map (\<lambda>t. the (hm_get m t)) ss"
    using Cons.prems(1) by auto
  have "take_dropped (m, out) s = (hm_delete s m, out @ [p])"
    by (simp add: take_dropped_def p)
  then show ?case
    using Cons.IH [OF _ sub, of "out @ [p]", unfolded eq] Cons.prems by (simp add: p)
qed simp

lemma record_losses_Ok:
  "unat (packets_lost c) + n < 2 ^ 32 \<Longrightarrow>
     record_losses n c = Ok (c\<lparr>packets_lost := packets_lost c + of_nat n\<rparr>)"
proof (induction n arbitrary: c)
  case (Suc n)
  have one: "unat (packets_lost c + 1) = unat (packets_lost c) + 1"
    using Suc.prems by (simp add: unat_word_ariths)
  show ?case
    using Suc.IH [of "c\<lparr>packets_lost := packets_lost c + 1\<rparr>"] Suc.prems
    by (simp add: record_loss_def add_checked_def one add.assoc)
qed simp

section \<open>Two handlers\<close>

text \<open>A handler that has received the given messages: number, acknowledged number, bit field and time.\<close>

definition receive_all ::
  "acknowledgment_handler \<Rightarrow> (u16 \<times> u16 \<times> u32 \<times> instant) list \<Rightarrow> acknowledgment_handler" where
  "receive_all h msgs = foldl (\<lambda>h (r, a, f, now). process_incoming h r a f now) h msgs"

lemma received_receive_all:
  "received_packets (receive_all h msgs) =
     foldl (\<lambda>b s. fst (sq_insert () b s ())) (received_packets h) (map fst msgs)"
  unfolding receive_all_def
  by (induction msgs arbitrary: h) (auto simp: process_incoming_result(2))

lemma recv_head_received: "n - 1 \<in> R \<Longrightarrow> recv_step cap (n, R) s = (n', R') \<Longrightarrow> n' - 1 \<in> R'"
  by (auto simp: recv_step_def split: if_splits)

lemma recv_steps_head_received:
  "fst st - 1 \<in> snd st \<Longrightarrow> fst (foldl (recv_step cap) st ss) - 1 \<in> snd (foldl (recv_step cap) st ss)"
proof (induction ss arbitrary: st)
  case (Cons s ss)
  have "fst (recv_step cap st s) - 1 \<in> snd (recv_step cap st s)"
    using Cons.prems recv_head_received [of "fst st" "snd st" cap s] by simp
  from Cons.IH [OF this] show ?case by simp
qed simp

lemma recv_first_step:
  assumes "unat s < 32000"
  shows "recv_step 33 (0, {}) s = (s + 1, {s})"
proof -
  have "(33 :: u16) = of_nat 33" by simp
  then show ?thesis
    using no_wrap_compare [of 0 33 s] assms by (simp add: recv_step_def)
qed

lemma acked_by_received:
  assumes inv: "sq_inv 33 (received_packets r)" "sq_received (received_packets r) \<subseteq> R"
    and head: "sq_sequence_num (received_packets r) - 1 \<in> R"
    and acked: "acked_by (remote_sequence_num r) (ack_bitfield r) s"
  shows "s \<in> R"
  using acked unfolding acked_by_def bit_ack_bitfield
  using inv(2) head by (auto simp: remote_sequence_num_def sq_received_def)

section \<open>Properties\<close>

text \<open>
  Processing an acknowledgment removes from the packets in flight exactly the one with the
  acknowledged number and those up to 32 before it whose bit is set, keeps every other, and records
  the incoming number in the receive buffer.
\<close>

theorem process_incoming_acks:
  "hm_get (sent_packets (process_incoming h r a f now)) s =
     (if s = a \<or> (\<exists>k < 32. s = a - of_nat (k + 1) \<and> bit f k) then None else hm_get (sent_packets h) s) \<and>
   received_packets (process_incoming h r a f now) = fst (sq_insert () (received_packets h) r ())"
  unfolding acked_by_def [symmetric] by (simp add: process_incoming_result)

text \<open>
  Unless the loss counter overflows, \<^verbatim>\<open>dropped_packets\<close> gives up exactly the packets in flight that are
  behind the acknowledged number by more than 32 (and at most half the number space): it returns
  them in ascending order, removes them and counts each as a loss.
\<close>

theorem dropped_packets_result:
  assumes "hm_wf (sent_packets h)"
    and "unat (packets_lost (ah_congestion h)) + hm_len (sent_packets h) < 2 ^ 32"
  shows "\<exists>h' ss. dropped_packets h = Ok (h', map (\<lambda>s. the (hm_get (sent_packets h) s)) ss) \<and>
    sorted ss \<and> distinct ss \<and>
    set ss = {s \<in> dom (hm_get (sent_packets h)).
                sequence_less_than s (remote_ack_sequence_num h) \<and> 32 < unat (remote_ack_sequence_num h - s)} \<and>
    (\<forall>t. hm_get (sent_packets h') t = (if t \<in> set ss then None else hm_get (sent_packets h) t)) \<and>
    packets_lost (ah_congestion h') = packets_lost (ah_congestion h) + of_nat (length ss)"
proof -
  let ?m = "sent_packets h"
  define ss where "ss = filter (is_dropped (remote_ack_sequence_num h)) (sort (hm_keys ?m))"
  define h' where "h' = h\<lparr>sent_packets := fst (foldl take_dropped (?m, []) ss), ah_congestion :=
    (ah_congestion h)\<lparr>packets_lost := packets_lost (ah_congestion h) + of_nat (length ss)\<rparr>\<rparr>"
  have ss: "sorted ss" "distinct ss"
    using hm.distinct_keys [OF assms(1)] by (simp_all add: ss_def sorted_filter [of id, simplified])
  have set_ss: "set ss = {s \<in> dom (hm_get ?m).
      sequence_less_than s (remote_ack_sequence_num h) \<and> 32 < unat (remote_ack_sequence_num h - s)}"
    by (auto simp: ss_def is_dropped_def REDUNDANT_PACKET_ACKS_SIZE_def word_less_nat_alt hm.set_keys)
  then have "set ss \<subseteq> dom (hm_get ?m)" by blast
  note loop = drop_loop [OF ss(2) this, of "[]"]
  have "length ss \<le> hm_len ?m"
    using length_filter_le [of _ "sort (hm_keys ?m)"] by (simp add: ss_def hm_keys_def hm_len_def)
  then have lost: "unat (packets_lost (ah_congestion h)) + length ss < 2 ^ 32" using assms(2) by linarith
  have "dropped_packets h = Ok (h', map (\<lambda>s. the (hm_get ?m s)) ss)"
    using loop lost
    by (simp add: dropped_packets_def Let_def split_beta record_losses_Ok h'_def flip: ss_def)
  moreover have "hm_get (sent_packets h') t = (if t \<in> set ss then None else hm_get ?m t)" for t
    using loop by (simp add: h'_def)
  moreover have "packets_lost (ah_congestion h') = packets_lost (ah_congestion h) + of_nat (length ss)"
    by (simp add: h'_def)
  ultimately show ?thesis using ss set_ss by blast
qed

theorem dropped_packets_result_witness:
  "\<exists>h' ss. dropped_packets (ah_with_congestion (cc_default 0)) = Ok (h', map (\<lambda>s. the (None :: sent_packet option)) ss)
     \<and> set ss = {}"
proof -
  have "hm_wf (sent_packets (ah_with_congestion (cc_default 0)))"
    "unat (packets_lost (ah_congestion (ah_with_congestion (cc_default 0))))
      + hm_len (sent_packets (ah_with_congestion (cc_default 0))) < 2 ^ 32"
    by (simp_all add: ah_with_congestion_def cc_default_def cc_new_def)
  from dropped_packets_result [OF this] show ?thesis
    by (auto simp: ah_with_congestion_def)
qed

text \<open>
  C17: No false acknowledgment between two handlers. Whatever messages one handler has received (the first
  with a number below 32000), the pair of latest number and bit field it reports makes the other
  handler remove only packets whose numbers are among those received since the head last passed them.
\<close>

theorem ack_exchange_sound:
  fixes h :: acknowledgment_handler and c :: congestion_control
  assumes "msgs \<noteq> []" and "unat (fst (hd msgs)) < 32000"
  defines "r \<equiv> receive_all (ah_with_congestion c) msgs"
  assumes "hm_get (sent_packets h) s = Some p"
    and "hm_get (sent_packets (process_incoming h x (remote_sequence_num r) (ack_bitfield r) now)) s = None"
  shows "s \<in> snd (foldl (recv_step 33) (0, {}) (map fst msgs))"
proof -
  let ?b0 = "sq_with_capacity () 33" and ?st = "foldl (recv_step 33) (0, {}) (map fst msgs)"
  have b: "received_packets r = foldl (\<lambda>b s. fst (sq_insert () b s ())) ?b0 (map fst msgs)"
    by (simp add: r_def received_receive_all ah_with_congestion_def REDUNDANT_PACKET_ACKS_SIZE_def)
  have "sq_inv 33 ?b0" "sq_received ?b0 \<subseteq> {}" "sq_sequence_num ?b0 = 0"
    using sq_inv_with_capacity [of 33 "()"] by (simp_all add: sq_received_def sq_exists_with_capacity)
      (simp add: sq_with_capacity_def)
  then have ref: "sq_inv 33 (received_packets r)" "sq_sequence_num (received_packets r) = fst ?st"
      "sq_received (received_packets r) \<subseteq> snd ?st"
    using sq_inserts_refine [of 33 ?b0 "{}" "()" "()" "map fst msgs"] by (simp_all add: b Let_def)
  have "fst ?st - 1 \<in> snd ?st"
    using assms(1,2) recv_steps_head_received [of "recv_step 33 (0, {}) (fst (hd msgs))"]
    by (cases msgs) (simp_all add: recv_first_step)
  moreover have "acked_by (remote_sequence_num r) (ack_bitfield r) s"
    using assms(4,5) by (simp add: process_incoming_result split: if_splits)
  ultimately show ?thesis
    using acked_by_received [OF ref(1,3)] ref(2) by simp
qed

theorem ack_exchange_sound_witness:
  "hm_get (sent_packets (process_incoming ((ah_new 0)\<lparr>sent_packets := [(7, \<lparr>sp_packet_type = PtPacket,
        sp_payload = [1], sp_ordering_guarantee = NoOrdering, sp_item_identifier = None, sp_sent_time = 0\<rparr>)]\<rparr>) 0
       (remote_sequence_num (receive_all (ah_new 0) [(7, 0, 0, 1)]))
       (ack_bitfield (receive_all (ah_new 0) [(7, 0, 0, 1)])) 2)) 7 = None
   \<and> (7 :: u16) \<in> snd (foldl (recv_step 33) (0, {}) [7])"
proof -
  let ?r = "receive_all (ah_new 0) [(7, 0, 0, 1)]" and ?b0 = "sq_with_capacity () 33"
  let ?p = "\<lparr>sp_packet_type = PtPacket, sp_payload = [1], sp_ordering_guarantee = NoOrdering,
    sp_item_identifier = None, sp_sent_time = 0\<rparr>"
  let ?h = "(ah_new 0)\<lparr>sent_packets := [(7, ?p)]\<rparr>"
  have "sq_inv 33 ?b0" "sq_received ?b0 \<subseteq> {}" "sq_sequence_num ?b0 = 0"
    using sq_inv_with_capacity [of 33 "()"] by (simp_all add: sq_received_def sq_exists_with_capacity)
      (simp add: sq_with_capacity_def)
  then have "sq_sequence_num (received_packets ?r) = 8"
    using sq_inserts_refine [of 33 ?b0 "{}" "()" "()" "[7]"] recv_first_step [of 7]
    by (simp add: received_receive_all ah_new_def ah_with_congestion_def REDUNDANT_PACKET_ACKS_SIZE_def Let_def)
  then have none: "hm_get (sent_packets (process_incoming ?h 0 (remote_sequence_num ?r) (ack_bitfield ?r) 2)) 7 = None"
    by (simp add: process_incoming_result acked_by_def remote_sequence_num_def)
  have "hm_get (sent_packets ?h) 7 = Some ?p" by (simp add: hm_get_def)
  from ack_exchange_sound [of "[(7, 0, 0, 1)]" ?h 7 ?p 0 "cc_default 0" 2, OF _ _ this] none
  show ?thesis by (simp add: ah_new_def)
qed

end
