(* ===== verification/Bandwidth.thy ===== *)
theory Bandwidth
  imports Core_Types
begin

text \<open>
  Rate limiting: the bandwidth manager of the protocol crate (\<^verbatim>\<open>bitfold-protocol/src/bandwidth.rs\<close>) and the
  bandwidth throttle of a peer (\<^verbatim>\<open>bitfold-peer/src/bandwidth_throttle.rs\<close>). Both count the bytes of
  a window of time and compare them with a limit, where 0 means unlimited.

  The locale \<open>rate_limiter\<close> is the contract the throttle offers in each direction; it is interpreted
  once for outgoing and once for incoming traffic. What it yields for the sessions that use the throttle is in \<open>Session_Bandwidth\<close>.
\<close>

section \<open>Bandwidth manager\<close>

record bandwidth_manager =
  bm_outgoing_bandwidth :: u32
  bm_incoming_bandwidth :: u32
  bm_bytes_sent :: u32
  bm_bytes_recv :: u32
  bm_window_start :: instant
  bm_window_duration :: duration

definition bm_new :: "u32 \<Rightarrow> u32 \<Rightarrow> duration \<Rightarrow> instant \<Rightarrow> bandwidth_manager" where
  "bm_new outgoing_bw incoming_bw d now = \<lparr>bm_outgoing_bandwidth = outgoing_bw,
     bm_incoming_bandwidth = incoming_bw, bm_bytes_sent = 0, bm_bytes_recv = 0, bm_window_start = now,
     bm_window_duration = d\<rparr>"

definition bm_unlimited :: "instant \<Rightarrow> bandwidth_manager" where
  "bm_unlimited now = bm_new 0 0 (from_secs 1) now"

definition bm_set_outgoing :: "bandwidth_manager \<Rightarrow> u32 \<Rightarrow> bandwidth_manager" where
  "bm_set_outgoing m n = m\<lparr>bm_outgoing_bandwidth := n\<rparr>"

definition bm_set_incoming :: "bandwidth_manager \<Rightarrow> u32 \<Rightarrow> bandwidth_manager" where
  "bm_set_incoming m n = m\<lparr>bm_incoming_bandwidth := n\<rparr>"

definition bm_update_window :: "bandwidth_manager \<Rightarrow> instant \<Rightarrow> bandwidth_manager" where
  "bm_update_window m now =
     (if duration_since now (bm_window_start m) \<ge> bm_window_duration m
      then m\<lparr>bm_bytes_sent := 0, bm_bytes_recv := 0, bm_window_start := now\<rparr> else m)"

text \<open>The byte count is cut to 32 bits and the sum is checked for overflow.\<close>

definition bm_can_send :: "bandwidth_manager \<Rightarrow> usize \<Rightarrow> (error_kind, bool) res" where
  "bm_can_send m n =
     (if bm_outgoing_bandwidth m = 0 then Ok True
      else res_bind (add_checked (bm_bytes_sent m) (of_nat n)) (\<lambda>t. Ok (t \<le> bm_outgoing_bandwidth m)))"

definition bm_record_sent :: "bandwidth_manager \<Rightarrow> usize \<Rightarrow> (error_kind, bandwidth_manager) res" where
  "bm_record_sent m n =
     res_bind (add_checked (bm_bytes_sent m) (of_nat n)) (\<lambda>t. Ok (m\<lparr>bm_bytes_sent := t\<rparr>))"

definition bm_can_receive :: "bandwidth_manager \<Rightarrow> usize \<Rightarrow> (error_kind, bool) res" where
  "bm_can_receive m n =
     (if bm_incoming_bandwidth m = 0 then Ok True
      else res_bind (add_checked (bm_bytes_recv m) (of_nat n)) (\<lambda>t. Ok (t \<le> bm_incoming_bandwidth m)))"

definition bm_record_received :: "bandwidth_manager \<Rightarrow> usize \<Rightarrow> (error_kind, bandwidth_manager) res" where
  "bm_record_received m n =
     res_bind (add_checked (bm_bytes_recv m) (of_nat n)) (\<lambda>t. Ok (m\<lparr>bm_bytes_recv := t\<rparr>))"

definition bm_outgoing_utilization :: "bandwidth_manager \<Rightarrow> f32" where
  "bm_outgoing_utilization m =
     (if bm_outgoing_bandwidth m = 0 then Fin 0
      else f32_div (f32_of_nat (unat (bm_bytes_sent m))) (f32_of_nat (unat (bm_outgoing_bandwidth m))))"

definition bm_incoming_utilization :: "bandwidth_manager \<Rightarrow> f32" where
  "bm_incoming_utilization m =
     (if bm_incoming_bandwidth m = 0 then Fin 0
      else f32_div (f32_of_nat (unat (bm_bytes_recv m))) (f32_of_nat (unat (bm_incoming_bandwidth m))))"

section \<open>Bandwidth throttle of a peer\<close>

definition BANDWIDTH_WINDOW :: duration where
  "BANDWIDTH_WINDOW = from_secs 1"

record bandwidth_throttle =
  bytes_sent_this_window :: u32
  bytes_received_this_window :: u32
  bandwidth_window_start :: instant
  bt_outgoing_limit :: u32
  bt_incoming_limit :: u32

definition bt_new :: "u32 \<Rightarrow> u32 \<Rightarrow> instant \<Rightarrow> bandwidth_throttle" where
  "bt_new outgoing_limit incoming_limit start_time = \<lparr>bytes_sent_this_window = 0,
     bytes_received_this_window = 0, bandwidth_window_start = start_time,
     bt_outgoing_limit = outgoing_limit, bt_incoming_limit = incoming_limit\<rparr>"

definition update_bandwidth_window :: "bandwidth_throttle \<Rightarrow> instant \<Rightarrow> bandwidth_throttle \<times> bool" where
  "update_bandwidth_window b time =
     (if duration_since time (bandwidth_window_start b) \<ge> BANDWIDTH_WINDOW
      then (b\<lparr>bytes_sent_this_window := 0, bytes_received_this_window := 0, bandwidth_window_start := time\<rparr>, True)
      else (b, False))"

definition record_bytes_sent :: "bandwidth_throttle \<Rightarrow> u32 \<Rightarrow> bandwidth_throttle" where
  "record_bytes_sent b n = b\<lparr>bytes_sent_this_window := saturating_add (bytes_sent_this_window b) n\<rparr>"

definition record_bytes_received :: "bandwidth_throttle \<Rightarrow> u32 \<Rightarrow> bandwidth_throttle" where
  "record_bytes_received b n = b\<lparr>bytes_received_this_window := saturating_add (bytes_received_this_window b) n\<rparr>"

definition can_send_within_bandwidth :: "bandwidth_throttle \<Rightarrow> bool" where
  "can_send_within_bandwidth b =
     (if bt_outgoing_limit b = 0 then True else bytes_sent_this_window b < bt_outgoing_limit b)"

definition bandwidth_utilization :: "bandwidth_throttle \<Rightarrow> f32" where
  "bandwidth_utilization b =
     (if bt_outgoing_limit b = 0 then Fin 0
      else f32_div (f32_of_nat (unat (bytes_sent_this_window b))) (f32_of_nat (unat (bt_outgoing_limit b))))"

definition can_receive_within_bandwidth :: "bandwidth_throttle \<Rightarrow> bool" where
  "can_receive_within_bandwidth b =
     (if bt_incoming_limit b = 0 then True else bytes_received_this_window b < bt_incoming_limit b)"

definition incoming_bandwidth_utilization :: "bandwidth_throttle \<Rightarrow> f32" where
  "incoming_bandwidth_utilization b =
     (if bt_incoming_limit b = 0 then Fin 0
      else f32_div (f32_of_nat (unat (bytes_received_this_window b))) (f32_of_nat (unat (bt_incoming_limit b))))"

definition set_outgoing_bandwidth_limit :: "bandwidth_throttle \<Rightarrow> u32 \<Rightarrow> bandwidth_throttle" where
  "set_outgoing_bandwidth_limit b limit = b\<lparr>bt_outgoing_limit := limit\<rparr>"

definition set_incoming_bandwidth_limit :: "bandwidth_throttle \<Rightarrow> u32 \<Rightarrow> bandwidth_throttle" where
  "set_incoming_bandwidth_limit b limit = b\<lparr>bt_incoming_limit := limit\<rparr>"

section \<open>The contract of a rate limiter\<close>

text \<open>
  A client lets the limiter look at the clock, asks before every transfer, and records each transfer it makes. The laws tie the counter to the transfers and the start
  of a window to the clock: a window is left only when it is over.
\<close>

locale rate_limiter =
  fixes used :: "'s \<Rightarrow> nat"
    and limit :: "'s \<Rightarrow> nat"
    and started :: "'s \<Rightarrow> instant"
    and allowed :: "'s \<Rightarrow> bool"
    and record_transfer :: "'s \<Rightarrow> u32 \<Rightarrow> 's"
    and tick :: "'s \<Rightarrow> instant \<Rightarrow> 's"
  assumes allowed_iff: "allowed s \<longleftrightarrow> limit s = 0 \<or> used s < limit s"
    and limit_u32: "limit s < 2 ^ 32"
    and record_laws: "used (record_transfer s n) = min (used s + unat n) (2 ^ 32 - 1)" "limit (record_transfer s n) = limit s"
      "started (record_transfer s n) = started s"
    and tick_same: "t < started s + BANDWIDTH_WINDOW \<Longrightarrow> tick s t = s"
    and tick_over: "started s + BANDWIDTH_WINDOW \<le> t \<Longrightarrow> used (tick s t) = 0 \<and> started (tick s t) = t"
    and limit_tick: "limit (tick s t) = limit s"
begin

text \<open>
  \<open>accounted D t0 s n\<close>: if no transfer has more than \<open>D\<close> bytes, then the \<open>n\<close> bytes transferred since \<open>t0\<close> are at most what the windows that are over allow, and the \<open>w\<close> bytes of the
  present one, which are counted up to the largest number.
\<close>

definition accounted :: "nat \<Rightarrow> instant \<Rightarrow> 's \<Rightarrow> nat \<Rightarrow> bool" where
  "accounted D t0 s n \<longleftrightarrow> (\<exists>w. used s = min w (2 ^ 32 - 1) \<and> w < limit s + D \<and> t0 \<le> started s \<and>
     n \<le> (started s - t0) div BANDWIDTH_WINDOW * (limit s + D - 1) + w)"

lemma accounted_start: "used s = 0 \<Longrightarrow> 0 < limit s \<Longrightarrow> accounted D (started s) s 0"
  unfolding accounted_def by (intro exI [of _ 0]) simp

lemma accounted_cong:
  "used s' = used s \<Longrightarrow> limit s' = limit s \<Longrightarrow> started s' = started s \<Longrightarrow> accounted D t0 s' n = accounted D t0 s n"
  by (simp add: accounted_def)

lemma accounted_less: "accounted D t0 s n \<Longrightarrow> k \<le> n \<Longrightarrow> accounted D t0 s k"
  unfolding accounted_def by (meson le_trans)

lemma accounted_transfer:
  assumes "accounted D t0 s n" "allowed s" "limit s \<noteq> 0" "unat k \<le> D"
  shows "accounted D t0 (record_transfer s k) (n + unat k)"
proof -
  obtain w where w: "used s = min w (2 ^ 32 - 1)" "t0 \<le> started s" "n \<le> (started s - t0) div BANDWIDTH_WINDOW * (limit s + D - 1) + w"
    using assms(1) by (auto simp: accounted_def)
  moreover have "used s < limit s" using assms(2,3) by (simp add: allowed_iff)
  moreover from this have "w = used s" using w(1) limit_u32 [of s] by (auto simp: min_def split: if_splits)
  ultimately show ?thesis
    using assms(4) unfolding accounted_def record_laws by (intro exI [of _ "w + unat k"]) auto
qed

lemma accounted_tick:
  assumes "accounted D t0 s n" "limit s \<noteq> 0"
  shows "accounted D t0 (tick s t) n"
proof (cases "started s + BANDWIDTH_WINDOW \<le> t")
  case True
  let ?B = "limit s + D - 1" and ?k = "(started s - t0) div BANDWIDTH_WINDOW"
  obtain w where w: "w < limit s + D" "t0 \<le> started s" "n \<le> ?k * ?B + w" using assms(1) by (auto simp: accounted_def)
  have pos: "0 < BANDWIDTH_WINDOW" by (simp add: BANDWIDTH_WINDOW_def from_secs_def)
  have "?k + 1 = (started s - t0 + BANDWIDTH_WINDOW) div BANDWIDTH_WINDOW" using pos by simp
  also have "\<dots> \<le> (t - t0) div BANDWIDTH_WINDOW" using True w(2) by (intro div_le_mono) simp
  finally have "(?k + 1) * ?B \<le> (t - t0) div BANDWIDTH_WINDOW * ?B" by (rule mult_le_mono1)
  moreover have "n \<le> (?k + 1) * ?B" using w(1,3) by simp
  ultimately show ?thesis
    using tick_over [OF True] True w(2) assms(2) unfolding accounted_def limit_tick by (intro exI [of _ 0]) auto
next
  case False
  then show ?thesis using assms(1) tick_same [of t s] by simp
qed

lemma accounted_bound:
  assumes "accounted D t0 s n" "started s \<le> T" "limit s \<noteq> 0"
  shows "n \<le> ((T - t0) div BANDWIDTH_WINDOW + 1) * (limit s + D - 1)"
proof -
  let ?B = "limit s + D - 1"
  obtain w where w: "w < limit s + D" "n \<le> (started s - t0) div BANDWIDTH_WINDOW * ?B + w" using assms(1) by (auto simp: accounted_def)
  have "(started s - t0) div BANDWIDTH_WINDOW * ?B \<le> (T - t0) div BANDWIDTH_WINDOW * ?B"
    using assms(2) by (intro mult_le_mono1 div_le_mono) simp
  moreover have "w \<le> ?B" using w(1) by simp
  ultimately show ?thesis unfolding add_mult_distrib using w(2) by linarith
qed

lemma tick_started: "started (tick s t) \<le> max (started s) t"
  by (cases "started s + BANDWIDTH_WINDOW \<le> t") (simp_all add: tick_over tick_same)

end

lemma window_over: "BANDWIDTH_WINDOW \<le> duration_since t s \<longleftrightarrow> s + BANDWIDTH_WINDOW \<le> t"
  by (auto simp: duration_since_def BANDWIDTH_WINDOW_def from_secs_def)

interpretation bt_out: rate_limiter "\<lambda>b. unat (bytes_sent_this_window b)" "\<lambda>b. unat (bt_outgoing_limit b)" bandwidth_window_start
  can_send_within_bandwidth record_bytes_sent "\<lambda>b t. fst (update_bandwidth_window b t)"
  using unsigned_less [where 'b = 32 and 'a = nat]
  by unfold_locales
     (auto simp: can_send_within_bandwidth_def record_bytes_sent_def update_bandwidth_window_def window_over
       unat_saturating_add word_less_nat_alt unat_eq_0)

interpretation bt_in: rate_limiter "\<lambda>b. unat (bytes_received_this_window b)" "\<lambda>b. unat (bt_incoming_limit b)" bandwidth_window_start
  can_receive_within_bandwidth record_bytes_received "\<lambda>b t. fst (update_bandwidth_window b t)"
  using unsigned_less [where 'b = 32 and 'a = nat]
  by unfold_locales
     (auto simp: can_receive_within_bandwidth_def record_bytes_received_def update_bandwidth_window_def window_over
       unat_saturating_add word_less_nat_alt unat_eq_0)

section \<open>Properties\<close>

text \<open>
  A send the bandwidth manager allows leaves the bytes of the window within the limit, and recording it
  cannot overflow; a send it refuses would exceed the limit. (A byte count of 32 bits is not cut.)
\<close>

theorem bandwidth_manager_exact:
  assumes "bm_outgoing_bandwidth m \<noteq> 0" "unat (bm_bytes_sent m) + n < 2 ^ 32"
  shows "bm_can_send m n = Ok (unat (bm_bytes_sent m) + n \<le> unat (bm_outgoing_bandwidth m)) \<and>
    (\<exists>m'. bm_record_sent m n = Ok m' \<and> unat (bm_bytes_sent m') = unat (bm_bytes_sent m) + n)"
proof -
  have "n < 4294967296" using assms(2) by simp
  then have n: "unat (of_nat n :: u32) = n" by (rule unat_of_nat_u32)
  then have "add_checked (bm_bytes_sent m) (of_nat n) = Ok (bm_bytes_sent m + of_nat n)"
    using assms(2) by (simp add: add_checked_def)
  moreover from this have "unat (bm_bytes_sent m + of_nat n) = unat (bm_bytes_sent m) + n"
    using n assms(2) by (simp add: unat_word_ariths)
  ultimately show ?thesis
    using assms(1,2) n
    by (simp add: bm_can_send_def bm_record_sent_def word_le_nat_alt add_checked_def)
qed

theorem bandwidth_manager_exact_witness:
  "bm_can_send (bm_new 1000 0 (from_secs 1) 0) 1001 = (Ok False :: (error_kind, bool) res)"
proof -
  let ?m = "bm_new 1000 0 (from_secs 1) 0"
  have "bm_can_send ?m 1001 =
      (Ok (unat (bm_bytes_sent ?m) + 1001 \<le> unat (bm_outgoing_bandwidth ?m)) :: (error_kind, bool) res)"
    by (rule bandwidth_manager_exact [THEN conjunct1]) (simp_all add: bm_new_def)
  then show ?thesis by (simp add: bm_new_def)
qed

end
