(* ===== verification/Flow_Control.thy ===== *)
theory Flow_Control
  imports Core_Types
begin

text \<open>
  Window-based flow control of reliable data (\<^verbatim>\<open>bitfold-peer/src/flow_control.rs\<close>). The window is
  counted in packets, the data in transit in bytes. The window arithmetic is checked, so a bad
  configuration can abort; the properties give the configurations for which it cannot, and show that the
  window stays within its configured bounds.
\<close>

record flow_control =
  fc_window_size :: u32
  reliable_data_in_transit :: u32

definition fc_new :: "config \<Rightarrow> flow_control" where
  "fc_new config = \<lparr>fc_window_size = initial_window_size config, reliable_data_in_transit = 0\<rparr>"

definition set_window_size :: "flow_control \<Rightarrow> config \<Rightarrow> u32 \<Rightarrow> (error_kind, flow_control) res" where
  "set_window_size f config w =
     res_bind (clamp w (min_window_size config) (max_window_size config)) (\<lambda>w. Ok (f\<lparr>fc_window_size := w\<rparr>))"

definition record_reliable_data_sent :: "flow_control \<Rightarrow> u32 \<Rightarrow> flow_control" where
  "record_reliable_data_sent f n =
     f\<lparr>reliable_data_in_transit := saturating_add (reliable_data_in_transit f) n\<rparr>"

definition record_reliable_data_acked :: "flow_control \<Rightarrow> u32 \<Rightarrow> flow_control" where
  "record_reliable_data_acked f n =
     f\<lparr>reliable_data_in_transit := saturating_sub (reliable_data_in_transit f) n\<rparr>"

definition can_send_reliable :: "flow_control \<Rightarrow> config \<Rightarrow> u16 \<Rightarrow> (error_kind, bool) res" where
  "can_send_reliable f config packets_in_flight =
     (if \<not> use_window_flow_control config then Ok (packets_in_flight < max_packets_in_flight config)
      else let approx_packet_size = ucast (fragment_size config)
           in res_bind (mul_checked (fc_window_size f) approx_packet_size) (\<lambda>window_bytes.
              Ok (reliable_data_in_transit f < window_bytes)))"

definition adjust_window_size :: "flow_control \<Rightarrow> config \<Rightarrow> f32 \<Rightarrow> u32 \<Rightarrow> (error_kind, flow_control) res" where
  "adjust_window_size f config loss rtt_ms =
     (if \<not> use_window_flow_control config then Ok f
      else if f32_lt loss (f32_of_rat (1 / 100)) \<and> rtt_ms < 200
      then res_bind (add_checked (fc_window_size f) (max (fc_window_size f div 32) 1)) (\<lambda>w.
             Ok (f\<lparr>fc_window_size := min w (max_window_size config)\<rparr>))
      else if f32_lt (f32_of_rat (5 / 100)) loss \<or> rtt_ms > 500
      then res_bind (sub_checked (fc_window_size f) (max (fc_window_size f div 16) 1)) (\<lambda>w.
             Ok (f\<lparr>fc_window_size := max w (min_window_size config)\<rparr>))
      else Ok f)"

section \<open>Bounds\<close>

text \<open>Bounds that are positive, ordered and far enough from the end of 32 bits.\<close>

definition window_config_ok :: "config \<Rightarrow> bool" where
  "window_config_ok c \<longleftrightarrow> 0 < min_window_size c \<and> min_window_size c \<le> max_window_size c \<and>
     unat (max_window_size c) \<le> 2 ^ 31"

definition window_in_bounds :: "config \<Rightarrow> flow_control \<Rightarrow> bool" where
  "window_in_bounds c f \<longleftrightarrow> min_window_size c \<le> fc_window_size f \<and> fc_window_size f \<le> max_window_size c"

lemma unat_max_u32: "unat (max a b :: u32) = max (unat a) (unat b)"
  by (simp add: max_def word_le_nat_alt)

lemma unat_min_u32: "unat (min a b :: u32) = min (unat a) (unat b)"
  by (simp add: min_def word_le_nat_alt)

lemma window_grow_no_overflow:
  assumes "unat (w :: u32) \<le> 2 ^ 31"
  shows "add_checked w (max (w div 32) 1) = Ok (w + max (w div 32) 1)"
    and "unat (w + max (w div 32) 1) = unat w + max (unat w div 32) 1"
proof -
  have "unat (max (w div 32) 1) = max (unat w div 32) 1"
    by (simp add: unat_max_u32 unat_div)
  moreover have "unat w + max (unat w div 32) 1 < 2 ^ 32" using assms by auto
  ultimately show "add_checked w (max (w div 32) 1) = Ok (w + max (w div 32) 1)"
    and "unat (w + max (w div 32) 1) = unat w + max (unat w div 32) 1"
    by (simp_all add: add_checked_def unat_word_ariths)
qed

lemma window_shrink_no_underflow:
  assumes "0 < (w :: u32)"
  shows "sub_checked w (max (w div 16) 1) = Ok (w - max (w div 16) 1)"
    and "unat (w - max (w div 16) 1) = unat w - max (unat w div 16) 1"
proof -
  have m: "unat (max (w div 16) 1) = max (unat w div 16) 1"
    by (simp add: unat_max_u32 unat_div)
  have "0 < unat w" using assms by (simp add: word_less_nat_alt)
  then have le: "max (w div 16) 1 \<le> w" by (simp add: word_le_nat_alt m)
  then show "sub_checked w (max (w div 16) 1) = Ok (w - max (w div 16) 1)"
    by (simp add: sub_checked_def)
  show "unat (w - max (w div 16) 1) = unat w - max (unat w div 16) 1"
    using le by (simp add: unat_sub m)
qed

section \<open>Properties\<close>

text \<open>
  C22: With ordered positive window bounds of at most $2^{31}$, adjusting a window that lies within them never
  aborts, whatever loss rate and round-trip time are reported, and the new window lies within them too. So does a
  window set from the size a remote peer announces, whatever it is.
\<close>

theorem window_stays_in_bounds:
  assumes "window_config_ok c" "window_in_bounds c f"
  shows "(\<exists>f'. adjust_window_size f c loss rtt_ms = Ok f' \<and> window_in_bounds c f') \<and>
         (\<exists>f'. set_window_size f c w = Ok f' \<and> window_in_bounds c f')"
proof -
  let ?w = "fc_window_size f"
  have b: "unat ?w \<le> 2 ^ 31" "0 < ?w" "unat (min_window_size c) \<le> unat ?w" "unat ?w \<le> unat (max_window_size c)"
    "unat (min_window_size c) \<le> unat (max_window_size c)"
    using assms by (auto simp: window_config_ok_def window_in_bounds_def word_le_nat_alt word_less_nat_alt)
  have "\<exists>f'. adjust_window_size f c loss rtt_ms = Ok f' \<and> window_in_bounds c f'"
    using assms(2) b
    by (auto simp: adjust_window_size_def window_in_bounds_def word_le_nat_alt unat_min_u32 unat_max_u32
        window_grow_no_overflow [OF b(1)] window_shrink_no_underflow [OF b(2)])
  moreover have "\<exists>f'. set_window_size f c w = Ok f' \<and> window_in_bounds c f'"
    using assms(1) by (auto simp: set_window_size_def clamp_def window_in_bounds_def window_config_ok_def)
  ultimately show ?thesis by blast
qed

theorem window_stays_in_bounds_witness:
  "\<exists>f'. set_window_size (fc_new default_config) default_config 100000 = Ok f' \<and> window_in_bounds default_config f'"
  using window_stays_in_bounds [of default_config "fc_new default_config" "Fin 0" 0 100000]
  by (simp add: window_config_ok_def window_in_bounds_def fc_new_def default_config_def)

text \<open>
  The window check aborts exactly when window flow control is on and the window in bytes does not fit 32
  bits; otherwise it compares the bytes in transit with window size times fragment size. Acknowledging what
  was sent restores the count in transit unless it had saturated.
\<close>

theorem can_send_reliable_exact:
  "(can_send_reliable f c n = Panic \<longleftrightarrow>
      use_window_flow_control c \<and> 2 ^ 32 \<le> unat (fc_window_size f) * unat (fragment_size c)) \<and>
   (use_window_flow_control c \<longrightarrow> can_send_reliable f c n = Ok b \<longrightarrow>
      b = (unat (reliable_data_in_transit f) < unat (fc_window_size f) * unat (fragment_size c))) \<and>
   (unat (reliable_data_in_transit f) + unat k < 2 ^ 32 \<longrightarrow>
      record_reliable_data_acked (record_reliable_data_sent f k) k = f)"
proof -
  have frag: "unat (ucast (fragment_size c) :: u32) = unat (fragment_size c)"
    using unat_u16_bound [of "fragment_size c"] by (simp add: unsigned_ucast_eq take_bit_nat_eq_self)
  have "record_reliable_data_acked (record_reliable_data_sent f k) k = f"
    if "unat (reliable_data_in_transit f) + unat k < 2 ^ 32"
  proof -
    have "unat (saturating_sub (saturating_add (reliable_data_in_transit f) k) k)
            = unat (reliable_data_in_transit f)"
      using that by (simp add: unat_saturating_sub unat_saturating_add)
    then show ?thesis
      by (simp add: record_reliable_data_acked_def record_reliable_data_sent_def)
  qed
  then show ?thesis
    by (auto simp: can_send_reliable_def Let_def res_bind_Panic_iff res_bind_Ok_iff mul_checked_def
        frag word_less_nat_alt unat_word_ariths not_less split: if_splits)
qed

theorem can_send_reliable_exact_witness:
  "record_reliable_data_acked (record_reliable_data_sent (fc_new default_config) 700) 700 = fc_new default_config"
  using can_send_reliable_exact [of "fc_new default_config" default_config 0 True 700]
  by (simp add: fc_new_def)

end
