(* ===== verification/Unsequenced_Window.thy ===== *)
theory Unsequenced_Window
  imports Prelude
begin

text \<open>
  Duplicate detection of unsequenced packets (\<^verbatim>\<open>bitfold-peer/src/unsequenced.rs\<close>): a window of 1024 bits
  in 32 words, which slides when a group arrives far ahead of it.

  The in-place word and bit shifts are shown to implement the shift of a bit string, and the window to
  implement a set of group numbers. A group that was marked is a duplicate until the base has moved half the number
  space past it. The exception is a window in which no bit is set: there a group behind the base is never
  remembered.
\<close>

record unsequenced_state =
  incoming_unsequenced_group :: u16
  unsequenced_window :: "u32 list"
  outgoing_unsequenced_group :: u16

definition uns_new :: unsequenced_state where
  "uns_new = \<lparr>incoming_unsequenced_group = 0, unsequenced_window = replicate 32 0,
     outgoing_unsequenced_group = 0\<rparr>"

definition next_outgoing_group :: "unsequenced_state \<Rightarrow> unsequenced_state \<times> u16" where
  "next_outgoing_group u =
     (let grp = outgoing_unsequenced_group u
      in (u\<lparr>outgoing_unsequenced_group := outgoing_unsequenced_group u + 1\<rparr>, grp))"

definition is_duplicate :: "unsequenced_state \<Rightarrow> u16 \<Rightarrow> bool" where
  "is_duplicate u grp =
     (let window_empty = list_all (\<lambda>w. w = 0) (unsequenced_window u)
      in if window_empty then False
         else let offset = unat (grp - incoming_unsequenced_group u)
              in if offset < 1024 \<and> offset div 32 < 32
                 then unsequenced_window u ! (offset div 32) AND push_bit (offset mod 32) 1 \<noteq> 0
                 else if offset > 32768 then True
                 else False)"

text \<open>The two loops that move whole words, and the loop that moves bits across words.\<close>

definition shift_words :: "nat \<Rightarrow> u32 list \<Rightarrow> u32 list" where
  "shift_words word_shift w =
     (let w = foldl (\<lambda>w i. w[i := w ! (i + word_shift)]) w [0..<32 - word_shift]
      in foldl (\<lambda>w i. w[i := 0]) w [32 - word_shift..<32])"

definition shift_bits :: "nat \<Rightarrow> u32 list \<Rightarrow> u32 list" where
  "shift_bits bit_shift w =
     (let w = foldl (\<lambda>w i. w[i := drop_bit bit_shift (w ! i) OR push_bit (32 - bit_shift) (w ! (i + 1))]) w [0..<31]
      in w[31 := drop_bit bit_shift (w ! 31)])"

text \<open>Sliding the window forward by \<open>advance\<close>: words, then bits, then the base.\<close>

definition uns_slide :: "u16 \<Rightarrow> unsequenced_state \<Rightarrow> unsequenced_state" where
  "uns_slide advance u =
     (let word_shift = unat advance div 32;
          bit_shift = unat advance mod 32;
          u = (if word_shift > 0
               then if word_shift \<ge> 32 then u\<lparr>unsequenced_window := replicate 32 0\<rparr>
                    else u\<lparr>unsequenced_window := shift_words word_shift (unsequenced_window u)\<rparr>
               else u);
          u = (if bit_shift > 0 \<and> word_shift < 32
               then u\<lparr>unsequenced_window := shift_bits bit_shift (unsequenced_window u)\<rparr> else u)
      in u\<lparr>incoming_unsequenced_group := incoming_unsequenced_group u + advance\<rparr>)"

definition mark_received :: "unsequenced_state \<Rightarrow> u16 \<Rightarrow> unsequenced_state" where
  "mark_received u grp =
     (let offset = grp - incoming_unsequenced_group u;
          u = (if 1024 \<le> offset \<and> offset \<le> 32768
               then let advance = saturating_sub offset 512 in uns_slide advance u
               else u);
          final_offset = unat (grp - incoming_unsequenced_group u)
      in if final_offset < 1024 \<and> final_offset div 32 < 32
         then u\<lparr>unsequenced_window := (unsequenced_window u)
                  [final_offset div 32 := unsequenced_window u ! (final_offset div 32) OR push_bit (final_offset mod 32) 1]\<rparr>
         else u)"

section \<open>The window as a bit string\<close>

definition wbit :: "u32 list \<Rightarrow> nat \<Rightarrow> bool" where
  "wbit w n \<longleftrightarrow> n < 1024 \<and> bit (w ! (n div 32)) (n mod 32)"

lemma and_push_bit_1: "(w :: u32) AND push_bit n 1 \<noteq> 0 \<longleftrightarrow> bit w n \<and> n < 32"
proof
  assume "w AND push_bit n 1 \<noteq> 0"
  then obtain k where "bit (w AND push_bit n 1) k" using bit_eqI [of "w AND push_bit n 1" 0] by auto
  then show "bit w n \<and> n < 32" by (auto simp: bit_simps)
next
  assume "bit w n \<and> n < 32"
  then have "bit (w AND push_bit n 1) n" by (simp add: bit_simps)
  then show "w AND push_bit n 1 \<noteq> 0" by auto
qed

lemma wbit_all_zero: "length w = 32 \<Longrightarrow> list_all (\<lambda>x. x = 0) w \<longleftrightarrow> (\<forall>n. \<not> wbit w n)"
proof
  assume "length w = 32" "list_all (\<lambda>x. x = 0) w"
  then show "\<forall>n. \<not> wbit w n"
    by (auto simp: wbit_def list_all_length)
next
  assume len: "length w = 32" and none: "\<forall>n. \<not> wbit w n"
  have "w ! i = 0" if "i < 32" for i
  proof (rule bit_eqI)
    fix k
    show "bit (w ! i) k \<longleftrightarrow> bit 0 k"
    proof (cases "k < 32")
      case True
      then have "\<not> wbit w (i * 32 + k)" using none by blast
      moreover have "i * 32 + k < 1024" "(i * 32 + k) div 32 = i" "(i * 32 + k) mod 32 = k"
        using that True by auto
      ultimately show ?thesis by (simp add: wbit_def)
    qed (auto dest: bit_imp_le_length)
  qed
  then show "list_all (\<lambda>x. x = 0) w" using len by (simp add: list_all_length)
qed

lemma wbit_set:
  assumes "length w = 32" "n < 1024"
  shows "wbit (w[n div 32 := w ! (n div 32) OR push_bit (n mod 32) 1]) k \<longleftrightarrow> wbit w k \<or> k = n"
proof -
  have "n div 32 < 32" using assms by simp
  moreover have "k = n \<longleftrightarrow> k div 32 = n div 32 \<and> k mod 32 = n mod 32"
    by (metis div_mult_mod_eq)
  ultimately show ?thesis
    using assms by (auto simp: wbit_def nth_list_update bit_simps)
qed

lemma copy_loop:
  assumes "length w = 32" "s \<le> 32"
  shows "k \<le> 32 - s \<Longrightarrow> length (foldl (\<lambda>w i. w[i := w ! (i + s)]) w [0..<k]) = 32 \<and>
    (\<forall>j < 32. foldl (\<lambda>w i. w[i := w ! (i + s)]) w [0..<k] ! j = (if j < k then w ! (j + s) else w ! j))"
proof (induction k)
  case (Suc k)
  then show ?case using assms by (auto simp: nth_list_update less_Suc_eq)
qed (use assms in simp)

lemma zero_loop:
  assumes "length w = 32"
  shows "k \<le> 32 - a \<Longrightarrow> length (foldl (\<lambda>w i. w[i := (0 :: u32)]) w [a..<a + k]) = 32 \<and>
    (\<forall>j < 32. foldl (\<lambda>w i. w[i := 0]) w [a..<a + k] ! j = (if a \<le> j \<and> j < a + k then 0 else w ! j))"
proof (induction k)
  case (Suc k)
  then show ?case using assms by (auto simp: nth_list_update)
qed (use assms in auto)

lemma shift_words_result:
  assumes "length w = 32" "s < 32"
  shows "length (shift_words s w) = 32 \<and>
    (\<forall>j < 32. shift_words s w ! j = (if j + s < 32 then w ! (j + s) else 0))"
proof -
  note c = copy_loop [of w s "32 - s", simplified]
  note z = zero_loop [of "foldl (\<lambda>w i. w[i := w ! (i + s)]) w [0..<32 - s]" s "32 - s"]
  show ?thesis using assms c z by (auto simp: shift_words_def Let_def)
qed

lemma shift_bits_loop:
  fixes b :: nat
  assumes "length w = 32"
  defines "f \<equiv> \<lambda>(w :: u32 list) i. w[i := drop_bit b (w ! i) OR push_bit (32 - b) (w ! (i + 1))]"
  shows "k \<le> 31 \<Longrightarrow> length (foldl f w [0..<k]) = 32 \<and>
    (\<forall>j < 32. foldl f w [0..<k] ! j =
       (if j < k then drop_bit b (w ! j) OR push_bit (32 - b) (w ! (j + 1)) else w ! j))"
proof (induction k)
  case (Suc k)
  then show ?case using assms by (auto simp: f_def nth_list_update less_Suc_eq)
qed (use assms in simp)

lemma shift_bits_result:
  assumes "length w = 32"
  shows "length (shift_bits b w) = 32 \<and>
    (\<forall>j < 32. shift_bits b w ! j =
       (if j < 31 then drop_bit b (w ! j) OR push_bit (32 - b) (w ! (j + 1)) else drop_bit b (w ! j)))"
proof -
  note l = shift_bits_loop [OF assms, of 31 b, simplified]
  have "shift_bits b w ! j =
      (if j < 31 then drop_bit b (w ! j) OR push_bit (32 - b) (w ! (j + 1)) else drop_bit b (w ! j))"
    if "j < 32" for j
  proof (cases "j = 31")
    case False
    then show ?thesis using l that by (simp add: shift_bits_def Let_def)
  qed (use l in \<open>simp add: shift_bits_def Let_def\<close>)
  then show ?thesis using l by (simp add: shift_bits_def Let_def)
qed

text \<open>Moving \<open>s\<close> words and then \<open>b\<close> bits drops the first \<open>32 * s + b\<close> bits of the string.\<close>

lemma divmod32: "r < 32 \<Longrightarrow> (32 * q + r) div 32 = q" "r < 32 \<Longrightarrow> (32 * q + r) mod 32 = (r :: nat)"
  by simp_all

lemma wbit_shift_words:
  assumes "length w = 32" "s < 32"
  shows "wbit (shift_words s w) n \<longleftrightarrow> wbit w (n + 32 * s)"
proof -
  have d: "(n + 32 * s) div 32 = n div 32 + s" "(n + 32 * s) mod 32 = n mod 32" by simp_all
  have lt: "n + 32 * s < 1024 \<longleftrightarrow> n div 32 + s < 32"
    using div_less_iff_less_mult [of 32 "n + 32 * s" 32] d(1) by simp
  have "n < 1024 \<Longrightarrow> n div 32 < 32" by simp
  then show ?thesis
    using shift_words_result [OF assms] unfolding wbit_def d lt by (auto split: if_splits)
qed

lemma bit_across_words:
  fixes x y :: u32
  assumes "0 < b" "b < 32" "m < 32"
  shows "bit (drop_bit b x OR push_bit (32 - b) y) m \<longleftrightarrow>
           (if m + b < 32 then bit x (m + b) else bit y (m + b - 32))"
    and "bit (drop_bit b x) m \<longleftrightarrow> m + b < 32 \<and> bit x (m + b)"
proof -
  have x: "bit x k \<Longrightarrow> k < 32" for k using bit_imp_le_length [of x k] by simp
  have "m - (32 - b) = m + b - 32" using assms(2) by simp
  then show "bit (drop_bit b x OR push_bit (32 - b) y) m \<longleftrightarrow>
           (if m + b < 32 then bit x (m + b) else bit y (m + b - 32))"
    using assms x [of "b + m"] by (auto simp: bit_simps add.commute)
  show "bit (drop_bit b x) m \<longleftrightarrow> m + b < 32 \<and> bit x (m + b)"
    using x [of "b + m"] by (auto simp: bit_simps add.commute)
qed

lemma wbit_shift_bits:
  assumes "length w = 32" "0 < b" "b < 32"
  shows "wbit (shift_bits b w) n \<longleftrightarrow> wbit w (n + b)"
proof (cases "n < 1024")
  case True
  let ?j = "n div 32" and ?m = "n mod 32"
  have j: "?j < 32" using True by simp
  have w': "shift_bits b w ! ?j =
      (if ?j < 31 then drop_bit b (w ! ?j) OR push_bit (32 - b) (w ! (?j + 1)) else drop_bit b (w ! ?j))"
    using shift_bits_result [OF assms(1)] j by blast
  have nb: "n + b = 32 * ?j + (?m + b)" by simp
  have b': "bit (shift_bits b w ! ?j) ?m \<longleftrightarrow>
      (if ?m + b < 32 then bit (w ! ?j) (?m + b) else ?j < 31 \<and> bit (w ! (?j + 1)) (?m + b - 32))"
    unfolding w' using bit_across_words [OF assms(2,3), of ?m] by simp
  show ?thesis
  proof (cases "?m + b < 32")
    case small: True
    then have "(n + b) div 32 = ?j" "(n + b) mod 32 = ?m + b"
      using divmod32 [of "?m + b" ?j] by (simp_all only: nb [symmetric])
    moreover have "n + b < 1024" using j small nb by linarith
    ultimately show ?thesis using True small b' by (simp add: wbit_def)
  next
    case big: False
    then have nb': "n + b = 32 * (?j + 1) + (?m + b - 32)" using nb by simp
    have r: "?m + b - 32 < 32" using assms(3) mod_less_divisor [of 32 n] by linarith
    then have dm: "(n + b) div 32 = ?j + 1" "(n + b) mod 32 = ?m + b - 32"
      using divmod32 [of "?m + b - 32" "?j + 1"] by (simp_all only: nb' [symmetric])
    have "n + b < 1024 \<longleftrightarrow> ?j < 31"
      using div_less_iff_less_mult [of 32 "n + b" 32] dm(1) by simp
    then show ?thesis using True big dm b' by (simp add: wbit_def)
  qed
next
  case False
  then show ?thesis by (simp add: wbit_def)
qed

section \<open>The window as a set of groups\<close>

definition uns_inv :: "unsequenced_state \<Rightarrow> bool" where
  "uns_inv u \<longleftrightarrow> length (unsequenced_window u) = 32"

definition uns_groups :: "unsequenced_state \<Rightarrow> u16 set" where
  "uns_groups u = {g. wbit (unsequenced_window u) (unat (g - incoming_unsequenced_group u))}"

text \<open>The abstract operation: remember a group, sliding the window when it is far ahead.\<close>

definition uns_mark :: "u16 \<times> u16 set \<Rightarrow> u16 \<Rightarrow> u16 \<times> u16 set" where
  "uns_mark st g = (case st of (b, G) \<Rightarrow>
     let off = unat (g - b)
     in if off < 1024 then (b, insert g G)
        else if off \<le> 32768
        then let b' = b + of_nat (off - 512) in (b', insert g {h \<in> G. unat (h - b') < 1024})
        else (b, G))"

lemma uns_inv_new [simp]: "uns_inv uns_new"
  by (simp add: uns_inv_def uns_new_def)

lemma uns_groups_new [simp]: "uns_groups uns_new = {}"
  by (auto simp: uns_groups_def uns_new_def wbit_def)

lemma uns_window_empty:
  assumes "uns_inv u"
  shows "list_all (\<lambda>w. w = 0) (unsequenced_window u) \<longleftrightarrow> uns_groups u = {}"
proof -
  let ?b = "incoming_unsequenced_group u"
  have "wbit (unsequenced_window u) n \<longleftrightarrow> n < 1024 \<and> ?b + of_nat n \<in> uns_groups u" for n
    using unat_of_nat_u16 [of n] by (auto simp: uns_groups_def wbit_def)
  moreover have "\<exists>n < 1024. g = ?b + of_nat n" if "g \<in> uns_groups u" for g
    using that by (intro exI [of _ "unat (g - ?b)"]) (auto simp: uns_groups_def wbit_def)
  ultimately show ?thesis
    using assms unfolding uns_inv_def by (auto simp: wbit_all_zero)
qed

lemma is_duplicate_iff:
  assumes "uns_inv u"
  shows "is_duplicate u g \<longleftrightarrow>
    uns_groups u \<noteq> {} \<and> (g \<in> uns_groups u \<or> 32768 < unat (g - incoming_unsequenced_group u))"
  unfolding is_duplicate_def uns_window_empty [OF assms] Let_def and_push_bit_1
  by (auto simp: uns_groups_def wbit_def)

lemma mark_set_bit:
  fixes g :: u16
  assumes "uns_inv u"
  defines "n \<equiv> unat (g - incoming_unsequenced_group u)"
  assumes "n < 1024"
  defines "u' \<equiv> u\<lparr>unsequenced_window := (unsequenced_window u)
      [n div 32 := unsequenced_window u ! (n div 32) OR push_bit (n mod 32) 1]\<rparr>"
  shows "uns_inv u'" and "uns_groups u' = insert g (uns_groups u)"
proof -
  show "uns_inv u'" using assms by (simp add: uns_inv_def)
  have "unat (h - incoming_unsequenced_group u) = n \<longleftrightarrow> h = g" for h
    unfolding n_def unat_inj_iff by (metis diff_add_cancel)
  then show "uns_groups u' = insert g (uns_groups u)"
    using assms wbit_set [of "unsequenced_window u" n]
    by (auto simp: uns_groups_def u'_def uns_inv_def)
qed

lemma wbit_slide:
  assumes "uns_inv u"
  shows "uns_inv (uns_slide a u)"
    and "wbit (unsequenced_window (uns_slide a u)) n \<longleftrightarrow> wbit (unsequenced_window u) (n + unat a)"
    and "incoming_unsequenced_group (uns_slide a u) = incoming_unsequenced_group u + a"
proof -
  let ?w = "unsequenced_window u" and ?s = "unat a div 32" and ?b = "unat a mod 32"
  have len: "length ?w = 32" using assms by (simp add: uns_inv_def)
  define w1 where "w1 = (if 0 < ?s then if 32 \<le> ?s then replicate 32 0 else shift_words ?s ?w else ?w)"
  define w2 where "w2 = (if 0 < ?b \<and> ?s < 32 then shift_bits ?b w1 else w1)"
  have slide: "uns_slide a u = u\<lparr>unsequenced_window := w2, incoming_unsequenced_group := incoming_unsequenced_group u + a\<rparr>"
    by (simp add: uns_slide_def Let_def w1_def w2_def)
  have l1: "length w1 = 32" using shift_words_result [OF len, of ?s] len by (simp add: w1_def)
  have l2: "length w2 = 32" using shift_bits_result [OF l1, of ?b] l1 by (simp add: w2_def)
  show "uns_inv (uns_slide a u)" using l2 by (simp add: slide uns_inv_def)
  show "incoming_unsequenced_group (uns_slide a u) = incoming_unsequenced_group u + a" by (simp add: slide)
  have a: "unat a = ?b + 32 * ?s" by simp
  show "wbit (unsequenced_window (uns_slide a u)) n \<longleftrightarrow> wbit ?w (n + unat a)"
  proof (cases "?s < 32")
    case True
    have w1: "wbit w1 k \<longleftrightarrow> wbit ?w (k + 32 * ?s)" for k
      using True wbit_shift_words [OF len True, of k] by (simp add: w1_def)
    have "wbit w2 n \<longleftrightarrow> wbit w1 (n + ?b)"
      using True wbit_shift_bits [OF l1, of ?b n] by (auto simp: w2_def)
    then show ?thesis unfolding slide w1 by (simp add: add.assoc)
  next
    case False
    then have "1024 \<le> unat a" using div_less_iff_less_mult [of 32 "unat a" 32] by simp
    moreover have "w2 = replicate 32 0" using False by (simp add: w1_def w2_def)
    ultimately show ?thesis by (auto simp: slide wbit_def)
  qed
qed

lemma uns_groups_slide:
  assumes "uns_inv u" "512 \<le> unat a" "unat a \<le> 32256"
  shows "uns_groups (uns_slide a u) =
    {h \<in> uns_groups u. unat (h - (incoming_unsequenced_group u + a)) < 1024}"
proof -
  let ?b = "incoming_unsequenced_group u"
  have "wbit w (unat (h - (?b + a)) + unat a) \<longleftrightarrow> wbit w (unat (h - ?b)) \<and> unat (h - (?b + a)) < 1024" for h w
  proof -
    let ?k = "h - (?b + a)"
    have h: "h - ?b = ?k + a" by simp
    have "unat (h - ?b) = (if unat ?k + unat a < 65536 then unat ?k + unat a else unat ?k + unat a - 65536)"
      unfolding h by (rule unat_add_u16)
    then show ?thesis using assms(2,3) unat_u16_bound [of ?k] by (auto simp: wbit_def split: if_splits)
  qed
  then show ?thesis
    using wbit_slide [OF assms(1)] by (auto simp: uns_groups_def)
qed

lemma mark_received_refines:
  assumes "uns_inv u"
  shows "uns_inv (mark_received u g) \<and>
    (incoming_unsequenced_group (mark_received u g), uns_groups (mark_received u g)) =
      uns_mark (incoming_unsequenced_group u, uns_groups u) g"
proof -
  let ?b = "incoming_unsequenced_group u"
  define off where "off = unat (g - ?b)"
  have div: "unat n < 1024 \<Longrightarrow> unat n div 32 < 32" for n :: u16 by simp
  consider "off < 1024" | "1024 \<le> off" "off \<le> 32768" | "32768 < off" by linarith
  then show ?thesis
  proof cases
    case 1
    then show ?thesis
      using mark_set_bit [OF assms, of g] div [of "g - ?b"]
      by (auto simp: mark_received_def uns_mark_def Let_def off_def word_le_nat_alt)
  next
    case 2
    define a where "a = saturating_sub (g - ?b) 512"
    have a: "unat a = off - 512" using 2 by (simp add: a_def unat_saturating_sub off_def)
    have a': "a = of_nat (off - 512)" using a by (metis word_of_nat_eq_iff unsigned_of_nat of_nat_unat ucast_id)
    define v where "v = uns_slide a u"
    have v: "uns_inv v" "incoming_unsequenced_group v = ?b + a"
        "uns_groups v = {h \<in> uns_groups u. unat (h - (?b + a)) < 1024}"
      using wbit_slide [OF assms, of a] uns_groups_slide [OF assms, of a] 2 a by (simp_all add: v_def)
    have eq: "g - incoming_unsequenced_group v = (g - ?b) - a" by (simp add: v(2))
    have fin: "unat (g - incoming_unsequenced_group v) = 512"
      unfolding eq unat_sub_u16 [of "g - ?b" a] word_le_nat_alt a off_def [symmetric] using 2 by simp
    have m: "mark_received u g = v\<lparr>unsequenced_window := (unsequenced_window v)
        [512 div 32 := unsequenced_window v ! (512 div 32) OR push_bit (512 mod 32) 1]\<rparr>"
      using 2 fin by (simp add: mark_received_def Let_def v_def a_def off_def word_le_nat_alt)
    show ?thesis
      using mark_set_bit [OF v(1), of g] fin v 2
      by (simp add: m uns_mark_def Let_def off_def a')
  next
    case 3
    then show ?thesis
      using assms by (simp add: mark_received_def uns_mark_def Let_def off_def word_le_nat_alt)
  qed
qed

section \<open>Properties\<close>

text \<open>
  C15: The 1024-bit window with its in-place word and bit shifts implements a sliding set of group numbers: on
  every sequence of marked groups the base and the set of remembered groups are those of the
  abstract operation, and a group is a duplicate iff some group is remembered and it is one of them or behind the base.
\<close>

theorem unsequenced_window_refines:
  defines "run \<equiv> foldl mark_received uns_new"
  shows "(incoming_unsequenced_group (run gs), uns_groups (run gs)) = foldl uns_mark (0, {}) gs \<and>
    (is_duplicate (run gs) g \<longleftrightarrow> uns_groups (run gs) \<noteq> {} \<and>
       (g \<in> uns_groups (run gs) \<or> 32768 < unat (g - incoming_unsequenced_group (run gs))))"
proof -
  have "uns_inv (run gs) \<and>
    (incoming_unsequenced_group (run gs), uns_groups (run gs)) = foldl uns_mark (0, {}) gs"
  proof (induction gs rule: rev_induct)
    case (snoc g gs)
    then show ?case using mark_received_refines [of "run gs" g] by (simp add: run_def)
  qed (simp add: run_def, simp add: uns_new_def)
  then show ?thesis using is_duplicate_iff by blast
qed

text \<open>
  A group that is at most half the number space ahead of the base is a duplicate right after it was marked,
  and a duplicate stays one whatever is marked afterwards, until the base has moved
  half the number space past it.
\<close>

theorem unsequenced_duplicate_stays:
  assumes "uns_inv u"
  shows "(unat (g - incoming_unsequenced_group u) \<le> 32768 \<longrightarrow> is_duplicate (mark_received u g) g) \<and>
    (is_duplicate u h \<longrightarrow>
     (unat (h - incoming_unsequenced_group u) < 1024 \<or>
      unat (incoming_unsequenced_group u - h)
        + unat (incoming_unsequenced_group (mark_received u g) - incoming_unsequenced_group u) < 32768) \<longrightarrow>
     is_duplicate (mark_received u g) h)"
proof -
  let ?b = "incoming_unsequenced_group u" and ?u = "mark_received u g"
  let ?b' = "incoming_unsequenced_group ?u"
  have inv': "uns_inv ?u" and ref: "(?b', uns_groups ?u) = uns_mark (?b, uns_groups u) g"
    using mark_received_refines [OF assms, of g] by simp_all
  have first: "is_duplicate ?u g" if "unat (g - ?b) \<le> 32768"
    using ref that by (auto simp: is_duplicate_iff [OF inv'] uns_mark_def Let_def split: if_splits)
  have second: "is_duplicate ?u h" if dup: "is_duplicate u h"
    and near: "unat (h - ?b) < 1024 \<or> unat (?b - h) + unat (?b' - ?b) < 32768"
  proof (cases "1024 \<le> unat (g - ?b) \<and> unat (g - ?b) \<le> 32768")
    case False
    then show ?thesis
      using ref dup by (auto simp: is_duplicate_iff [OF inv'] is_duplicate_iff [OF assms] uns_mark_def Let_def
          split: if_splits)
  next
    case True
    define a where "a = unat (g - ?b) - 512"
    have a: "a \<le> 32256" using True unfolding a_def by linarith
    have b': "?b' = ?b + of_nat a" and G: "uns_groups ?u = insert g {k \<in> uns_groups u. unat (k - ?b') < 1024}"
      using ref True by (auto simp: uns_mark_def Let_def a_def)
    have ua: "unat (of_nat a :: u16) = a" using a by (simp add: unat_of_nat_u16)
    have eq: "h - ?b' = (h - ?b) - of_nat a" by (simp add: b')
    have hb': "unat (h - ?b') = (if a \<le> unat (h - ?b) then unat (h - ?b) - a else 65536 + unat (h - ?b) - a)"
      unfolding eq unat_sub_u16 [of "h - ?b"] by (simp add: ua word_le_nat_alt)
    have bh: "h \<noteq> ?b \<Longrightarrow> unat (?b - h) = 65536 - unat (h - ?b)"
      using unat_u16_bound [of ?b] unat_u16_bound [of h] unat_inj_iff [of h ?b]
      by (auto simp: unat_sub_u16 word_le_nat_alt)
    have ba: "unat (?b' - ?b) = a" by (simp add: b' ua)
    have "h \<in> uns_groups ?u \<or> 32768 < unat (h - ?b')"
    proof (cases "h \<in> uns_groups u")
      case True
      then have "unat (h - ?b) < 1024" by (simp add: uns_groups_def wbit_def)
      then show ?thesis using True G hb' a by (cases "a \<le> unat (h - ?b)") auto
    next
      case False
      then have far: "32768 < unat (h - ?b)" using dup by (simp add: is_duplicate_iff [OF assms])
      then have "h \<noteq> ?b" by auto
      then have "unat (?b - h) + a < 32768" "unat (?b - h) = 65536 - unat (h - ?b)"
        using far near ba bh by simp_all
      then have "a \<le> unat (h - ?b)" "32768 < unat (h - ?b) - a"
        using far unat_u16_bound [of "h - ?b"] by linarith+
      then show ?thesis using hb' by simp
    qed
    then show ?thesis using G by (auto simp: is_duplicate_iff [OF inv'])
  qed
  show ?thesis using first second by blast
qed

theorem unsequenced_duplicate_stays_witness:
  "is_duplicate (mark_received uns_new 1500) 1500"
  using unsequenced_duplicate_stays [OF uns_inv_new, of 1500 0] by (simp add: uns_new_def)

text \<open>
  As long as no group has been remembered, a group more than half the number space ahead of the base
  is accepted and marking it changes nothing: every further copy of it is accepted again.
\<close>

theorem unsequenced_behind_empty_window:
  assumes "uns_inv u" "uns_groups u = {}" "32768 < unat (g - incoming_unsequenced_group u)"
  shows "\<not> is_duplicate u g \<and> mark_received u g = u \<and> \<not> is_duplicate (mark_received u g) g"
proof -
  have "mark_received u g = u"
    using assms(3) by (simp add: mark_received_def Let_def word_le_nat_alt)
  then show ?thesis using assms by (simp add: is_duplicate_iff)
qed

theorem unsequenced_behind_empty_window_witness:
  "\<not> is_duplicate (mark_received (mark_received uns_new 40000) 40000) 40000"
  using unsequenced_behind_empty_window [OF uns_inv_new uns_groups_new, of 40000] by (simp add: uns_new_def)

end
