(* ===== verification/Fragments.thy ===== *)
theory Fragments
  imports Hash_Map Core_Types
begin

text \<open>
  Fragment reassembly (\<^verbatim>\<open>bitfold-peer/src/fragment_buffer.rs\<close>): the fragments of one packet are collected
  in a map from their number; when as many have arrived as were announced, they are joined in order.

  The results: reassembly succeeds exactly when the fragments present are those numbered from 0 to the count,
  it does not depend on the order or the repetition of arrivals, and the cleanup removes exactly the
  buffers that are too old.
\<close>

record command_fragment_buffer =
  fb_channel_id :: u8
  fb_fragment_count :: u8
  fb_ordered :: bool
  fb_fragments :: "(u8, bytes) hmap"
  fb_created_at :: instant

definition fb_new :: "u8 \<Rightarrow> u8 \<Rightarrow> bool \<Rightarrow> instant \<Rightarrow> command_fragment_buffer" where
  "fb_new c n o_flag t = \<lparr>fb_channel_id = c, fb_fragment_count = n, fb_ordered = o_flag,
     fb_fragments = hm_empty, fb_created_at = t\<rparr>"

definition add_fragment :: "command_fragment_buffer \<Rightarrow> u8 \<Rightarrow> bytes \<Rightarrow> command_fragment_buffer" where
  "add_fragment b i d = b\<lparr>fb_fragments := hm_insert i d (fb_fragments b)\<rparr>"

definition fb_is_complete :: "command_fragment_buffer \<Rightarrow> bool" where
  "fb_is_complete b \<longleftrightarrow> hm_len (fb_fragments b) = unat (fb_fragment_count b)"

fun reassemble_loop :: "(u8, bytes) hmap \<Rightarrow> nat list \<Rightarrow> bytes \<Rightarrow> bytes option" where
  "reassemble_loop m [] result = Some result"
| "reassemble_loop m (i # is) result =
     (case hm_get m (of_nat i) of
        Some data \<Rightarrow> reassemble_loop (hm_delete (of_nat i) m) is (result @ data)
      | None \<Rightarrow> None)"

definition reassemble :: "command_fragment_buffer \<Rightarrow> bytes option" where
  "reassemble b =
     (if \<not> fb_is_complete b then None
      else reassemble_loop (fb_fragments b) [0..<unat (fb_fragment_count b)] [])"

definition FRAGMENT_TIMEOUT :: duration where
  "FRAGMENT_TIMEOUT = from_secs 5"

definition cleanup_stale_fragments ::
  "(u16, command_fragment_buffer) hmap \<Rightarrow> instant \<Rightarrow> (u16, command_fragment_buffer) hmap" where
  "cleanup_stale_fragments m time =
     (let stale_sequences = map fst (filter (\<lambda>(s, b). duration_since time (fb_created_at b) > FRAGMENT_TIMEOUT) m)
      in foldl (\<lambda>m s. hm_delete s m) m stale_sequences)"

section \<open>Reassembly\<close>

lemma reassemble_loop_result:
  assumes "distinct is" "\<forall>i \<in> set is. i < 256"
  shows "reassemble_loop m is r =
    (if \<forall>i \<in> set is. hm_get m (of_nat i) \<noteq> None
     then Some (r @ concat (map (\<lambda>i. the (hm_get m (of_nat i))) is)) else None)"
  using assms
proof (induction "is" arbitrary: m r)
  case (Cons i "is")
  have neq: "(of_nat j :: u8) \<noteq> of_nat i" if "j \<in> set is" for j
    using that Cons.prems by (metis distinct.simps(2) list.set_intros unat_of_nat_u8)
  show ?case
  proof (cases "hm_get m (of_nat i)")
    case (Some d)
    have eq1: "map (\<lambda>j. the (hm_get (hm_delete (of_nat i) m) (of_nat j))) is = map (\<lambda>j. the (hm_get m (of_nat j))) is"
      using neq by auto
    have eq2: "(\<forall>j \<in> set is. hm_get (hm_delete (of_nat i) m) (of_nat j) \<noteq> None) \<longleftrightarrow>
        (\<forall>j \<in> set is. hm_get m (of_nat j) \<noteq> None)"
      using neq by auto
    show ?thesis
      using Cons.IH [of "hm_delete (of_nat i) m" "r @ d", unfolded eq1 eq2] Cons.prems Some by simp
  qed auto
qed simp

lemma u8_range_of_nat: "of_nat ` {0..<unat n} = {i :: u8. i < n}"
proof -
  have "i \<in> of_nat ` {0..<unat n}" if "i < n" for i :: u8
    using that by (intro image_eqI [of _ _ "unat i"]) (simp_all add: word_less_nat_alt)
  moreover have "(of_nat k :: u8) < n" if "k < unat n" for k
    using that unat_u8_bound [of n] unat_of_nat_u8 [of k] by (simp add: word_less_nat_alt)
  ultimately show ?thesis by auto
qed

lemma card_u8_range: "card {i :: u8. i < n} = unat n"
proof -
  have "inj_on (of_nat :: nat \<Rightarrow> u8) {0..<unat n}"
  proof (rule inj_onI)
    fix x y assume "x \<in> {0..<unat n}" "y \<in> {0..<unat n}" "(of_nat x :: u8) = of_nat y"
    moreover from this have "x < 256" "y < 256" using unat_u8_bound [of n] by auto
    ultimately show "x = y" by (metis unat_of_nat_u8)
  qed
  then have "card (of_nat ` {0..<unat n} :: u8 set) = card {0..<unat n}" by (rule card_image)
  then show ?thesis unfolding u8_range_of_nat by simp
qed

lemma reassemble_result:
  assumes "hm_wf (fb_fragments b)"
  shows "reassemble b =
    (if dom (hm_get (fb_fragments b)) = {i. i < fb_fragment_count b}
     then Some (concat (map (\<lambda>i. the (hm_get (fb_fragments b) (of_nat i))) [0..<unat (fb_fragment_count b)]))
     else None)"
proof -
  let ?n = "fb_fragment_count b" and ?m = "fb_fragments b"
  have len: "hm_len ?m = card (dom (hm_get ?m))" by (rule hm.len_card [OF assms])
  have loop: "reassemble_loop ?m [0..<unat ?n] [] =
    (if {i. i < ?n} \<subseteq> dom (hm_get ?m)
     then Some (concat (map (\<lambda>i. the (hm_get ?m (of_nat i))) [0..<unat ?n])) else None)"
    using unat_u8_bound [of ?n]
    by (subst reassemble_loop_result) (auto simp: u8_range_of_nat [symmetric])
  have "dom (hm_get ?m) = {i. i < ?n} \<longleftrightarrow> fb_is_complete b \<and> {i. i < ?n} \<subseteq> dom (hm_get ?m)"
  proof
    assume "fb_is_complete b \<and> {i. i < ?n} \<subseteq> dom (hm_get ?m)"
    then have "{i. i < ?n} = dom (hm_get ?m)"
      by (intro card_subset_eq [OF hm.dom_finite]) (simp_all add: fb_is_complete_def len card_u8_range)
    then show "dom (hm_get ?m) = {i. i < ?n}" ..
  qed (simp add: fb_is_complete_def len card_u8_range)
  then show ?thesis by (auto simp: reassemble_def loop)
qed

section \<open>Arrivals\<close>

definition add_fragments :: "command_fragment_buffer \<Rightarrow> (u8 \<times> bytes) list \<Rightarrow> command_fragment_buffer" where
  "add_fragments b fs = foldl (\<lambda>b (i, d). add_fragment b i d) b fs"

lemma add_fragments_result:
  assumes "\<forall>(i, d) \<in> set fs. d = f i"
  shows "fb_fragment_count (add_fragments b fs) = fb_fragment_count b \<and>
    (hm_wf (fb_fragments b) \<longrightarrow> hm_wf (fb_fragments (add_fragments b fs))) \<and>
    hm_get (fb_fragments (add_fragments b fs)) i =
      (if i \<in> fst ` set fs then Some (f i) else hm_get (fb_fragments b) i)"
  using assms unfolding add_fragments_def
proof (induction fs arbitrary: b)
  case (Cons x fs)
  obtain j d where x: "x = (j, d)" by fastforce
  then show ?case
    using Cons.IH [of "add_fragment b j d"] Cons.prems by (auto simp: add_fragment_def)
qed simp

lemma cleanup_result:
  assumes "hm_wf m"
  shows "hm_get (cleanup_stale_fragments m time) s =
    (case hm_get m s of
       Some b \<Rightarrow> if FRAGMENT_TIMEOUT < duration_since time (fb_created_at b) then None else Some b
     | None \<Rightarrow> None)"
proof -
  have del: "hm_get (foldl (\<lambda>m s. hm_delete s m) m ss) s = (if s \<in> set ss then None else hm_get m s)" for ss
    by (induction ss arbitrary: m) auto
  have mem: "s \<in> fst ` {x \<in> set m. P (snd x)} \<longleftrightarrow> (\<exists>b. hm_get m s = Some b \<and> P b)" for P
    using assms by (force simp: hm_get_def hm_wf_def image_iff dest: map_of_SomeD)
  show ?thesis
    unfolding cleanup_stale_fragments_def Let_def del
    using mem [of "\<lambda>b. FRAGMENT_TIMEOUT < duration_since time (fb_created_at b)"]
    by (auto simp: split_beta split: option.splits)
qed

section \<open>Properties\<close>

text \<open>
  C13: Reassembly does not depend on how the fragments arrive: if the arrivals, in any order and with any
  repetitions, are exactly the fragments 0 to n - 1 of a packet, the buffer is complete and reassembly returns
  their concatenation in order.
\<close>

theorem reassemble_any_order:
  fixes c :: u8 and o_flag :: bool and t :: instant
  assumes "\<forall>(i, d) \<in> set fs. d = f i" and "fst ` set fs = {i. i < n}"
  defines "b \<equiv> add_fragments (fb_new c n o_flag t) fs"
  shows "fb_is_complete b \<and> reassemble b = Some (concat (map (\<lambda>i. f (of_nat i)) [0..<unat n]))"
proof -
  have wf: "hm_wf (fb_fragments b)" and cnt: "fb_fragment_count b = n"
    and get: "hm_get (fb_fragments b) i = (if i < n then Some (f i) else None)" for i
    using add_fragments_result [OF assms(1), of "fb_new c n o_flag t"] assms(2)
    by (auto simp: b_def fb_new_def)
  have dom: "dom (hm_get (fb_fragments b)) = {i. i < n}" by (auto simp: get split: if_splits)
  have lt: "(of_nat k :: u8) < n" if "k < unat n" for k
    using that u8_range_of_nat [of n] by auto
  have "fb_is_complete b"
    unfolding fb_is_complete_def hm.len_card [OF wf] dom cnt by (rule card_u8_range)
  moreover have "reassemble b = Some (concat (map (\<lambda>i. f (of_nat i)) [0..<unat n]))"
    unfolding reassemble_result [OF wf] cnt using dom lt
    by (auto simp: get intro!: arg_cong [of _ _ concat])
  ultimately show ?thesis by blast
qed

theorem reassemble_any_order_witness:
  "reassemble (add_fragments (fb_new 0 3 True 0) [(2, [2]), (0, [0]), (2, [2]), (1, [1])]) = Some [0, 1, 2]"
proof -
  have "fst ` set [(2, [2]), (0, [0]), (2, [2]), (1, [1])] = {i :: u8. i < 3}"
  proof -
    have "{i :: u8. i < 3} = of_nat ` {0..<3}" using u8_range_of_nat [of 3] by simp
    also have "\<dots> = {0, 1, 2}" by (simp add: atLeast0_lessThan_Suc numeral_3_eq_3 insert_commute)
    finally show ?thesis by auto
  qed
  then show ?thesis
    using reassemble_any_order [of "[(2, [2]), (0, [0]), (2, [2]), (1, [1])]" "\<lambda>i. [i]" 3 0 True 0]
    by (simp add: upt_rec)
qed

text \<open>
  A fragment number at or above the announced count is accepted and counted. When such fragments make up
  the number, the buffer counts as complete, although reassembly can only fail.
\<close>

theorem foreign_fragment_blocks:
  assumes "hm_wf (fb_fragments b)" and "hm_get (fb_fragments b) i = Some d" and "fb_fragment_count b \<le> i"
  shows "reassemble b = None"
  using assms by (auto simp: reassemble_result not_less dest!: equalityD1 [THEN subsetD, of _ _ i])

theorem foreign_fragment_blocks_witness:
  "fb_is_complete (add_fragment (add_fragment (fb_new 0 2 True 0) 0 [1]) 9 [2]) \<and>
   reassemble (add_fragment (add_fragment (fb_new 0 2 True 0) 0 [1]) 9 [2]) = None"
proof -
  let ?b = "add_fragment (add_fragment (fb_new 0 2 True 0) 0 [1]) 9 [2]"
  have "hm_wf (fb_fragments ?b)" "hm_get (fb_fragments ?b) 9 = Some [2]" "fb_fragment_count ?b \<le> 9"
    by (simp_all add: add_fragment_def fb_new_def)
  from foreign_fragment_blocks [OF this] show ?thesis
    by (simp add: fb_is_complete_def add_fragment_def fb_new_def hm.len_insert)
qed

text \<open>
  The cleanup removes exactly the fragment buffers that were created more than five seconds ago and
  leaves every other as it was.
\<close>

theorem cleanup_exact:
  assumes "hm_wf m"
  shows "hm_get (cleanup_stale_fragments m time) s = Some b \<longleftrightarrow>
    hm_get m s = Some b \<and> time - fb_created_at b \<le> from_secs 5"
  using cleanup_result [OF assms, of time s]
  by (auto simp: FRAGMENT_TIMEOUT_def duration_since_def split: option.splits if_splits)

theorem cleanup_exact_witness:
  "hm_get (cleanup_stale_fragments [(7, fb_new 0 2 True 0)] (from_secs 6)) 7 = None"
proof -
  have "hm_wf [(7 :: u16, fb_new 0 2 True 0)]" by (simp add: hm_wf_def)
  from cleanup_exact [OF this, of "from_secs 6" 7] show ?thesis
    by (cases "hm_get (cleanup_stale_fragments [(7, fb_new 0 2 True 0)] (from_secs 6)) 7")
       (auto simp: hm_get_def fb_new_def from_secs_def)
qed

end
