(* ===== verification/Channel_State.thy ===== *)
theory Channel_State
  imports Hash_Map Core_Types
begin

text \<open>
  Ordering per channel (\<^verbatim>\<open>bitfold-peer/src/channel_state.rs\<close>): an ordered channel buffers packets until the missing
  ones have arrived, a sequenced channel drops old ones. The delivery loop terminates
  because every turn takes a packet out of the buffer.

  The results: an ordered channel delivers the longest gapless prefix of what has arrived, each packet
  once, whatever the order of arrival and with repetitions, as long as the numbers do not wrap; what a sequenced
  channel delivers never goes back, except to number 0.
\<close>

record channel_state =
  expected_sequence :: u16
  buffered_packets :: "(u16, shared_bytes) hmap"
  latest_sequence :: u16

definition cst_new :: channel_state where
  "cst_new = \<lparr>expected_sequence = 0, buffered_packets = hm_empty, latest_sequence = 0\<rparr>"

lemma hm_delete_decreases: "hm_get m k = Some v \<Longrightarrow> hm_len (hm_delete k m) < hm_len m"
proof (induction m)
  case (Cons x m)
  have "hm_len (hm_delete k m) \<le> hm_len m"
    by (simp add: hm_len_def hm_delete_def length_delete_le)
  then show ?case using Cons by (auto simp: hm_len_def hm_delete_def hm_get_def split: if_splits)
qed (simp add: hm_get_def)

function deliver_loop :: "channel_state \<Rightarrow> shared_bytes list \<Rightarrow> channel_state \<times> shared_bytes list" where
  "deliver_loop c ready =
     (case hm_get (buffered_packets c) (expected_sequence c) of
        Some packet_data \<Rightarrow>
          deliver_loop
            (c\<lparr>buffered_packets := hm_delete (expected_sequence c) (buffered_packets c),
               expected_sequence := expected_sequence c + 1\<rparr>)
            (ready @ [packet_data])
      | None \<Rightarrow> (c, ready))"
  by pat_completeness auto

termination deliver_loop
  by (relation "measure (\<lambda>(c, r). hm_len (buffered_packets c))") (auto intro: hm_delete_decreases)

declare deliver_loop.simps [simp del]

definition process_ordered :: "channel_state \<Rightarrow> u16 \<Rightarrow> shared_bytes \<Rightarrow> channel_state \<times> shared_bytes list" where
  "process_ordered c sequence data =
     deliver_loop (c\<lparr>buffered_packets := hm_insert sequence data (buffered_packets c)\<rparr>) []"

definition process_sequenced :: "channel_state \<Rightarrow> u16 \<Rightarrow> shared_bytes \<Rightarrow> channel_state \<times> shared_bytes option" where
  "process_sequenced c sequence data =
     (let is_newer = sequence - latest_sequence c < 32768
      in if is_newer \<or> sequence = 0 then (c\<lparr>latest_sequence := sequence\<rparr>, Some data) else (c, None))"

section \<open>Ordered delivery\<close>

text \<open>
  The state after arrivals \<open>ns\<close> of packets with contents \<open>d\<close>: the next expected number is the first missing one, and
  the buffer holds the arrivals from there on. Stale repetitions of delivered packets may be in it too.
\<close>

definition ordered_inv :: "(nat \<Rightarrow> shared_bytes) \<Rightarrow> nat set \<Rightarrow> nat \<Rightarrow> channel_state \<Rightarrow> bool" where
  "ordered_inv d N m c \<longleftrightarrow> expected_sequence c = of_nat m \<and> {0..<m} \<subseteq> N \<and>
     (\<forall>n < 65536. hm_get (buffered_packets c) (of_nat n) = (if m \<le> n \<and> n \<in> N then Some (d n) else None)
        \<or> n < m)"

lemma of_nat_u16_inj: "m < 65536 \<Longrightarrow> n < 65536 \<Longrightarrow> (of_nat m :: u16) = of_nat n \<longleftrightarrow> m = n"
  by (metis unat_of_nat_u16)

lemma deliver_loop_result:
  assumes "ordered_inv d N m c" "N \<subseteq> {0..<65535}" "m \<le> 65535"
  shows "\<exists>m' c'. deliver_loop c r = (c', r @ map d [m..<m']) \<and> m \<le> m' \<and> m' \<notin> N \<and> m' \<le> 65535 \<and>
    ordered_inv d N m' c'"
  using assms
proof (induction c r arbitrary: m rule: deliver_loop.induct)
  case (1 c r)
  let ?e = "expected_sequence c"
  have e: "?e = of_nat m" and m: "m < 65536" using "1.prems" by (simp_all add: ordered_inv_def)
  have get: "hm_get (buffered_packets c) ?e = (if m \<in> N then Some (d m) else None)"
    using "1.prems"(1) m unfolding ordered_inv_def by auto
  show ?case
  proof (cases "m \<in> N")
    case True
    let ?c = "c\<lparr>buffered_packets := hm_delete ?e (buffered_packets c), expected_sequence := ?e + 1\<rparr>"
    have "m < 65535" using True "1.prems"(2) by auto
    moreover have "ordered_inv d N (Suc m) ?c"
      using "1.prems"(1) True m unfolding ordered_inv_def e
      by (auto simp: of_nat_u16_inj less_Suc_eq add.commute)
    moreover have "hm_get (buffered_packets c) ?e = Some (d m)" using get True by simp
    ultimately obtain m' c' where
      "deliver_loop ?c (r @ [d m]) = (c', (r @ [d m]) @ map d [Suc m..<m'])" "Suc m \<le> m'" "m' \<notin> N"
      "m' \<le> 65535" "ordered_inv d N m' c'"
      using "1.IH" [of "d m" "Suc m"] "1.prems"(2) by auto
    then show ?thesis
      using get True by (intro exI [of _ m'] exI [of _ c']) (simp add: deliver_loop.simps [of c] upt_conv_Cons)
  next
    case False
    then show ?thesis
      using get "1.prems" by (intro exI [of _ m] exI [of _ c]) (simp add: deliver_loop.simps [of c])
  qed
qed

lemma process_ordered_result:
  assumes "ordered_inv d N m c" "insert n N \<subseteq> {0..<65535}" "m \<le> 65535"
  shows "\<exists>m' c'. process_ordered c (of_nat n) (d n) = (c', map d [m..<m']) \<and> m \<le> m' \<and>
    m' \<notin> insert n N \<and> m' \<le> 65535 \<and> ordered_inv d (insert n N) m' c'"
proof -
  let ?c = "c\<lparr>buffered_packets := hm_insert (of_nat n) (d n) (buffered_packets c)\<rparr>"
  have "ordered_inv d (insert n N) m ?c"
    using assms unfolding ordered_inv_def by (auto simp: of_nat_u16_inj)
  from deliver_loop_result [OF this assms(2,3), of "[]"] show ?thesis
    by (simp add: process_ordered_def)
qed

text \<open>Everything delivered while the packets \<open>ns\<close> arrive one after the other.\<close>

fun ordered_run ::
  "channel_state \<Rightarrow> (nat \<Rightarrow> shared_bytes) \<Rightarrow> nat list \<Rightarrow> shared_bytes list" where
  "ordered_run c d [] = []"
| "ordered_run c d (n # ns) =
     (case process_ordered c (of_nat n) (d n) of (c', out) \<Rightarrow> out @ ordered_run c' d ns)"

lemma ordered_run_result:
  assumes "ordered_inv d N m c" "m \<notin> N" "N \<union> set ns \<subseteq> {0..<65535}" "m \<le> 65535"
  shows "\<exists>m'. ordered_run c d ns = map d [m..<m'] \<and> m \<le> m' \<and> m' \<notin> N \<union> set ns \<and> {0..<m'} \<subseteq> N \<union> set ns"
  using assms
proof (induction ns arbitrary: c N m)
  case Nil
  then show ?case by (intro exI [of _ m]) (simp add: ordered_inv_def)
next
  case (Cons n ns)
  obtain m1 c1 where p: "process_ordered c (of_nat n) (d n) = (c1, map d [m..<m1])" "m \<le> m1"
      "m1 \<notin> insert n N" "m1 \<le> 65535" "ordered_inv d (insert n N) m1 c1"
    using process_ordered_result [OF Cons.prems(1), of n] Cons.prems(3,4) by auto
  obtain m2 where r: "ordered_run c1 d ns = map d [m1..<m2]" "m1 \<le> m2" "m2 \<notin> insert n N \<union> set ns"
      "{0..<m2} \<subseteq> insert n N \<union> set ns"
    using Cons.IH [OF p(5,3) _ p(4)] Cons.prems(3) by auto
  have "map d [m..<m1] @ map d [m1..<m2] = map d [m..<m2]"
    using p(2) r(2) by (metis map_append le_Suc_ex upt_add_eq_append)
  then show ?case
    using p r by (intro exI [of _ m2]) auto
qed

section \<open>Properties\<close>

text \<open>
  C14: An ordered channel delivers in order, without gap and without repetition. Whatever the order in which packets
  numbered below 65535 arrive, and however often each arrives, the packets delivered are exactly those from 0
  up to the first number that has not arrived.
\<close>

theorem ordered_delivery:
  assumes "set ns \<subseteq> {0..<65535}"
  shows "\<exists>m. ordered_run cst_new d ns = map d [0..<m] \<and> m \<notin> set ns \<and> {0..<m} \<subseteq> set ns"
proof -
  have "ordered_inv d {} 0 cst_new" by (simp add: ordered_inv_def cst_new_def)
  from ordered_run_result [OF this, of ns] show ?thesis using assms by auto
qed

theorem ordered_delivery_witness:
  "ordered_run cst_new (\<lambda>n. sb_from_vec [of_nat n]) [1, 0, 0, 3, 2] =
     map (\<lambda>n. sb_from_vec [of_nat n]) [0..<4]"
proof -
  obtain m where m: "ordered_run cst_new (\<lambda>n. sb_from_vec [of_nat n]) [1, 0, 0, 3, 2] =
      map (\<lambda>n. sb_from_vec [of_nat n]) [0..<m]" "m \<notin> set [1, 0, 0, 3, 2]" "{0..<m} \<subseteq> set [1, 0, 0, 3, 2]"
    using ordered_delivery [of "[1, 0, 0, 3, 2]" "\<lambda>n. sb_from_vec [of_nat n]"] by auto
  have "\<not> 4 < m" using m(3) by auto
  moreover have "m \<noteq> 0" "m \<noteq> 1" "m \<noteq> 2" "m \<noteq> 3" using m(2) by auto
  ultimately have "m = 4" by linarith
  then show ?thesis using m(1) by simp
qed

text \<open>
  A packet that arrives again after it was delivered is not dropped: it is put in the buffer and stays there, to be
  delivered when the expected number comes round to it after 65536 packets.
\<close>

theorem ordered_keeps_stale_duplicate:
  assumes "s \<noteq> expected_sequence c" "hm_get (buffered_packets c) (expected_sequence c) = None"
  shows "process_ordered c s data = (c\<lparr>buffered_packets := hm_insert s data (buffered_packets c)\<rparr>, [])"
  using assms by (simp add: process_ordered_def deliver_loop.simps)

theorem ordered_keeps_stale_duplicate_witness:
  "hm_get (buffered_packets (fst (process_ordered (cst_new\<lparr>expected_sequence := 5\<rparr>) 3 (sb_from_vec [9])))) 3
     = Some (sb_from_vec [9])"
  using ordered_keeps_stale_duplicate [of 3 "cst_new\<lparr>expected_sequence := 5\<rparr>" "sb_from_vec [9]"]
  by (simp add: cst_new_def)

text \<open>
  A sequenced channel delivers a packet iff its number is 0 or is ahead of the latest one by less than half the
  number space, and then records it as the latest. In particular number 0 is always delivered, however old,
  and the latest number is delivered again when it is repeated.
\<close>

theorem sequenced_delivery:
  "process_sequenced c s data =
     (if unat (s - latest_sequence c) < 32768 \<or> s = 0 then (c\<lparr>latest_sequence := s\<rparr>, Some data) else (c, None)) \<and>
   process_sequenced c 0 data = (c\<lparr>latest_sequence := 0\<rparr>, Some data) \<and>
   snd (process_sequenced c (latest_sequence c) data) = Some data"
  by (simp add: process_sequenced_def word_less_nat_alt)

end
