(* ===== verification/Commands.thy ===== *)
theory Commands
  imports Core_Types
begin

text \<open>
  Protocol commands (\<^verbatim>\<open>bitfold-protocol/src/command.rs\<close>): everything two peers say to each other
  is one of these sixteen commands, and a datagram carries a list of them.
\<close>

datatype protocol_command =
    SendReliable (sr_channel: u8) (sr_sequence: u16) (sr_ordered: bool) (sr_data: shared_bytes)
  | SendUnreliable u8 shared_bytes
  | SendUnreliableSequenced u8 u16 shared_bytes
  | SendUnsequenced u8 u16 shared_bytes
  | SendFragment u8 u16 bool u8 u8 shared_bytes
  | SendUnreliableFragment u8 u16 u8 u8 shared_bytes
  | Acknowledge u16 u32 "u32 option"
  | Ping u32
  | Pong u32
  | Connect u8 u16 u16 u16 u32
  | VerifyConnect u16 u8 u16 u16 u16 u32
  | Disconnect u32
  | BandwidthLimit u32 u32
  | ThrottleConfigure u32 u32 u32
  | PMTUProbe u16 u32 shared_bytes
  | PMTUReply u16 u32

fun command_type :: "protocol_command \<Rightarrow> u8" where
  "command_type (SendReliable _ _ _ _) = 1"
| "command_type (SendUnreliable _ _) = 2"
| "command_type (SendUnreliableSequenced _ _ _) = 3"
| "command_type (SendUnsequenced _ _ _) = 4"
| "command_type (SendFragment _ _ _ _ _ _) = 5"
| "command_type (SendUnreliableFragment _ _ _ _ _) = 6"
| "command_type (Acknowledge _ _ _) = 7"
| "command_type (Ping _) = 8"
| "command_type (Pong _) = 9"
| "command_type (Connect _ _ _ _ _) = 10"
| "command_type (VerifyConnect _ _ _ _ _ _) = 11"
| "command_type (Disconnect _) = 12"
| "command_type (BandwidthLimit _ _) = 13"
| "command_type (ThrottleConfigure _ _ _) = 14"
| "command_type (PMTUProbe _ _ _) = 15"
| "command_type (PMTUReply _ _) = 16"

fun is_reliable :: "protocol_command \<Rightarrow> bool" where
  "is_reliable (SendReliable _ _ _ _) = True"
| "is_reliable (SendFragment _ _ _ _ _ _) = True"
| "is_reliable (Connect _ _ _ _ _) = True"
| "is_reliable (VerifyConnect _ _ _ _ _ _) = True"
| "is_reliable (Disconnect _) = True"
| "is_reliable _ = False"

fun command_channel_id :: "protocol_command \<Rightarrow> u8 option" where
  "command_channel_id (SendReliable c _ _ _) = Some c"
| "command_channel_id (SendUnreliable c _) = Some c"
| "command_channel_id (SendUnreliableSequenced c _ _) = Some c"
| "command_channel_id (SendUnsequenced c _ _) = Some c"
| "command_channel_id (SendFragment c _ _ _ _ _) = Some c"
| "command_channel_id (SendUnreliableFragment c _ _ _ _) = Some c"
| "command_channel_id _ = None"

text \<open>The timestamp of a command packet is set and never read; the packet is its commands.\<close>

type_synonym command_packet = "protocol_command list"

definition cpk_new :: command_packet where
  "cpk_new = []"

definition cpk_single :: "protocol_command \<Rightarrow> command_packet" where
  "cpk_single c = [c]"

definition add_command :: "command_packet \<Rightarrow> protocol_command \<Rightarrow> command_packet" where
  "add_command p c = p @ [c]"

definition cpk_is_empty :: "command_packet \<Rightarrow> bool" where
  "cpk_is_empty p \<longleftrightarrow> p = []"

definition cpk_len :: "command_packet \<Rightarrow> usize" where
  "cpk_len p = length p"

section \<open>Payloads of commands\<close>

text \<open>The payload of a command, when it has one.\<close>

fun command_payload :: "protocol_command \<Rightarrow> shared_bytes option" where
  "command_payload (SendReliable _ _ _ d) = Some d"
| "command_payload (SendUnreliable _ d) = Some d"
| "command_payload (SendUnreliableSequenced _ _ d) = Some d"
| "command_payload (SendUnsequenced _ _ d) = Some d"
| "command_payload (SendFragment _ _ _ _ _ d) = Some d"
| "command_payload (SendUnreliableFragment _ _ _ _ d) = Some d"
| "command_payload (PMTUProbe _ _ d) = Some d"
| "command_payload _ = None"

text \<open>A command that can be sent: its payload is a valid view whose length fits 16 bits.\<close>

definition command_wf :: "protocol_command \<Rightarrow> bool" where
  "command_wf c \<longleftrightarrow> (case command_payload c of None \<Rightarrow> True | Some d \<Rightarrow> sb_wf d \<and> sb_len d < 65536)"

text \<open>
  The same command with its payload as a buffer of its own. A payload that is a view into a
  larger buffer is not equal to the decoded copy of it (\<^verbatim>\<open>PartialEq\<close> compares buffer, start and
  length), so a round trip returns \<open>owned c\<close>.
\<close>

definition sb_owned :: "shared_bytes \<Rightarrow> shared_bytes" where
  "sb_owned d = sb_from_vec (sb_as_slice d)"

fun owned :: "protocol_command \<Rightarrow> protocol_command" where
  "owned (SendReliable c s r d) = SendReliable c s r (sb_owned d)"
| "owned (SendUnreliable c d) = SendUnreliable c (sb_owned d)"
| "owned (SendUnreliableSequenced c s d) = SendUnreliableSequenced c s (sb_owned d)"
| "owned (SendUnsequenced c g d) = SendUnsequenced c g (sb_owned d)"
| "owned (SendFragment c s r i n d) = SendFragment c s r i n (sb_owned d)"
| "owned (SendUnreliableFragment c s i n d) = SendUnreliableFragment c s i n (sb_owned d)"
| "owned (PMTUProbe s t d) = PMTUProbe s t (sb_owned d)"
| "owned c = c"

lemma sb_owned_from_vec [simp]: "sb_owned (sb_from_vec v) = sb_from_vec v"
  by (simp add: sb_owned_def)

lemma sb_owned_idem [simp]: "sb_owned (sb_owned d) = sb_owned d"
  by (simp add: sb_owned_def)

lemma owned_idem: "owned (owned c) = owned c"
  by (cases c) simp_all

end
