(* ===== verification/Command_Queue.thy ===== *)
theory Command_Queue
  imports Commands
begin

text \<open>
  The queue of commands to send (\<^verbatim>\<open>bitfold-peer/src/command_queue.rs\<close>): first in, first out, with a size at
  which the caller is told to flush. The locale \<open>fifo\<close> is the contract the peer relies on.
\<close>

record command_queue =
  cq_commands :: "protocol_command list"
  cq_max_queue_size :: usize

definition cq_new :: "usize \<Rightarrow> command_queue" where
  "cq_new capacity = \<lparr>cq_commands = [], cq_max_queue_size = capacity\<rparr>"

definition cq_enqueue :: "command_queue \<Rightarrow> protocol_command \<Rightarrow> command_queue \<times> bool" where
  "cq_enqueue q command =
     (let q = q\<lparr>cq_commands := cq_commands q @ [command]\<rparr>
      in (q, length (cq_commands q) \<ge> cq_max_queue_size q))"

definition cq_len :: "command_queue \<Rightarrow> usize" where
  "cq_len q = length (cq_commands q)"

definition cq_is_empty :: "command_queue \<Rightarrow> bool" where
  "cq_is_empty q \<longleftrightarrow> cq_commands q = []"

definition cq_drain :: "command_queue \<Rightarrow> command_queue \<times> protocol_command list" where
  "cq_drain q = (q\<lparr>cq_commands := []\<rparr>, cq_commands q)"

definition cq_clear :: "command_queue \<Rightarrow> command_queue" where
  "cq_clear q = q\<lparr>cq_commands := []\<rparr>"

definition cq_default :: command_queue where
  "cq_default = cq_new 256"

section \<open>The contract\<close>

locale fifo =
  fixes empty :: "'q"
    and enqueue :: "'q \<Rightarrow> 'c \<Rightarrow> 'q"
    and drain :: "'q \<Rightarrow> 'q \<times> 'c list"
    and contents :: "'q \<Rightarrow> 'c list"
  assumes contents_empty: "contents empty = []"
    and contents_enqueue: "contents (enqueue q c) = contents q @ [c]"
    and drain_contents: "snd (drain q) = contents q"
    and contents_drain: "contents (fst (drain q)) = []"
begin

lemma contents_enqueue_all: "contents (foldl enqueue q cs) = contents q @ cs"
  by (induction cs arbitrary: q) (simp_all add: contents_enqueue)

lemma drain_enqueue_all: "snd (drain (foldl enqueue empty cs)) = cs"
  by (simp add: drain_contents contents_enqueue_all contents_empty)

lemma drain_twice: "snd (drain (fst (drain q))) = []"
  by (simp add: drain_contents contents_drain)

end

interpretation cq: fifo "cq_new n" "\<lambda>q c. fst (cq_enqueue q c)" cq_drain cq_commands
  by unfold_locales (simp_all add: cq_new_def cq_enqueue_def cq_drain_def Let_def)

end
