(* ===== verification/Pmtu.thy ===== *)
theory Pmtu
  imports Commands
begin

text \<open>
  Path MTU discovery (\<^verbatim>\<open>bitfold-peer/src/pmtu_discovery.rs\<close>): a binary search for the largest datagram
  that reaches the peer. The random token and the random payload of a probe are arguments;
  \<open>fill n\<close> stands for \<open>n\<close> random bytes.

  The main result is that the search is correct: when exactly the datagrams up to the path MTU are answered,
  it converges to the path MTU up to the configured threshold.
\<close>

record pmtu_discovery =
  pm_config :: config
  pm_fragment_size :: u16
  pm_low :: u16
  pm_high :: u16
  pm_last_probe :: instant
  pm_outstanding :: "(u16 \<times> u32 \<times> instant) option"

definition pm_new :: "config \<Rightarrow> instant \<Rightarrow> pmtu_discovery" where
  "pm_new config time = \<lparr>pm_config = config, pm_fragment_size = fragment_size config,
     pm_low = pmtu_min config, pm_high = pmtu_max config, pm_last_probe = time, pm_outstanding = None\<rparr>"

definition current_fragment_size :: "pmtu_discovery \<Rightarrow> u16" where
  "current_fragment_size p = pm_fragment_size p"

definition set_fragment_size :: "pmtu_discovery \<Rightarrow> u16 \<Rightarrow> pmtu_discovery" where
  "set_fragment_size p n = p\<lparr>pm_fragment_size := n\<rparr>"

definition has_outstanding_probe :: "pmtu_discovery \<Rightarrow> bool" where
  "has_outstanding_probe p \<longleftrightarrow> pm_outstanding p \<noteq> None"

definition probe_overhead :: "config \<Rightarrow> nat" where
  "probe_overhead config = per_packet_overhead config + (2 + (1 + 2 + 4 + 2))"

definition probe_payload_len :: "config \<Rightarrow> u16 \<Rightarrow> nat" where
  "probe_payload_len config target =
     (if unat target > probe_overhead config then max (unat target - probe_overhead config) 1 else 1)"

definition datagram_cap :: "config \<Rightarrow> u16" where
  "datagram_cap config = of_nat (min (receive_buffer_max_size config) 65535)"

definition handle_pmtu ::
  "pmtu_discovery \<Rightarrow> instant \<Rightarrow> duration \<Rightarrow> u32 \<Rightarrow> (nat \<Rightarrow> bytes) \<Rightarrow> pmtu_discovery \<times> protocol_command option" where
  "handle_pmtu p time rto token fill =
     (if \<not> use_pmtu_discovery (pm_config p) then (p, None)
      else case pm_outstanding p of
        Some (probed, _, sent) \<Rightarrow>
          (let timeout = max rto (from_millis 200)
           in if duration_since time sent > timeout
              then let p = (if probed > 0 then p\<lparr>pm_high := min (pm_high p) (probed - 1)\<rparr> else p)
                   in (p\<lparr>pm_outstanding := None, pm_last_probe := time\<rparr>, None)
              else (p, None))
      | None \<Rightarrow>
          (let cap = datagram_cap (pm_config p);
               p = (if pm_high p > cap then p\<lparr>pm_high := cap\<rparr> else p)
           in if saturating_sub (pm_high p) (pm_low p) \<le> pmtu_converge_threshold (pm_config p)
              then (p\<lparr>pm_fragment_size := pm_low p\<rparr>, None)
              else if duration_since time (pm_last_probe p) < from_millis (unat (pmtu_interval_ms (pm_config p)))
              then (p, None)
              else let mid = of_nat ((unat (pm_low p) + unat (pm_high p)) div 2);
                       target = min mid cap;
                       payload = sb_from_vec (fill (probe_payload_len (pm_config p) target));
                       command = PMTUProbe target token payload
                   in (p\<lparr>pm_outstanding := Some (mid, token, time), pm_last_probe := time\<rparr>, Some command)))"

definition process_reply :: "pmtu_discovery \<Rightarrow> u16 \<Rightarrow> u32 \<Rightarrow> instant \<Rightarrow> pmtu_discovery \<times> bool" where
  "process_reply p replied token time =
     (case pm_outstanding p of
        Some (_, pending_token, _) \<Rightarrow>
          if pending_token = token
          then let p = p\<lparr>pm_low := max (pm_low p) replied\<rparr>;
                   p = p\<lparr>pm_fragment_size := pm_low p\<rparr>
               in (p\<lparr>pm_outstanding := None, pm_last_probe := time\<rparr>, True)
          else (p, False)
      | None \<Rightarrow> (p, False))"

definition create_reply :: "u16 \<Rightarrow> u32 \<Rightarrow> protocol_command" where
  "create_reply replied token = PMTUReply replied token"

section \<open>One probe\<close>

text \<open>
  The search bounds \<open>low \<le> high\<close>, a datagram of \<open>high\<close> bytes can be received, and no probe is
  under way.
\<close>

definition pm_searching :: "pmtu_discovery \<Rightarrow> bool" where
  "pm_searching p \<longleftrightarrow> use_pmtu_discovery (pm_config p) \<and> pm_outstanding p = None \<and>
     pm_low p \<le> pm_high p \<and> unat (pm_high p) \<le> receive_buffer_max_size (pm_config p)"

definition pm_gap :: "pmtu_discovery \<Rightarrow> nat" where
  "pm_gap p = unat (pm_high p) - unat (pm_low p)"

definition pm_mid :: "pmtu_discovery \<Rightarrow> nat" where
  "pm_mid p = (unat (pm_low p) + unat (pm_high p)) div 2"

lemma unat_max_u16: "unat (max a b :: u16) = max (unat a) (unat b)"
  by (simp add: max_def word_le_nat_alt)

lemma unat_min_u16: "unat (min a b :: u16) = min (unat a) (unat b)"
  by (simp add: min_def word_le_nat_alt)

lemma pm_mid_bounds:
  assumes "pm_searching p"
  shows "unat (of_nat (pm_mid p) :: u16) = pm_mid p" "unat (pm_low p) \<le> pm_mid p" "pm_mid p \<le> unat (pm_high p)"
proof -
  have "unat (pm_low p) \<le> unat (pm_high p)" using assms by (simp add: pm_searching_def word_le_nat_alt)
  then show le: "unat (pm_low p) \<le> pm_mid p" "pm_mid p \<le> unat (pm_high p)" by (simp_all add: pm_mid_def)
  show "unat (of_nat (pm_mid p) :: u16) = pm_mid p"
    using le(2) unat_u16_bound [of "pm_high p"] by (intro unat_of_nat_u16) simp
qed

lemma handle_pmtu_searching:
  assumes s: "pm_searching p" and due: "from_millis (unat (pmtu_interval_ms (pm_config p))) \<le> duration_since time (pm_last_probe p)"
  shows "handle_pmtu p time rto token fill =
    (if pm_gap p \<le> unat (pmtu_converge_threshold (pm_config p)) then (p\<lparr>pm_fragment_size := pm_low p\<rparr>, None)
     else (p\<lparr>pm_outstanding := Some (of_nat (pm_mid p), token, time), pm_last_probe := time\<rparr>,
           Some (PMTUProbe (of_nat (pm_mid p)) token
             (sb_from_vec (fill (probe_payload_len (pm_config p) (of_nat (pm_mid p))))))))"
proof -
  let ?cap = "datagram_cap (pm_config p)"
  have cap: "unat ?cap = min (receive_buffer_max_size (pm_config p)) 65535"
    unfolding datagram_cap_def by (intro unat_of_nat_u16) simp
  have hi: "unat (pm_high p) \<le> unat ?cap"
    unfolding cap using s unat_u16_bound [of "pm_high p"] by (simp add: pm_searching_def)
  have c1: "\<not> ?cap < pm_high p" using hi by (simp add: word_less_nat_alt)
  have c2: "min (of_nat (pm_mid p)) ?cap = of_nat (pm_mid p)"
    using hi pm_mid_bounds [OF s] by (simp add: min_def word_le_nat_alt)
  have c3: "saturating_sub (pm_high p) (pm_low p) \<le> t \<longleftrightarrow> pm_gap p \<le> unat t" for t
    by (simp add: word_le_nat_alt unat_saturating_sub pm_gap_def)
  show ?thesis
    using s due c1 c2 c3 by (auto simp: handle_pmtu_def pm_searching_def Let_def pm_mid_def)
qed

section \<open>The search\<close>

text \<open>
  One round over a path that delivers exactly the datagrams of at most \<open>mtu\<close> bytes: the probe is sent when
  it is due; if it fits, the peer's reply is processed, otherwise it times out.
\<close>

definition pmtu_round ::
  "nat \<Rightarrow> duration \<Rightarrow> (nat \<Rightarrow> u32) \<Rightarrow> (nat \<Rightarrow> bytes) \<Rightarrow> nat \<Rightarrow> pmtu_discovery \<Rightarrow> pmtu_discovery" where
  "pmtu_round mtu rto tokens fill k p =
     (let t = pm_last_probe p + from_millis (unat (pmtu_interval_ms (pm_config p)))
      in case handle_pmtu p t rto (tokens k) fill of
           (p', Some (PMTUProbe target token _)) \<Rightarrow>
             (if unat target \<le> mtu
              then case create_reply target token of
                     PMTUReply s tok \<Rightarrow> fst (process_reply p' s tok t) | _ \<Rightarrow> p'
              else fst (handle_pmtu p' (t + max rto (from_millis 200) + 1) rto (tokens k) fill))
         | (p', _) \<Rightarrow> p')"

fun pmtu_rounds ::
  "nat \<Rightarrow> duration \<Rightarrow> (nat \<Rightarrow> u32) \<Rightarrow> (nat \<Rightarrow> bytes) \<Rightarrow> nat \<Rightarrow> pmtu_discovery \<Rightarrow> pmtu_discovery" where
  "pmtu_rounds mtu rto tokens fill 0 p = p"
| "pmtu_rounds mtu rto tokens fill (Suc k) p = pmtu_rounds mtu rto tokens fill k (pmtu_round mtu rto tokens fill k p)"

lemma pmtu_round_result:
  fixes mtu k :: nat and rto :: duration and tokens :: "nat \<Rightarrow> u32" and fill :: "nat \<Rightarrow> bytes"
  assumes s: "pm_searching p"
  defines "p' \<equiv> pmtu_round mtu rto tokens fill k p"
  shows "if pm_gap p \<le> unat (pmtu_converge_threshold (pm_config p)) then p' = p\<lparr>pm_fragment_size := pm_low p\<rparr>
    else pm_config p' = pm_config p \<and> pm_outstanding p' = None \<and>
      (if pm_mid p \<le> mtu then unat (pm_low p') = pm_mid p \<and> pm_high p' = pm_high p
       else pm_low p' = pm_low p \<and> unat (pm_high p') = pm_mid p - 1)"
proof -
  let ?t = "pm_last_probe p + from_millis (unat (pmtu_interval_ms (pm_config p)))"
  have due: "from_millis (unat (pmtu_interval_ms (pm_config p))) \<le> duration_since ?t (pm_last_probe p)"
    by (simp add: duration_since_def)
  note h = handle_pmtu_searching [OF s due]
  note mid = pm_mid_bounds [OF s]
  show ?thesis
  proof (cases "pm_gap p \<le> unat (pmtu_converge_threshold (pm_config p))")
    case True
    then show ?thesis by (simp add: p'_def pmtu_round_def Let_def h)
  next
    case False
    have le: "max (pm_low p) (of_nat (pm_mid p)) = of_nat (pm_mid p)"
      using mid by (simp add: max_def word_le_nat_alt)
    show ?thesis
    proof (cases "pm_mid p \<le> mtu")
      case True
      then show ?thesis using False mid le
        by (simp add: p'_def pmtu_round_def Let_def h create_reply_def process_reply_def)
    next
      case big: False
      then have pos: "0 < (of_nat (pm_mid p) :: u16)" using mid(1) by (simp add: word_less_nat_alt)
      then have m1: "unat (of_nat (pm_mid p) - 1 :: u16) = pm_mid p - 1"
        using mid(1) by (simp add: unat_sub word_le_nat_alt word_less_nat_alt)
      have use: "use_pmtu_discovery (pm_config p)" using s by (simp add: pm_searching_def)
      show ?thesis using False big mid pos m1 use
        by (simp add: p'_def pmtu_round_def Let_def h handle_pmtu_def [of "p\<lparr>pm_outstanding := _, pm_last_probe := _\<rparr>"]
            duration_since_def unat_min_u16 less_Suc_eq_le)
    qed
  qed
qed

text \<open>The path MTU lies between the bounds; every round that is not the last halves the gap.\<close>

definition pm_brackets :: "nat \<Rightarrow> pmtu_discovery \<Rightarrow> bool" where
  "pm_brackets mtu p \<longleftrightarrow> pm_searching p \<and> unat (pm_low p) \<le> mtu \<and> mtu \<le> unat (pm_high p)"

lemma pmtu_round_brackets:
  fixes mtu k :: nat and rto :: duration and tokens :: "nat \<Rightarrow> u32" and fill :: "nat \<Rightarrow> bytes"
  assumes b: "pm_brackets mtu p"
  defines "p' \<equiv> pmtu_round mtu rto tokens fill k p"
  shows "pm_brackets mtu p' \<and> pm_config p' = pm_config p \<and>
    (pm_gap p' \<le> unat (pmtu_converge_threshold (pm_config p)) \<or> 2 * pm_gap p' \<le> pm_gap p + 1)"
proof -
  have s: "pm_searching p" using b by (simp add: pm_brackets_def)
  note r = pmtu_round_result [OF s, of mtu rto tokens fill k, folded p'_def]
  note mid = pm_mid_bounds [OF s]
  show ?thesis
  proof (cases "pm_gap p \<le> unat (pmtu_converge_threshold (pm_config p))")
    case True
    then have "p' = p\<lparr>pm_fragment_size := pm_low p\<rparr>" using r by simp
    then show ?thesis using True b by (simp add: pm_brackets_def pm_searching_def pm_gap_def)
  next
    case False
    show ?thesis
    proof (cases "pm_mid p \<le> mtu")
      case True
      then have p': "pm_config p' = pm_config p" "pm_outstanding p' = None" "unat (pm_low p') = pm_mid p"
          "pm_high p' = pm_high p" using r False by simp_all
      have "2 * (unat (pm_high p) - pm_mid p) \<le> unat (pm_high p) - unat (pm_low p) + 1"
        using mid unfolding pm_mid_def by linarith
      then show ?thesis using True b mid p'
        by (auto simp: pm_brackets_def pm_searching_def pm_gap_def word_le_nat_alt)
    next
      case big: False
      then have p': "pm_config p' = pm_config p" "pm_outstanding p' = None" "pm_low p' = pm_low p"
          "unat (pm_high p') = pm_mid p - 1" using r False by simp_all
      have "2 * (pm_mid p - 1 - unat (pm_low p)) \<le> unat (pm_high p) - unat (pm_low p) + 1"
        using mid unfolding pm_mid_def by linarith
      moreover have "unat (pm_low p) \<le> pm_mid p - 1" "mtu \<le> pm_mid p - 1"
        using big b by (auto simp: pm_brackets_def)
      ultimately show ?thesis using b mid p'
        by (auto simp: pm_brackets_def pm_searching_def pm_gap_def word_le_nat_alt)
    qed
  qed
qed

lemma pmtu_rounds_converge:
  assumes "pm_brackets mtu p" "1 \<le> unat (pmtu_converge_threshold (pm_config p))"
    and "pm_gap p \<le> unat (pmtu_converge_threshold (pm_config p)) \<or> pm_gap p \<le> 2 ^ n"
  shows "pm_brackets mtu (pmtu_rounds mtu rto tokens fill n p) \<and>
    pm_config (pmtu_rounds mtu rto tokens fill n p) = pm_config p \<and>
    pm_gap (pmtu_rounds mtu rto tokens fill n p) \<le> unat (pmtu_converge_threshold (pm_config p))"
  using assms
proof (induction n arbitrary: p)
  case (Suc n)
  let ?p = "pmtu_round mtu rto tokens fill n p"
  have step: "pm_brackets mtu ?p" "pm_config ?p = pm_config p"
      "pm_gap ?p \<le> unat (pmtu_converge_threshold (pm_config p)) \<or> 2 * pm_gap ?p \<le> pm_gap p + 1"
    using pmtu_round_brackets [OF Suc.prems(1), of rto tokens fill n] by simp_all
  have "pm_gap ?p \<le> unat (pmtu_converge_threshold (pm_config p)) \<or> pm_gap ?p \<le> 2 ^ n"
    using step(3) Suc.prems(2,3) by auto
  then show ?case using Suc.IH [of ?p] step Suc.prems(2) by simp
qed auto

section \<open>Properties\<close>

text \<open>
  C18: The search finds the path MTU. When the path delivers exactly the datagrams of at most \<open>mtu\<close> bytes,
  \<open>mtu\<close> lies in the configured range, the range can be received and the threshold is positive, then
  after at most 16 probes, each answered or timed out, and one further call, the fragment size is at most the path
  MTU and misses it by at most the threshold.
\<close>

theorem pmtu_search_correct:
  fixes tokens :: "nat \<Rightarrow> u32" and fill :: "nat \<Rightarrow> bytes" and rto :: duration and start :: instant
  assumes "use_pmtu_discovery c" "unat (pmtu_min c) \<le> mtu" "mtu \<le> unat (pmtu_max c)"
    and "unat (pmtu_max c) \<le> receive_buffer_max_size c" "0 < pmtu_converge_threshold c"
  defines "p \<equiv> pmtu_round mtu rto tokens fill 0 (pmtu_rounds mtu rto tokens fill 16 (pm_new c start))"
  shows "unat (current_fragment_size p) \<le> mtu \<and>
         mtu \<le> unat (current_fragment_size p) + unat (pmtu_converge_threshold c)"
proof -
  let ?q = "pmtu_rounds mtu rto tokens fill 16 (pm_new c start)"
  have "pm_brackets mtu (pm_new c start)"
    using assms(1-4) by (simp add: pm_brackets_def pm_searching_def pm_new_def word_le_nat_alt)
  moreover have "1 \<le> unat (pmtu_converge_threshold (pm_config (pm_new c start)))"
    using assms(5) by (simp add: pm_new_def word_less_nat_alt)
  moreover have "pm_gap (pm_new c start) \<le> 2 ^ 16"
    using unat_u16_bound [of "pmtu_max c"] by (simp add: pm_gap_def pm_new_def)
  ultimately have q: "pm_brackets mtu ?q" "pm_config ?q = c" "pm_gap ?q \<le> unat (pmtu_converge_threshold c)"
    using pmtu_rounds_converge [of mtu "pm_new c start" 16 rto tokens fill] by (simp_all add: pm_new_def)
  then have "p = ?q\<lparr>pm_fragment_size := pm_low ?q\<rparr>"
    using pmtu_round_result [of ?q mtu rto tokens fill 0] by (simp add: p_def pm_brackets_def)
  then show ?thesis
    using q by (auto simp: current_fragment_size_def pm_brackets_def pm_gap_def)
qed

theorem pmtu_search_correct_witness:
  "let p = pmtu_round 1280 0 of_nat (\<lambda>n. replicate n 0) 0
             (pmtu_rounds 1280 0 of_nat (\<lambda>n. replicate n 0) 16 (pm_new default_config 0))
   in unat (current_fragment_size p) \<le> 1280 \<and> 1280 \<le> unat (current_fragment_size p) + 64"
  using pmtu_search_correct [of default_config 1280 0 of_nat "\<lambda>n. replicate n 0" 0]
  by (simp add: default_config_def DEFAULT_MTU_def Let_def)

text \<open>
  The size in a reply is trusted: any reply with the token of the outstanding probe raises the lower bound
  and the fragment size to the size it names, even above the upper bound and above the probed size.
\<close>

theorem pmtu_reply_trusted:
  assumes "pm_outstanding p = Some (probed, token, sent)" "pm_low p \<le> n"
  shows "pm_low (fst (process_reply p n token time)) = n \<and>
         current_fragment_size (fst (process_reply p n token time)) = n \<and>
         pm_high (fst (process_reply p n token time)) = pm_high p \<and> snd (process_reply p n token time)"
  using assms by (simp add: process_reply_def current_fragment_size_def max_def)

theorem pmtu_reply_trusted_witness:
  "current_fragment_size (fst (process_reply
      ((pm_new default_config 0)\<lparr>pm_outstanding := Some (988, 7, 0)\<rparr>) 65535 7 1)) = 65535"
  using pmtu_reply_trusted [of "(pm_new default_config 0)\<lparr>pm_outstanding := Some (988, 7, 0)\<rparr>" 988 7 0 65535 1]
  by (simp add: pm_new_def default_config_def word_le_nat_alt)

end
