(* ===== verification/Peer.thy ===== *)
theory Peer
  imports Packet_Pool Acknowledgment Bandwidth Flow_Control Unsequenced_Window Fragments Channel_State
    Command_Queue Pmtu
begin

text \<open>
  A remote peer (\<^verbatim>\<open>bitfold-peer/src/peer/mod.rs\<close>, \<^verbatim>\<open>peer_state.rs\<close>, \<^verbatim>\<open>statistics.rs\<close>): the state of one connection, its
  state machine, and the queue through which every outgoing command passes. The other
  components of a peer are the theories imported here; fragmentation, encoding and the command processor follow in
  \<open>Peer_Fragmenter\<close>, \<open>Peer_Encoder\<close> and \<open>Peer_Processor\<close>.

  The 64-bit statistics counters are natural numbers. The four sequence fields marked as dead code in the source
  are left out. Random values and the clock reading of the acknowledgment handler are arguments of \<open>peer_new\<close>.
\<close>

section \<open>Connection state\<close>

datatype peer_state =
    Idle | Connecting | AcknowledgingConnect | ConnectionSucceeded | Connected | Disconnecting | Zombie

definition is_active :: "peer_state \<Rightarrow> bool" where
  "is_active s \<longleftrightarrow> s \<in> {Connected, ConnectionSucceeded, AcknowledgingConnect, Connecting}"

definition state_is_established :: "peer_state \<Rightarrow> bool" where
  "state_is_established s \<longleftrightarrow> s \<in> {Connected, ConnectionSucceeded}"

definition is_disconnecting :: "peer_state \<Rightarrow> bool" where
  "is_disconnecting s \<longleftrightarrow> s \<in> {Disconnecting, Zombie}"

definition is_connecting :: "peer_state \<Rightarrow> bool" where
  "is_connecting s \<longleftrightarrow> s \<in> {Connecting, AcknowledgingConnect, ConnectionSucceeded}"

section \<open>Statistics\<close>

record peer_statistics =
  st_packets_sent :: nat
  st_packets_received :: nat
  st_packets_lost :: nat
  st_bytes_sent :: nat
  st_bytes_received :: nat

definition st_default :: peer_statistics where
  "st_default = \<lparr>st_packets_sent = 0, st_packets_received = 0, st_packets_lost = 0, st_bytes_sent = 0,
     st_bytes_received = 0\<rparr>"

definition packet_loss_rate :: "peer_statistics \<Rightarrow> f32" where
  "packet_loss_rate s =
     (if st_packets_sent s = 0 then Fin 0
      else f32_div (f32_of_nat (st_packets_lost s)) (f32_of_nat (st_packets_sent s)))"

definition st_reset :: "peer_statistics \<Rightarrow> peer_statistics" where
  "st_reset s = st_default"

section \<open>The peer\<close>

record peer =
  p_last_heard :: instant
  p_last_sent :: instant
  p_remote_address :: socket_addr
  p_state :: peer_state
  p_peer_id :: u16
  p_incoming_session_id :: u16
  p_outgoing_session_id :: u16
  p_connect_id :: u32
  p_next_unreliable_sequence :: u16
  p_unsequenced_state :: unsequenced_state
  p_acknowledge_handler :: acknowledgment_handler
  p_config :: config
  p_command_queue :: command_queue
  p_total_waiting_data :: usize
  p_command_fragments :: "(u16, command_fragment_buffer) hmap"
  p_channel_states :: "(u8, channel_state) hmap"
  p_flow_control :: flow_control
  p_bandwidth_throttle :: bandwidth_throttle
  p_statistics :: peer_statistics
  p_tx_pool :: packet_allocator
  p_compression_pool :: compression_buffer_pool
  p_pmtu :: pmtu_discovery

definition peer_new :: "socket_addr \<Rightarrow> config \<Rightarrow> instant \<Rightarrow> instant \<Rightarrow> u16 \<Rightarrow> u32 \<Rightarrow> peer" where
  "peer_new addr config time now session_id connect_id = \<lparr>
     p_last_heard = time, p_last_sent = time, p_remote_address = addr, p_state = Idle, p_peer_id = 0,
     p_incoming_session_id = 0, p_outgoing_session_id = session_id, p_connect_id = connect_id,
     p_next_unreliable_sequence = 0, p_unsequenced_state = uns_new,
     p_acknowledge_handler =
       (let handler = ah_new now
        in if use_advanced_throttling config
           then handler\<lparr>ah_congestion := enable_advanced_throttling (ah_congestion handler)
                  (throttle_scale config) (throttle_acceleration config)
                  (throttle_deceleration config) (throttle_interval config)\<rparr>
           else handler),
     p_config = config, p_command_queue = cq_default, p_total_waiting_data = 0,
     p_command_fragments = hm_empty, p_channel_states = hm_empty, p_flow_control = fc_new config,
     p_bandwidth_throttle = bt_new (outgoing_bandwidth_limit config) (incoming_bandwidth_limit config) time,
     p_statistics = st_default, p_tx_pool = pa_new (max_packet_size config) 256,
     p_compression_pool = cp_default, p_pmtu = pm_new config time\<rparr>"

definition is_established :: "peer \<Rightarrow> bool" where
  "is_established p = state_is_established (p_state p)"

subsection \<open>The command queue of a peer\<close>

fun command_data_size :: "protocol_command \<Rightarrow> usize" where
  "command_data_size (SendReliable _ _ _ d) = sb_len d"
| "command_data_size (SendUnreliable _ d) = sb_len d"
| "command_data_size (SendUnreliableSequenced _ _ d) = sb_len d"
| "command_data_size (SendUnsequenced _ _ d) = sb_len d"
| "command_data_size (SendFragment _ _ _ _ _ d) = sb_len d"
| "command_data_size (SendUnreliableFragment _ _ _ _ d) = sb_len d"
| "command_data_size _ = 0"

definition queue_command :: "peer \<Rightarrow> protocol_command \<Rightarrow> peer \<times> bool" where
  "queue_command p command =
     (let (q, flush) = cq_enqueue (p_command_queue p) command in (p\<lparr>p_command_queue := q\<rparr>, flush))"

definition enqueue_command :: "peer \<Rightarrow> protocol_command \<Rightarrow> peer \<times> bool" where
  "enqueue_command p command =
     (let data_size = command_data_size command
      in if max_waiting_data (p_config p) > 0 \<and>
            p_total_waiting_data p + data_size > max_waiting_data (p_config p)
         then (p, False)
         else queue_command (p\<lparr>p_total_waiting_data := p_total_waiting_data p + data_size\<rparr>) command)"

definition enqueue_ack_command :: "peer \<Rightarrow> u32 option \<Rightarrow> peer" where
  "enqueue_ack_command p sent_time =
     fst (enqueue_command p
       (Acknowledge (remote_sequence_num (p_acknowledge_handler p)) (ack_bitfield (p_acknowledge_handler p)) sent_time))"

definition enqueue_ping_command :: "peer \<Rightarrow> u32 \<Rightarrow> peer" where
  "enqueue_ping_command p timestamp = fst (enqueue_command p (Ping timestamp))"

definition enqueue_pong_command :: "peer \<Rightarrow> u32 \<Rightarrow> peer" where
  "enqueue_pong_command p timestamp = fst (enqueue_command p (Pong timestamp))"

definition drain_commands :: "peer \<Rightarrow> peer \<times> protocol_command list" where
  "drain_commands p =
     (let p = p\<lparr>p_total_waiting_data := 0\<rparr>;
          (q, cs) = cq_drain (p_command_queue p)
      in (p\<lparr>p_command_queue := q\<rparr>, cs))"

definition queued_commands_count :: "peer \<Rightarrow> usize" where
  "queued_commands_count p = cq_len (p_command_queue p)"

definition has_queued_commands :: "peer \<Rightarrow> bool" where
  "has_queued_commands p \<longleftrightarrow> \<not> cq_is_empty (p_command_queue p)"

subsection \<open>Connection management\<close>

definition initiate_connect :: "peer \<Rightarrow> peer" where
  "initiate_connect p =
     (if p_state p = Idle
      then let p = p\<lparr>p_state := Connecting\<rparr>;
               connect_command = Connect (channel_count (p_config p)) 1400 1
                 (p_outgoing_session_id p) (p_connect_id p)
           in fst (queue_command p connect_command)
      else p)"

definition record_send :: "peer \<Rightarrow> peer \<times> bool" where
  "record_send p =
     (let was_est = is_established p;
          p = (case p_state p of
                 Idle \<Rightarrow> if use_connection_handshake (p_config p) then initiate_connect p
                         else p\<lparr>p_state := Connecting\<rparr>
               | ConnectionSucceeded \<Rightarrow> p\<lparr>p_state := Connected\<rparr>
               | _ \<Rightarrow> p)
      in (p, \<not> was_est \<and> is_established p))"

definition record_recv :: "peer \<Rightarrow> peer \<times> bool" where
  "record_recv p =
     (let was_est = is_established p;
          p = (case p_state p of
                 Idle \<Rightarrow> if \<not> use_connection_handshake (p_config p) then p\<lparr>p_state := Connected\<rparr> else p
               | Connecting \<Rightarrow> if \<not> use_connection_handshake (p_config p) then p\<lparr>p_state := Connected\<rparr> else p
               | AcknowledgingConnect \<Rightarrow> p\<lparr>p_state := Connected\<rparr>
               | _ \<Rightarrow> p)
      in (p, \<not> was_est \<and> is_established p))"

definition disconnect :: "peer \<Rightarrow> peer" where
  "disconnect p =
     (if \<not> is_disconnecting (p_state p)
      then fst (queue_command (p\<lparr>p_state := Disconnecting\<rparr>) (Disconnect 0)) else p)"

subsection \<open>Delegations to the components\<close>

definition peer_packets_in_flight :: "peer \<Rightarrow> u16" where
  "peer_packets_in_flight p = packets_in_flight (p_acknowledge_handler p)"

definition peer_last_heard :: "peer \<Rightarrow> instant \<Rightarrow> duration" where
  "peer_last_heard p time = duration_since time (p_last_heard p)"

definition peer_last_sent :: "peer \<Rightarrow> instant \<Rightarrow> duration" where
  "peer_last_sent p time = duration_since time (p_last_sent p)"

definition peer_update_throttle :: "peer \<Rightarrow> instant \<Rightarrow> (error_kind, peer \<times> bool) res" where
  "peer_update_throttle p time =
     res_bind (ah_update_throttle (p_acknowledge_handler p) time) (\<lambda>(h, u).
       Ok (p\<lparr>p_acknowledge_handler := h\<rparr>, u))"

definition record_packet_sent :: "peer \<Rightarrow> peer" where
  "record_packet_sent p = p\<lparr>p_statistics := (p_statistics p)\<lparr>st_packets_sent := st_packets_sent (p_statistics p) + 1\<rparr>\<rparr>"

definition record_packet_received :: "peer \<Rightarrow> peer" where
  "record_packet_received p =
     p\<lparr>p_statistics := (p_statistics p)\<lparr>st_packets_received := st_packets_received (p_statistics p) + 1\<rparr>\<rparr>"

definition record_packet_lost :: "peer \<Rightarrow> peer" where
  "record_packet_lost p = p\<lparr>p_statistics := (p_statistics p)\<lparr>st_packets_lost := st_packets_lost (p_statistics p) + 1\<rparr>\<rparr>"

definition record_data_sent :: "peer \<Rightarrow> usize \<Rightarrow> peer" where
  "record_data_sent p n = p\<lparr>p_statistics := (p_statistics p)\<lparr>st_bytes_sent := st_bytes_sent (p_statistics p) + n\<rparr>\<rparr>"

definition record_data_received :: "peer \<Rightarrow> usize \<Rightarrow> peer" where
  "record_data_received p n =
     p\<lparr>p_statistics := (p_statistics p)\<lparr>st_bytes_received := st_bytes_received (p_statistics p) + n\<rparr>\<rparr>"

definition gather_dropped_packets :: "peer \<Rightarrow> (error_kind, peer \<times> sent_packet list) res" where
  "gather_dropped_packets p =
     res_bind (dropped_packets (p_acknowledge_handler p)) (\<lambda>(h, dropped).
       let p = p\<lparr>p_acknowledge_handler := h\<rparr>
       in Ok ((record_packet_lost ^^ length dropped) p, dropped))"

definition peer_current_fragment_size :: "peer \<Rightarrow> u16" where
  "peer_current_fragment_size p = current_fragment_size (p_pmtu p)"

definition peer_handle_pmtu :: "peer \<Rightarrow> instant \<Rightarrow> u32 \<Rightarrow> (nat \<Rightarrow> bytes) \<Rightarrow> (error_kind, peer) res" where
  "peer_handle_pmtu p time token fill =
     res_bind (rto (ah_congestion (p_acknowledge_handler p))) (\<lambda>r.
       case handle_pmtu (p_pmtu p) time r token fill of
         (m, Some probe_cmd) \<Rightarrow> Ok (fst (enqueue_command (p\<lparr>p_pmtu := m\<rparr>) probe_cmd))
       | (m, None) \<Rightarrow> Ok (p\<lparr>p_pmtu := m\<rparr>))"

definition peer_set_window_size :: "peer \<Rightarrow> u32 \<Rightarrow> (error_kind, peer) res" where
  "peer_set_window_size p w =
     res_bind (set_window_size (p_flow_control p) (p_config p) w) (\<lambda>f. Ok (p\<lparr>p_flow_control := f\<rparr>))"

definition peer_record_reliable_data_sent :: "peer \<Rightarrow> u32 \<Rightarrow> peer" where
  "peer_record_reliable_data_sent p n = p\<lparr>p_flow_control := record_reliable_data_sent (p_flow_control p) n\<rparr>"

definition peer_record_reliable_data_acked :: "peer \<Rightarrow> u32 \<Rightarrow> peer" where
  "peer_record_reliable_data_acked p n = p\<lparr>p_flow_control := record_reliable_data_acked (p_flow_control p) n\<rparr>"

definition peer_can_send_reliable :: "peer \<Rightarrow> (error_kind, bool) res" where
  "peer_can_send_reliable p = can_send_reliable (p_flow_control p) (p_config p) (peer_packets_in_flight p)"

definition peer_adjust_window_size :: "peer \<Rightarrow> (error_kind, peer) res" where
  "peer_adjust_window_size p =
     (let loss = loss_rate (ah_congestion (p_acknowledge_handler p));
          rtt_ms = of_nat (as_millis (cc_rtt (ah_congestion (p_acknowledge_handler p))))
      in res_bind (adjust_window_size (p_flow_control p) (p_config p) loss rtt_ms) (\<lambda>f.
         Ok (p\<lparr>p_flow_control := f\<rparr>)))"

definition peer_update_bandwidth_window :: "peer \<Rightarrow> instant \<Rightarrow> peer \<times> bool" where
  "peer_update_bandwidth_window p time =
     (let (b, u) = update_bandwidth_window (p_bandwidth_throttle p) time in (p\<lparr>p_bandwidth_throttle := b\<rparr>, u))"

definition peer_record_bytes_sent :: "peer \<Rightarrow> u32 \<Rightarrow> peer" where
  "peer_record_bytes_sent p n = p\<lparr>p_bandwidth_throttle := record_bytes_sent (p_bandwidth_throttle p) n\<rparr>"

definition peer_record_bytes_received :: "peer \<Rightarrow> u32 \<Rightarrow> peer" where
  "peer_record_bytes_received p n = p\<lparr>p_bandwidth_throttle := record_bytes_received (p_bandwidth_throttle p) n\<rparr>"

definition peer_can_send_within_bandwidth :: "peer \<Rightarrow> bool" where
  "peer_can_send_within_bandwidth p = can_send_within_bandwidth (p_bandwidth_throttle p)"

definition peer_can_receive_within_bandwidth :: "peer \<Rightarrow> bool" where
  "peer_can_receive_within_bandwidth p = can_receive_within_bandwidth (p_bandwidth_throttle p)"

definition next_unsequenced_group :: "peer \<Rightarrow> peer \<times> u16" where
  "next_unsequenced_group p =
     (let (u, g) = next_outgoing_group (p_unsequenced_state p) in (p\<lparr>p_unsequenced_state := u\<rparr>, g))"

definition is_unsequenced_duplicate :: "peer \<Rightarrow> u16 \<Rightarrow> bool" where
  "is_unsequenced_duplicate p g = is_duplicate (p_unsequenced_state p) g"

definition mark_unsequenced_received :: "peer \<Rightarrow> u16 \<Rightarrow> peer" where
  "mark_unsequenced_received p g = p\<lparr>p_unsequenced_state := mark_received (p_unsequenced_state p) g\<rparr>"

definition peer_cleanup_stale_fragments :: "peer \<Rightarrow> instant \<Rightarrow> peer" where
  "peer_cleanup_stale_fragments p time =
     p\<lparr>p_command_fragments := cleanup_stale_fragments (p_command_fragments p) time\<rparr>"

lemmas peer_small_defs [peer_defs] =
  record_packet_sent_def record_packet_received_def record_packet_lost_def record_data_sent_def
  record_data_received_def peer_record_reliable_data_sent_def peer_record_reliable_data_acked_def
  peer_record_bytes_sent_def peer_record_bytes_received_def next_unsequenced_group_def
  mark_unsequenced_received_def peer_cleanup_stale_fragments_def peer_update_bandwidth_window_def

section \<open>The waiting data\<close>

definition queue_of :: "peer \<Rightarrow> protocol_command list" where
  "queue_of p = cq_commands (p_command_queue p)"

definition data_size_of :: "protocol_command list \<Rightarrow> nat" where
  "data_size_of cs = sum_list (map command_data_size cs)"

text \<open>
  The counter of waiting data is the payload in the queue, and stays within the configured limit.
\<close>

definition waiting_inv :: "peer \<Rightarrow> bool" where
  "waiting_inv p \<longleftrightarrow> p_total_waiting_data p = data_size_of (queue_of p) \<and>
     (0 < max_waiting_data (p_config p) \<longrightarrow> p_total_waiting_data p \<le> max_waiting_data (p_config p))"

lemma data_size_of_simps [simp]:
  "data_size_of [] = 0" "data_size_of (c # cs) = command_data_size c + data_size_of cs"
  "data_size_of (cs @ ds) = data_size_of cs + data_size_of ds"
  by (simp_all add: data_size_of_def)

lemma queue_of_queue_command [simp]:
  "queue_of (fst (queue_command p c)) = queue_of p @ [c]"
  "p_config (fst (queue_command p c)) = p_config p"
  "p_total_waiting_data (fst (queue_command p c)) = p_total_waiting_data p"
  "p_state (fst (queue_command p c)) = p_state p"
  "p_acknowledge_handler (fst (queue_command p c)) = p_acknowledge_handler p"
  "p_remote_address (fst (queue_command p c)) = p_remote_address p"
  by (simp_all add: queue_command_def split_beta queue_of_def cq.contents_enqueue)

text \<open>The command was dropped, or appended and counted.\<close>

definition would_exceed :: "peer \<Rightarrow> protocol_command \<Rightarrow> bool" where
  "would_exceed p c \<longleftrightarrow> 0 < max_waiting_data (p_config p) \<and>
     max_waiting_data (p_config p) < p_total_waiting_data p + command_data_size c"

lemma enqueue_command_result:
  "queue_of (fst (enqueue_command p c)) = (if would_exceed p c then queue_of p else queue_of p @ [c])"
  "p_total_waiting_data (fst (enqueue_command p c)) =
     (if would_exceed p c then p_total_waiting_data p else p_total_waiting_data p + command_data_size c)"
  "p_config (fst (enqueue_command p c)) = p_config p"
  "p_state (fst (enqueue_command p c)) = p_state p"
  "p_acknowledge_handler (fst (enqueue_command p c)) = p_acknowledge_handler p"
  "p_remote_address (fst (enqueue_command p c)) = p_remote_address p"
  by (simp_all add: enqueue_command_def Let_def would_exceed_def) (simp add: queue_of_def)

lemma waiting_inv_enqueue [inv_intros]: "waiting_inv p \<Longrightarrow> waiting_inv (fst (enqueue_command p c))"
  by (auto simp: waiting_inv_def enqueue_command_result would_exceed_def)

lemma waiting_inv_queue_control [inv_intros]:
  "waiting_inv p \<Longrightarrow> command_data_size c = 0 \<Longrightarrow> waiting_inv (fst (queue_command p c))"
  by (auto simp: waiting_inv_def)

lemma drain_commands_result:
  "snd (drain_commands p) = queue_of p" "queue_of (fst (drain_commands p)) = []"
  "p_total_waiting_data (fst (drain_commands p)) = 0" "p_config (fst (drain_commands p)) = p_config p"
  by (simp_all add: drain_commands_def cq_drain_def queue_of_def)

lemma waiting_inv_drain [inv_intros]: "waiting_inv p \<Longrightarrow> waiting_inv (fst (drain_commands p))"
  by (simp add: waiting_inv_def drain_commands_result)

lemma waiting_inv_cong:
  "queue_of q = queue_of p \<Longrightarrow> p_total_waiting_data q = p_total_waiting_data p \<Longrightarrow>
   max_waiting_data (p_config q) = max_waiting_data (p_config p) \<Longrightarrow> waiting_inv q \<longleftrightarrow> waiting_inv p"
  by (simp add: waiting_inv_def)

lemma waiting_inv_new: "waiting_inv (peer_new addr config time now s c)"
  by (simp add: waiting_inv_def peer_new_def queue_of_def cq_default_def cq_new_def)

text \<open>A peer with the default configuration, used in examples.\<close>

definition sample_peer :: peer where
  "sample_peer = peer_new \<lparr>sa_ip = V4 0, sa_port = 1\<rparr> default_config 0 0 7 8"

lemma sample_peer_simps [simp]:
  "p_config sample_peer = default_config" "queue_of sample_peer = []" "p_total_waiting_data sample_peer = 0"
  "p_state sample_peer = Idle" "p_pmtu sample_peer = pm_new default_config 0"
  "local_sequence_num (p_acknowledge_handler sample_peer) = 0"
  "p_command_fragments sample_peer = hm_empty" "p_channel_states sample_peer = hm_empty"
  "p_remote_address sample_peer = \<lparr>sa_ip = V4 0, sa_port = 1\<rparr>"
  by (simp_all add: sample_peer_def peer_new_def queue_of_def cq_default_def cq_new_def default_config_def
      local_sequence_num_def ah_new_def ah_with_congestion_def)

end
