(* ===== verification/Externals.thy ===== *)
theory Externals
  imports Core_Types
begin

text \<open>
  The third-party packages the codec calls, as a parameter of the model: the record \<open>ext\<close> holds
  one function per entry point the source uses. \<^verbatim>\<open>byteorder\<close> writes and reads integers,
  \<^verbatim>\<open>crc32fast\<close> computes the checksum, \<^verbatim>\<open>flate2\<close> and \<^verbatim>\<open>lz4\<close> compress. What a theorem relies on is a
  named hypothesis that states the documented behaviour: \<open>byteorder_be\<close> (big-endian layout, and
  a read returns what was written) and \<open>compressors_lossless\<close> (what was compressed decompresses to
  itself; the size \<^verbatim>\<open>lz4\<close> is given is an \<^verbatim>\<open>i32\<close>) and \<open>compressors_report\<close> (failures are returned as errors). \<open>sample_ext\<close> satisfies all three and serves to evaluate the model on concrete input.
\<close>

record ext =
  be_write_u16 :: "u16 \<Rightarrow> bytes"
  be_read_u16 :: "bytes \<Rightarrow> u16"
  be_write_u32 :: "u32 \<Rightarrow> bytes"
  be_read_u32 :: "bytes \<Rightarrow> u32"
  crc32 :: "bytes \<Rightarrow> u32"
  zlib_compress :: "bytes \<Rightarrow> (io_error, bytes) res"
  zlib_decompress :: "bytes \<Rightarrow> (io_error, bytes) res"
  lz4_compress :: "bytes \<Rightarrow> (io_error, bytes) res"
  lz4_decompress :: "bytes \<Rightarrow> u32 \<Rightarrow> (io_error, bytes) res"

section \<open>Big-endian bytes of the standard library\<close>

definition u16_to_be_bytes :: "u16 \<Rightarrow> bytes" where
  "u16_to_be_bytes v = [ucast (drop_bit 8 v), ucast v]"

definition u32_to_be_bytes :: "u32 \<Rightarrow> bytes" where
  "u32_to_be_bytes v = [ucast (drop_bit 24 v), ucast (drop_bit 16 v), ucast (drop_bit 8 v), ucast v]"

definition u16_from_be_bytes :: "u8 \<Rightarrow> u8 \<Rightarrow> u16" where
  "u16_from_be_bytes a b = push_bit 8 (ucast a) OR ucast b"

definition u32_from_be_bytes :: "u8 \<Rightarrow> u8 \<Rightarrow> u8 \<Rightarrow> u8 \<Rightarrow> u32" where
  "u32_from_be_bytes a b c d =
     push_bit 24 (ucast a) OR push_bit 16 (ucast b) OR push_bit 8 (ucast c) OR ucast d"

lemma u16_be_roundtrip: "u16_from_be_bytes (ucast (drop_bit 8 v)) (ucast v) = v"
  by (rule bit_word_eqI) (auto simp: u16_from_be_bytes_def bit_simps not_less)

lemma u32_be_roundtrip:
  "u32_from_be_bytes (ucast (drop_bit 24 v)) (ucast (drop_bit 16 v)) (ucast (drop_bit 8 v)) (ucast v) = v"
proof (rule bit_word_eqI)
  fix n assume "n < LENGTH(32)"
  then consider "n < 8" | "8 \<le> n \<and> n < 16" | "16 \<le> n \<and> n < 24" | "24 \<le> n \<and> n < 32"
    by fastforce
  then show "bit (u32_from_be_bytes (ucast (drop_bit 24 v)) (ucast (drop_bit 16 v))
                    (ucast (drop_bit 8 v)) (ucast v)) n = bit v n"
    by cases (auto simp: u32_from_be_bytes_def bit_simps)
qed

lemma length_u32_to_be_bytes [simp]: "length (u32_to_be_bytes v) = 4"
  by (simp add: u32_to_be_bytes_def)

section \<open>What the codec relies on\<close>

definition byteorder_be :: "ext \<Rightarrow> bool" where
  "byteorder_be X \<longleftrightarrow>
     (\<forall>v. be_write_u16 X v = u16_to_be_bytes v) \<and>
     (\<forall>v. be_write_u32 X v = u32_to_be_bytes v) \<and>
     (\<forall>v. be_read_u16 X (be_write_u16 X v) = v) \<and>
     (\<forall>v. be_read_u32 X (be_write_u32 X v) = v)"

definition compressors_lossless :: "ext \<Rightarrow> bool" where
  "compressors_lossless X \<longleftrightarrow>
     (\<forall>d z. zlib_compress X d = Ok z \<longrightarrow> zlib_decompress X z = Ok d) \<and>
     (\<forall>d z. length d < 2147483648 \<and> lz4_compress X d = Ok z \<longrightarrow>
            lz4_decompress X z (of_nat (length d)) = Ok d)"

text \<open>The compressors report bad input and failures as errors.\<close>

definition compressors_report :: "ext \<Rightarrow> bool" where
  "compressors_report X \<longleftrightarrow> (\<forall>d. zlib_compress X d \<noteq> Panic \<and> zlib_decompress X d \<noteq> Panic \<and> lz4_compress X d \<noteq> Panic \<and>
     (\<forall>n. lz4_decompress X d n \<noteq> Panic))"

lemma byteorder_write16 [wire_simps]:
  "byteorder_be X \<Longrightarrow> be_write_u16 X v = [ucast (drop_bit 8 v), ucast v]"
  by (simp add: byteorder_be_def u16_to_be_bytes_def)

lemma byteorder_len16 [wire_simps]: "byteorder_be X \<Longrightarrow> length (be_write_u16 X v) = 2"
  by (simp add: byteorder_write16)

lemma byteorder_len32 [wire_simps]: "byteorder_be X \<Longrightarrow> length (be_write_u32 X v) = 4"
  by (simp add: byteorder_be_def)

lemma byteorder_read16: "byteorder_be X \<Longrightarrow> be_read_u16 X (be_write_u16 X v) = v"
  unfolding byteorder_be_def by blast

lemma byteorder_read32: "byteorder_be X \<Longrightarrow> be_read_u32 X (be_write_u32 X v) = v"
  unfolding byteorder_be_def by blast

section \<open>A concrete instance\<close>

text \<open>
  Big-endian integers, the byte sum as a checksum, and a run-length code for buffers of one
  repeated byte in the place of the compressors (other input is reported as an error).
\<close>

definition rle_compress :: "bytes \<Rightarrow> (io_error, bytes) res" where
  "rle_compress d =
     (if d \<noteq> [] \<and> length d < 65536 \<and> (\<forall>b \<in> set d. b = hd d)
      then Ok (hd d # u16_to_be_bytes (of_nat (length d))) else Err (ExternalError ''not a run''))"

definition rle_decompress :: "bytes \<Rightarrow> (io_error, bytes) res" where
  "rle_decompress z = (case z of [b, h, l] \<Rightarrow> Ok (replicate (unat (u16_from_be_bytes h l)) b)
                       | _ \<Rightarrow> Err (ExternalError ''not a run''))"

definition sample_ext :: ext where
  "sample_ext = \<lparr>
     be_write_u16 = u16_to_be_bytes,
     be_read_u16 = (\<lambda>bs. u16_from_be_bytes (bs ! 0) (bs ! 1)),
     be_write_u32 = u32_to_be_bytes,
     be_read_u32 = (\<lambda>bs. u32_from_be_bytes (bs ! 0) (bs ! 1) (bs ! 2) (bs ! 3)),
     crc32 = (\<lambda>bs. sum_list (map ucast bs)),
     zlib_compress = rle_compress, zlib_decompress = rle_decompress,
     lz4_compress = rle_compress, lz4_decompress = (\<lambda>z n. rle_decompress z)\<rparr>"

lemma rle_lossless: "rle_compress d = Ok z \<Longrightarrow> rle_decompress z = Ok d"
proof -
  assume "rle_compress d = Ok z"
  then have d: "length d < 65536" "\<forall>b \<in> set d. b = hd d"
    and z: "z = [hd d, ucast (drop_bit 8 (of_nat (length d) :: u16)), ucast (of_nat (length d) :: u16)]"
    by (auto simp: rle_compress_def u16_to_be_bytes_def split: if_splits)
  have "replicate (length d) (hd d) = d"
    using d(2) by (intro replicate_length_same) auto
  moreover have "rle_decompress z = Ok (replicate (unat (of_nat (length d) :: u16)) (hd d))"
    unfolding z rle_decompress_def list.case u16_be_roundtrip ..
  ultimately show ?thesis
    using d(1) by (simp add: unat_of_nat_u16)
qed

lemma sample_ext_byteorder: "byteorder_be sample_ext"
  unfolding byteorder_be_def sample_ext_def
  by (simp add: u16_to_be_bytes_def u32_to_be_bytes_def u16_be_roundtrip u32_be_roundtrip nth_Cons')

lemma sample_ext_report: "compressors_report sample_ext"
  by (simp add: compressors_report_def sample_ext_def rle_compress_def rle_decompress_def split: list.split)

lemma sample_ext_lossless: "compressors_lossless sample_ext"
  by (simp add: compressors_lossless_def sample_ext_def rle_lossless)

end
