(* ===== verification/Codec.thy ===== *)
theory Codec
  imports Commands Externals
begin

text \<open>
  The command codec (\<^verbatim>\<open>bitfold-protocol/src/command_codec\<close>): \<^verbatim>\<open>encoder.rs\<close> writes commands and
  packets of commands into a byte vector, \<^verbatim>\<open>decoder.rs\<close> reads them back from a cursor.

  Writing to a \<^verbatim>\<open>Vec<u8>\<close> cannot fail, so the encoders return the bytes. Every reader returns the
  advanced cursor beside its value. The main results: the two encoders agree, decoding inverts
  encoding, the decoder survives any input and what it returns is well formed.
\<close>

section \<open>Writing\<close>

definition write_u8 :: "bytes \<Rightarrow> u8 \<Rightarrow> bytes" where
  "write_u8 buffer v = buffer @ [v]"

definition write_u16 :: "ext \<Rightarrow> bytes \<Rightarrow> u16 \<Rightarrow> bytes" where
  "write_u16 X buffer v = buffer @ be_write_u16 X v"

definition write_u32 :: "ext \<Rightarrow> bytes \<Rightarrow> u32 \<Rightarrow> bytes" where
  "write_u32 X buffer v = buffer @ be_write_u32 X v"

definition write_all :: "bytes \<Rightarrow> bytes \<Rightarrow> bytes" where
  "write_all buffer v = buffer @ v"

definition flag_byte :: "bool \<Rightarrow> u8" where
  "flag_byte b = (if b then 1 else 0)"

lemmas write_defs = write_u8_def write_u16_def write_u32_def write_all_def

definition encode_command_into :: "ext \<Rightarrow> bytes \<Rightarrow> protocol_command \<Rightarrow> bytes" where
  "encode_command_into X buffer command =
     (let buffer = write_u8 buffer (command_type command)
      in case command of
        SendReliable channel_id sequence is_ordered data \<Rightarrow>
          (let buffer = write_u8 buffer channel_id;
              buffer = write_u16 X buffer sequence;
              buffer = write_u8 buffer (flag_byte is_ordered);
              buffer = write_u16 X buffer (of_nat (sb_len data))
          in write_all buffer (sb_as_slice data))
      | SendUnreliable channel_id data \<Rightarrow>
          (let buffer = write_u8 buffer channel_id;
              buffer = write_u16 X buffer (of_nat (sb_len data))
          in write_all buffer (sb_as_slice data))
      | SendUnreliableSequenced channel_id sequence data \<Rightarrow>
          (let buffer = write_u8 buffer channel_id;
              buffer = write_u16 X buffer sequence;
              buffer = write_u16 X buffer (of_nat (sb_len data))
          in write_all buffer (sb_as_slice data))
      | SendUnsequenced channel_id unsequenced_group data \<Rightarrow>
          (let buffer = write_u8 buffer channel_id;
              buffer = write_u16 X buffer unsequenced_group;
              buffer = write_u16 X buffer (of_nat (sb_len data))
          in write_all buffer (sb_as_slice data))
      | SendFragment channel_id sequence is_ordered fragment_id fragment_count data \<Rightarrow>
          (let buffer = write_u8 buffer channel_id;
              buffer = write_u16 X buffer sequence;
              buffer = write_u8 buffer (flag_byte is_ordered);
              buffer = write_u8 buffer fragment_id;
              buffer = write_u8 buffer fragment_count;
              buffer = write_u16 X buffer (of_nat (sb_len data))
          in write_all buffer (sb_as_slice data))
      | SendUnreliableFragment channel_id sequence fragment_id fragment_count data \<Rightarrow>
          (let buffer = write_u8 buffer channel_id;
              buffer = write_u16 X buffer sequence;
              buffer = write_u8 buffer fragment_id;
              buffer = write_u8 buffer fragment_count;
              buffer = write_u16 X buffer (of_nat (sb_len data))
          in write_all buffer (sb_as_slice data))
      | Acknowledge sequence received_mask sent_time \<Rightarrow>
          (let buffer = write_u16 X buffer sequence;
              buffer = write_u32 X buffer received_mask
          in (case sent_time of Some time \<Rightarrow> write_u32 X buffer time | None \<Rightarrow> buffer))
      | Ping timestamp \<Rightarrow>
          write_u32 X buffer timestamp
      | Pong timestamp \<Rightarrow>
          write_u32 X buffer timestamp
      | Connect channels mtu protocol_version outgoing_session_id connect_id \<Rightarrow>
          (let buffer = write_u8 buffer channels;
              buffer = write_u16 X buffer mtu;
              buffer = write_u16 X buffer protocol_version;
              buffer = write_u16 X buffer outgoing_session_id
          in write_u32 X buffer connect_id)
      | VerifyConnect peer_id channels mtu incoming_session_id outgoing_session_id window_size \<Rightarrow>
          (let buffer = write_u16 X buffer peer_id;
              buffer = write_u8 buffer channels;
              buffer = write_u16 X buffer mtu;
              buffer = write_u16 X buffer incoming_session_id;
              buffer = write_u16 X buffer outgoing_session_id
          in write_u32 X buffer window_size)
      | Disconnect reason \<Rightarrow>
          write_u32 X buffer reason
      | BandwidthLimit incoming outgoing \<Rightarrow>
          (let buffer = write_u32 X buffer incoming
          in write_u32 X buffer outgoing)
      | ThrottleConfigure interval acceleration deceleration \<Rightarrow>
          (let buffer = write_u32 X buffer interval;
              buffer = write_u32 X buffer acceleration
          in write_u32 X buffer deceleration)
      | PMTUProbe probe_size token payload \<Rightarrow>
          (let buffer = write_u16 X buffer probe_size;
              buffer = write_u32 X buffer token;
              buffer = write_u16 X buffer (of_nat (sb_len payload))
          in write_all buffer (sb_as_slice payload))
      | PMTUReply probe_size token \<Rightarrow>
          (let buffer = write_u16 X buffer probe_size
          in write_u32 X buffer token))"

text \<open>\<^verbatim>\<open>encode_command\<close> starts from an empty vector and repeats the match.\<close>

definition encode_command :: "ext \<Rightarrow> protocol_command \<Rightarrow> bytes" where
  "encode_command X command =
     [command_type command] @
     (case command of
        SendReliable channel_id sequence is_ordered data \<Rightarrow>
          [channel_id] @ be_write_u16 X sequence @ [flag_byte is_ordered] @
          be_write_u16 X (of_nat (sb_len data)) @ sb_as_slice data
      | SendUnreliable channel_id data \<Rightarrow>
          [channel_id] @ be_write_u16 X (of_nat (sb_len data)) @ sb_as_slice data
      | SendUnreliableSequenced channel_id sequence data \<Rightarrow>
          [channel_id] @ be_write_u16 X sequence @ be_write_u16 X (of_nat (sb_len data)) @
          sb_as_slice data
      | SendUnsequenced channel_id unsequenced_group data \<Rightarrow>
          [channel_id] @ be_write_u16 X unsequenced_group @
          be_write_u16 X (of_nat (sb_len data)) @ sb_as_slice data
      | SendFragment channel_id sequence is_ordered fragment_id fragment_count data \<Rightarrow>
          [channel_id] @ be_write_u16 X sequence @ [flag_byte is_ordered] @ [fragment_id] @
          [fragment_count] @ be_write_u16 X (of_nat (sb_len data)) @ sb_as_slice data
      | SendUnreliableFragment channel_id sequence fragment_id fragment_count data \<Rightarrow>
          [channel_id] @ be_write_u16 X sequence @ [fragment_id] @ [fragment_count] @
          be_write_u16 X (of_nat (sb_len data)) @ sb_as_slice data
      | Acknowledge sequence received_mask sent_time \<Rightarrow>
          be_write_u16 X sequence @ be_write_u32 X received_mask @
          (case sent_time of Some time \<Rightarrow> be_write_u32 X time | None \<Rightarrow> [])
      | Ping timestamp \<Rightarrow>
          be_write_u32 X timestamp
      | Pong timestamp \<Rightarrow>
          be_write_u32 X timestamp
      | Connect channels mtu protocol_version outgoing_session_id connect_id \<Rightarrow>
          [channels] @ be_write_u16 X mtu @ be_write_u16 X protocol_version @
          be_write_u16 X outgoing_session_id @ be_write_u32 X connect_id
      | VerifyConnect peer_id channels mtu incoming_session_id outgoing_session_id window_size \<Rightarrow>
          be_write_u16 X peer_id @ [channels] @ be_write_u16 X mtu @
          be_write_u16 X incoming_session_id @ be_write_u16 X outgoing_session_id @
          be_write_u32 X window_size
      | Disconnect reason \<Rightarrow>
          be_write_u32 X reason
      | BandwidthLimit incoming outgoing \<Rightarrow>
          be_write_u32 X incoming @ be_write_u32 X outgoing
      | ThrottleConfigure interval acceleration deceleration \<Rightarrow>
          be_write_u32 X interval @ be_write_u32 X acceleration @
          be_write_u32 X deceleration
      | PMTUProbe probe_size token payload \<Rightarrow>
          be_write_u16 X probe_size @ be_write_u32 X token @
          be_write_u16 X (of_nat (sb_len payload)) @ sb_as_slice payload
      | PMTUReply probe_size token \<Rightarrow>
          be_write_u16 X probe_size @ be_write_u32 X token)"

text \<open>
  \<^verbatim>\<open>encode_packet\<close> prefixes every command by its length; \<^verbatim>\<open>encode_packet_into\<close> reserves the two
  bytes, encodes in place and patches them. The command count is \<^verbatim>\<open>len() as u8\<close>.
\<close>

fun encode_commands :: "ext \<Rightarrow> bytes \<Rightarrow> protocol_command list \<Rightarrow> bytes" where
  "encode_commands X buffer [] = buffer"
| "encode_commands X buffer (command # commands) =
     (let cmd_bytes = encode_command X command;
          buffer = write_u16 X buffer (of_nat (length cmd_bytes));
          buffer = write_all buffer cmd_bytes
      in encode_commands X buffer commands)"

definition encode_packet :: "ext \<Rightarrow> command_packet \<Rightarrow> bytes" where
  "encode_packet X packet =
     (let buffer = write_u8 [] (of_nat (length packet)) in encode_commands X buffer packet)"

fun encode_commands_into :: "ext \<Rightarrow> bytes \<Rightarrow> protocol_command list \<Rightarrow> bytes" where
  "encode_commands_into X buffer [] = buffer"
| "encode_commands_into X buffer (command # commands) =
     (let len_pos = length buffer;
          buffer = write_u16 X buffer 0;
          start = length buffer;
          buffer = encode_command_into X buffer command;
          cmd_len = length buffer - start;
          buffer = buffer[len_pos := of_nat (cmd_len div 256 mod 256)];
          buffer = buffer[len_pos + 1 := of_nat (cmd_len mod 256)]
      in encode_commands_into X buffer commands)"

definition encode_packet_into :: "ext \<Rightarrow> bytes \<Rightarrow> command_packet \<Rightarrow> bytes" where
  "encode_packet_into X buffer packet =
     (let buffer = write_u8 buffer (of_nat (length packet)) in encode_commands_into X buffer packet)"

section \<open>Reading\<close>

record cursor =
  cur_data :: bytes
  cur_pos :: usize

definition cursor_new :: "bytes \<Rightarrow> cursor" where
  "cursor_new d = \<lparr>cur_data = d, cur_pos = 0\<rparr>"

definition set_position :: "cursor \<Rightarrow> usize \<Rightarrow> cursor" where
  "set_position c p = c\<lparr>cur_pos := p\<rparr>"

definition read_exact :: "nat \<Rightarrow> cursor \<Rightarrow> (io_error, bytes \<times> cursor) res" where
  "read_exact n c =
     (let rest = drop (cur_pos c) (cur_data c)
      in if n \<le> length rest then Ok (take n rest, c\<lparr>cur_pos := cur_pos c + n\<rparr>)
         else Err FailedToFillBuffer)"

text \<open>The continuation of a reader receives the value and the advanced cursor.\<close>

definition rbind :: "('e, 'a \<times> cursor) res \<Rightarrow> ('a \<Rightarrow> cursor \<Rightarrow> ('e, 'b) res) \<Rightarrow> ('e, 'b) res" where
  "rbind r f = res_bind r (\<lambda>(a, c). f a c)"

definition read_u8 :: "cursor \<Rightarrow> (io_error, u8 \<times> cursor) res" where
  "read_u8 c = rbind (read_exact 1 c) (\<lambda>bs c. Ok (hd bs, c))"

definition read_u16 :: "ext \<Rightarrow> cursor \<Rightarrow> (io_error, u16 \<times> cursor) res" where
  "read_u16 X c = rbind (read_exact 2 c) (\<lambda>bs c. Ok (be_read_u16 X bs, c))"

definition read_u32 :: "ext \<Rightarrow> cursor \<Rightarrow> (io_error, u32 \<times> cursor) res" where
  "read_u32 X c = rbind (read_exact 4 c) (\<lambda>bs c. Ok (be_read_u32 X bs, c))"

subsection \<open>One reader per arm of \<^verbatim>\<open>decode_command\<close>\<close>

definition decode_send_reliable :: "ext \<Rightarrow> cursor \<Rightarrow> (io_error, protocol_command \<times> cursor) res" where
  "decode_send_reliable X cursor =
     rbind (read_u8 cursor) (\<lambda>channel_id cursor.
     rbind (read_u16 X cursor) (\<lambda>sequence cursor.
     rbind (read_u8 cursor) (\<lambda>is_ordered cursor.
     rbind (read_u16 X cursor) (\<lambda>data_len cursor.
     rbind (read_exact (unat data_len) cursor) (\<lambda>data_vec cursor.
     Ok (SendReliable channel_id sequence (is_ordered \<noteq> 0) (sb_from_vec data_vec), cursor))))))"

definition decode_send_unreliable :: "ext \<Rightarrow> cursor \<Rightarrow> (io_error, protocol_command \<times> cursor) res" where
  "decode_send_unreliable X cursor =
     rbind (read_u8 cursor) (\<lambda>channel_id cursor.
     rbind (read_u16 X cursor) (\<lambda>data_len cursor.
     rbind (read_exact (unat data_len) cursor) (\<lambda>data_vec cursor.
     Ok (SendUnreliable channel_id (sb_from_vec data_vec), cursor))))"

definition decode_send_unreliable_sequenced :: "ext \<Rightarrow> cursor \<Rightarrow> (io_error, protocol_command \<times> cursor) res" where
  "decode_send_unreliable_sequenced X cursor =
     rbind (read_u8 cursor) (\<lambda>channel_id cursor.
     rbind (read_u16 X cursor) (\<lambda>sequence cursor.
     rbind (read_u16 X cursor) (\<lambda>data_len cursor.
     rbind (read_exact (unat data_len) cursor) (\<lambda>data_vec cursor.
     Ok (SendUnreliableSequenced channel_id sequence (sb_from_vec data_vec), cursor)))))"

definition decode_send_unsequenced :: "ext \<Rightarrow> cursor \<Rightarrow> (io_error, protocol_command \<times> cursor) res" where
  "decode_send_unsequenced X cursor =
     rbind (read_u8 cursor) (\<lambda>channel_id cursor.
     rbind (read_u16 X cursor) (\<lambda>unsequenced_group cursor.
     rbind (read_u16 X cursor) (\<lambda>data_len cursor.
     rbind (read_exact (unat data_len) cursor) (\<lambda>data_vec cursor.
     Ok (SendUnsequenced channel_id unsequenced_group (sb_from_vec data_vec), cursor)))))"

definition decode_send_fragment :: "ext \<Rightarrow> cursor \<Rightarrow> (io_error, protocol_command \<times> cursor) res" where
  "decode_send_fragment X cursor =
     rbind (read_u8 cursor) (\<lambda>channel_id cursor.
     rbind (read_u16 X cursor) (\<lambda>sequence cursor.
     rbind (read_u8 cursor) (\<lambda>is_ordered cursor.
     rbind (read_u8 cursor) (\<lambda>fragment_id cursor.
     rbind (read_u8 cursor) (\<lambda>fragment_count cursor.
     rbind (read_u16 X cursor) (\<lambda>data_len cursor.
     rbind (read_exact (unat data_len) cursor) (\<lambda>data_vec cursor.
     Ok (SendFragment channel_id sequence (is_ordered \<noteq> 0) fragment_id fragment_count (sb_from_vec data_vec), cursor))))))))"

definition decode_send_unreliable_fragment :: "ext \<Rightarrow> cursor \<Rightarrow> (io_error, protocol_command \<times> cursor) res" where
  "decode_send_unreliable_fragment X cursor =
     rbind (read_u8 cursor) (\<lambda>channel_id cursor.
     rbind (read_u16 X cursor) (\<lambda>sequence cursor.
     rbind (read_u8 cursor) (\<lambda>fragment_id cursor.
     rbind (read_u8 cursor) (\<lambda>fragment_count cursor.
     rbind (read_u16 X cursor) (\<lambda>data_len cursor.
     rbind (read_exact (unat data_len) cursor) (\<lambda>data_vec cursor.
     Ok (SendUnreliableFragment channel_id sequence fragment_id fragment_count (sb_from_vec data_vec), cursor)))))))"

definition decode_acknowledge :: "ext \<Rightarrow> cursor \<Rightarrow> (io_error, protocol_command \<times> cursor) res" where
  "decode_acknowledge X cursor =
     rbind (read_u16 X cursor) (\<lambda>sequence cursor.
     rbind (read_u32 X cursor) (\<lambda>received_mask cursor.
     rbind (if cur_pos cursor < length (cur_data cursor)
      then rbind (read_u32 X cursor) (\<lambda>t cursor. Ok (Some t, cursor))
      else Ok (None, cursor)) (\<lambda>sent_time cursor.
     Ok (Acknowledge sequence received_mask sent_time, cursor))))"

definition decode_ping :: "ext \<Rightarrow> cursor \<Rightarrow> (io_error, protocol_command \<times> cursor) res" where
  "decode_ping X cursor =
     rbind (read_u32 X cursor) (\<lambda>timestamp cursor.
     Ok (Ping timestamp, cursor))"

definition decode_pong :: "ext \<Rightarrow> cursor \<Rightarrow> (io_error, protocol_command \<times> cursor) res" where
  "decode_pong X cursor =
     rbind (read_u32 X cursor) (\<lambda>timestamp cursor.
     Ok (Pong timestamp, cursor))"

definition decode_connect :: "ext \<Rightarrow> cursor \<Rightarrow> (io_error, protocol_command \<times> cursor) res" where
  "decode_connect X cursor =
     rbind (read_u8 cursor) (\<lambda>channels cursor.
     rbind (read_u16 X cursor) (\<lambda>mtu cursor.
     rbind (read_u16 X cursor) (\<lambda>protocol_version cursor.
     rbind (read_u16 X cursor) (\<lambda>outgoing_session_id cursor.
     rbind (read_u32 X cursor) (\<lambda>connect_id cursor.
     Ok (Connect channels mtu protocol_version outgoing_session_id connect_id, cursor))))))"

definition decode_verify_connect :: "ext \<Rightarrow> cursor \<Rightarrow> (io_error, protocol_command \<times> cursor) res" where
  "decode_verify_connect X cursor =
     rbind (read_u16 X cursor) (\<lambda>peer_id cursor.
     rbind (read_u8 cursor) (\<lambda>channels cursor.
     rbind (read_u16 X cursor) (\<lambda>mtu cursor.
     rbind (read_u16 X cursor) (\<lambda>incoming_session_id cursor.
     rbind (read_u16 X cursor) (\<lambda>outgoing_session_id cursor.
     rbind (read_u32 X cursor) (\<lambda>window_size cursor.
     Ok (VerifyConnect peer_id channels mtu incoming_session_id outgoing_session_id window_size, cursor)))))))"

definition decode_disconnect :: "ext \<Rightarrow> cursor \<Rightarrow> (io_error, protocol_command \<times> cursor) res" where
  "decode_disconnect X cursor =
     rbind (read_u32 X cursor) (\<lambda>reason cursor.
     Ok (Disconnect reason, cursor))"

definition decode_bandwidth_limit :: "ext \<Rightarrow> cursor \<Rightarrow> (io_error, protocol_command \<times> cursor) res" where
  "decode_bandwidth_limit X cursor =
     rbind (read_u32 X cursor) (\<lambda>incoming cursor.
     rbind (read_u32 X cursor) (\<lambda>outgoing cursor.
     Ok (BandwidthLimit incoming outgoing, cursor)))"

definition decode_throttle_configure :: "ext \<Rightarrow> cursor \<Rightarrow> (io_error, protocol_command \<times> cursor) res" where
  "decode_throttle_configure X cursor =
     rbind (read_u32 X cursor) (\<lambda>interval cursor.
     rbind (read_u32 X cursor) (\<lambda>acceleration cursor.
     rbind (read_u32 X cursor) (\<lambda>deceleration cursor.
     Ok (ThrottleConfigure interval acceleration deceleration, cursor))))"

definition decode_pmtu_probe :: "ext \<Rightarrow> cursor \<Rightarrow> (io_error, protocol_command \<times> cursor) res" where
  "decode_pmtu_probe X cursor =
     rbind (read_u16 X cursor) (\<lambda>probe_size cursor.
     rbind (read_u32 X cursor) (\<lambda>token cursor.
     rbind (read_u16 X cursor) (\<lambda>data_len cursor.
     rbind (read_exact (unat data_len) cursor) (\<lambda>payload_vec cursor.
     Ok (PMTUProbe probe_size token (sb_from_vec payload_vec), cursor)))))"

definition decode_pmtu_reply :: "ext \<Rightarrow> cursor \<Rightarrow> (io_error, protocol_command \<times> cursor) res" where
  "decode_pmtu_reply X cursor =
     rbind (read_u16 X cursor) (\<lambda>probe_size cursor.
     rbind (read_u32 X cursor) (\<lambda>token cursor.
     Ok (PMTUReply probe_size token, cursor)))"

lemmas decode_arm_defs =
  decode_send_reliable_def decode_send_unreliable_def
  decode_send_unreliable_sequenced_def decode_send_unsequenced_def
  decode_send_fragment_def decode_send_unreliable_fragment_def
  decode_acknowledge_def decode_ping_def decode_pong_def decode_connect_def
  decode_verify_connect_def decode_disconnect_def decode_bandwidth_limit_def
  decode_throttle_configure_def decode_pmtu_probe_def decode_pmtu_reply_def

definition decode_command :: "ext \<Rightarrow> cursor \<Rightarrow> (io_error, protocol_command \<times> cursor) res" where
  "decode_command X cursor =
     rbind (read_u8 cursor) (\<lambda>cmd_type cursor.
       if cmd_type = 1 then decode_send_reliable X cursor
       else if cmd_type = 2 then decode_send_unreliable X cursor
       else if cmd_type = 3 then decode_send_unreliable_sequenced X cursor
       else if cmd_type = 4 then decode_send_unsequenced X cursor
       else if cmd_type = 5 then decode_send_fragment X cursor
       else if cmd_type = 6 then decode_send_unreliable_fragment X cursor
       else if cmd_type = 7 then decode_acknowledge X cursor
       else if cmd_type = 8 then decode_ping X cursor
       else if cmd_type = 9 then decode_pong X cursor
       else if cmd_type = 10 then decode_connect X cursor
       else if cmd_type = 11 then decode_verify_connect X cursor
       else if cmd_type = 12 then decode_disconnect X cursor
       else if cmd_type = 13 then decode_bandwidth_limit X cursor
       else if cmd_type = 14 then decode_throttle_configure X cursor
       else if cmd_type = 15 then decode_pmtu_probe X cursor
       else if cmd_type = 16 then decode_pmtu_reply X cursor
       else Err (UnknownCommandType cmd_type))"

text \<open>Indexing by a range panics outside the slice.\<close>

definition slice_range :: "bytes \<Rightarrow> nat \<Rightarrow> nat \<Rightarrow> ('e, bytes) res" where
  "slice_range d from_ix to_ix =
     (if from_ix \<le> to_ix \<and> to_ix \<le> length d then Ok (take (to_ix - from_ix) (drop from_ix d)) else Panic)"

fun decode_commands :: "ext \<Rightarrow> bytes \<Rightarrow> nat \<Rightarrow> cursor \<Rightarrow> command_packet \<Rightarrow> (io_error, command_packet) res" where
  "decode_commands X data 0 cursor packet = Ok packet"
| "decode_commands X data (Suc n) cursor packet =
     rbind (read_u16 X cursor) (\<lambda>cmd_len cursor.
       let pos = cur_pos cursor
       in if length data < pos + unat cmd_len then Err CommandLengthExceedsBuffer
          else res_bind (slice_range data pos (pos + unat cmd_len)) (\<lambda>cmd_data.
               rbind (decode_command X (cursor_new cmd_data)) (\<lambda>command cmd_cursor.
                 decode_commands X data n (set_position cursor (pos + unat cmd_len))
                   (add_command packet command))))"

definition decode_packet :: "ext \<Rightarrow> bytes \<Rightarrow> (io_error, command_packet) res" where
  "decode_packet X data =
     rbind (read_u8 (cursor_new data)) (\<lambda>cmd_count cursor.
       decode_commands X data (unat cmd_count) cursor cpk_new)"

section \<open>The two encoders agree\<close>

lemma encode_command_into_append: "encode_command_into X buffer c = buffer @ encode_command X c"
  by (cases c)
     (simp_all add: encode_command_into_def encode_command_def write_defs Let_def split: option.split)

lemma be_u16_of_nat:
  "u16_to_be_bytes (of_nat n) = [of_nat (n div 256 mod 256), of_nat (n mod 256)]"
proof -
  have "unat (ucast (drop_bit 8 (of_nat n :: u16)) :: u8) = n div 256 mod 256"
    using mod_mult2_eq [of n 256 256]
    by (simp add: unsigned_ucast_eq take_bit_eq_mod drop_bit_eq_div unat_div unat_of_nat)
  moreover have "unat (ucast (of_nat n :: u16) :: u8) = n mod 256"
    by (simp add: unsigned_ucast_eq unsigned_of_nat take_bit_eq_mod mod_mod_cancel)
  ultimately show ?thesis
    by (simp add: u16_to_be_bytes_def word_eq_iff_unsigned unat_of_nat flip: unat_inj_iff)
qed

text \<open>The bytes a packet adds for one command: its length and its encoding.\<close>

definition framed_command :: "ext \<Rightarrow> protocol_command \<Rightarrow> bytes" where
  "framed_command X c = be_write_u16 X (of_nat (length (encode_command X c))) @ encode_command X c"

lemma encode_commands_framed:
  "encode_commands X buffer cs = buffer @ concat (map (framed_command X) cs)"
  by (induction cs arbitrary: buffer) (simp_all add: framed_command_def write_defs Let_def)

lemma encode_packet_framed:
  "encode_packet X cs = of_nat (length cs) # concat (map (framed_command X) cs)"
  by (simp add: encode_packet_def encode_commands_framed write_defs)

lemma patch_length:
  assumes "byteorder_be X"
  shows "(buffer @ be_write_u16 X 0 @ d)[length buffer := of_nat (length d div 256 mod 256),
            Suc (length buffer) := of_nat (length d mod 256)]
       = buffer @ be_write_u16 X (of_nat (length d)) @ d"
proof -
  have "be_write_u16 X (of_nat (length d)) = [of_nat (length d div 256 mod 256), of_nat (length d mod 256)]"
    using assms be_u16_of_nat by (simp add: byteorder_be_def)
  moreover have "be_write_u16 X 0 = [0, 0]"
    using assms by (simp add: byteorder_write16)
  ultimately show ?thesis by (simp add: list_update_append)
qed

lemma encode_commands_into_framed:
  "byteorder_be X \<Longrightarrow>
     encode_commands_into X buffer cs = buffer @ concat (map (framed_command X) cs)"
proof (induction cs arbitrary: buffer)
  case (Cons c cs)
  then show ?case
    using patch_length [of X buffer "encode_command X c"]
    by (simp add: Let_def write_defs encode_command_into_append framed_command_def)
qed simp

lemma encode_packet_into_append:
  "byteorder_be X \<Longrightarrow> encode_packet_into X buffer cs = buffer @ encode_packet X cs"
  by (simp add: encode_packet_into_def encode_commands_into_framed encode_packet_framed write_defs)

section \<open>Lengths\<close>

lemma length_framed_command:
  "byteorder_be X \<Longrightarrow> length (framed_command X c) = 2 + length (encode_command X c)"
  by (simp add: framed_command_def byteorder_len16)

lemma length_encode_packet:
  "byteorder_be X \<Longrightarrow>
     length (encode_packet X cs) = 1 + (\<Sum>c\<leftarrow>cs. 2 + length (encode_command X c))"
  by (simp add: encode_packet_framed length_concat length_framed_command comp_def)

lemma length_encode_command_pos: "0 < length (encode_command X c)"
  by (simp add: encode_command_def)

section \<open>Decoding inverts encoding\<close>

definition cursor_at :: "bytes \<Rightarrow> bytes \<Rightarrow> cursor" where
  "cursor_at xs ys = \<lparr>cur_data = xs @ ys, cur_pos = length xs\<rparr>"

lemma cursor_new_at: "cursor_new ys = cursor_at [] ys"
  by (simp add: cursor_new_def cursor_at_def)

lemma rbind_simps [simp]:
  "rbind (Ok (a, c)) f = f a c" "rbind (Err e) f = Err e" "rbind Panic f = Panic"
  by (simp_all add: rbind_def)

lemma rbind_Ok_iff: "rbind r f = Ok b \<longleftrightarrow> (\<exists>a c. r = Ok (a, c) \<and> f a c = Ok b)"
  by (cases r) auto

lemma rbind_Panic_iff: "rbind r f = Panic \<longleftrightarrow> r = Panic \<or> (\<exists>a c. r = Ok (a, c) \<and> f a c = Panic)"
  by (cases r) auto

lemma read_exact_at:
  "length d = n \<Longrightarrow> read_exact n (cursor_at xs (d @ ys)) = Ok (d, cursor_at (xs @ d) ys)"
  by (auto simp: read_exact_def cursor_at_def)

lemma read_exact_at_end:
  "length d = n \<Longrightarrow> read_exact n (cursor_at xs d) = Ok (d, cursor_at (xs @ d) [])"
  using read_exact_at [of d n xs "[]"] by simp

lemma read_u8_at: "read_u8 (cursor_at xs (b # ys)) = Ok (b, cursor_at (xs @ [b]) ys)"
  using read_exact_at [of "[b]" 1 xs ys] by (simp add: read_u8_def)

lemma read_u16_at:
  "byteorder_be X \<Longrightarrow>
     read_u16 X (cursor_at xs (be_write_u16 X v @ ys)) = Ok (v, cursor_at (xs @ be_write_u16 X v) ys)"
  by (simp add: read_u16_def read_exact_at byteorder_len16 byteorder_read16)

lemma read_u32_at:
  "byteorder_be X \<Longrightarrow>
     read_u32 X (cursor_at xs (be_write_u32 X v @ ys)) = Ok (v, cursor_at (xs @ be_write_u32 X v) ys)"
  by (simp add: read_u32_def read_exact_at byteorder_len32 byteorder_read32)

lemma read_u32_at_end:
  "byteorder_be X \<Longrightarrow>
     read_u32 X (cursor_at xs (be_write_u32 X v)) = Ok (v, cursor_at (xs @ be_write_u32 X v) [])"
  using read_u32_at [of X xs v "[]"] by simp

lemma cursor_at_more: "cur_pos (cursor_at xs ys) < length (cur_data (cursor_at xs ys)) \<longleftrightarrow> ys \<noteq> []"
  by (simp add: cursor_at_def)

lemma flag_byte_nonzero [simp]: "flag_byte b \<noteq> 0 \<longleftrightarrow> b"
  by (simp add: flag_byte_def)

lemmas read_at_simps =
  read_u8_at read_u16_at read_u32_at read_u32_at_end read_exact_at read_exact_at_end cursor_at_more

lemma be_write_u32_not_Nil: "byteorder_be X \<Longrightarrow> be_write_u32 X v \<noteq> []"
  using byteorder_len32 [of X v] by auto

lemma decode_encode_command:
  assumes "byteorder_be X" "command_wf c"
  shows "decode_command X (cursor_new (encode_command X c)) = Ok (owned c, cursor_at (encode_command X c) [])"
proof -
  have len: "unat (of_nat (sb_len d) :: u16) = length (sb_as_slice d)" if "command_payload c = Some d" for d
    using assms(2) that by (simp add: command_wf_def unat_of_nat_u16)
  show ?thesis
    using assms(1) len
    by (cases c)
       (simp_all add: encode_command_def decode_command_def cursor_new_at read_at_simps decode_arm_defs
          sb_owned_def be_write_u32_not_Nil split: option.split)
qed

lemma decode_commands_step:
  assumes "read_u16 X (cursor_at xs (w @ e @ r)) = Ok (v, cursor_at (xs @ w) (e @ r))"
    and "unat v = length e"
    and "decode_command X (cursor_new e) = Ok (c, cursor')"
  shows "decode_commands X (xs @ w @ e @ r) (Suc n) (cursor_at xs (w @ e @ r)) packet
       = decode_commands X (xs @ w @ e @ r) n (cursor_at (xs @ w @ e) r) (packet @ [c])"
proof -
  have "(slice_range (xs @ w @ e @ r) (length xs + length w) (length xs + (length w + length e))
           :: (io_error, bytes) res) = Ok e"
    by (simp add: slice_range_def)
  then show ?thesis
    using assms by (simp add: cursor_at_def set_position_def add_command_def add.assoc)
qed

lemma decode_commands_framed:
  assumes X: "byteorder_be X"
    and wf: "\<forall>c \<in> set cs. command_wf c \<and> length (encode_command X c) < 65536"
  shows "decode_commands X (xs @ concat (map (framed_command X) cs) @ ys) (length cs)
           (cursor_at xs (concat (map (framed_command X) cs) @ ys)) packet
       = Ok (packet @ map owned cs)"
  using wf
proof (induction cs arbitrary: xs packet)
  case (Cons c cs)
  let ?r = "concat (map (framed_command X) cs) @ ys"
  define w where "w = be_write_u16 X (of_nat (length (encode_command X c)))"
  define e where "e = encode_command X c"
  have len: "unat (of_nat (length e) :: u16) = length e"
    using Cons.prems by (simp add: unat_of_nat_u16 e_def)
  have rd: "read_u16 X (cursor_at xs (w @ e @ ?r)) = Ok (of_nat (length e), cursor_at (xs @ w) (e @ ?r))"
    using X by (simp add: w_def e_def read_u16_at)
  have dec: "decode_command X (cursor_new e) = Ok (owned c, cursor_at e [])"
    using decode_encode_command [OF X] Cons.prems by (simp add: e_def)
  have fr: "framed_command X c = w @ e"
    by (simp add: framed_command_def w_def e_def)
  show ?case
    using Cons.IH [of "xs @ w @ e" "packet @ [owned c]"] Cons.prems
    by (simp add: fr decode_commands_step [OF rd len dec] del: decode_commands.simps)
qed simp

lemma decode_command_not_Panic: "decode_command X cursor \<noteq> Panic"
proof -
  have ex: "read_exact n c \<noteq> Panic" for n c by (simp add: read_exact_def Let_def)
  have r: "read_u8 c \<noteq> Panic" "read_u16 X c \<noteq> Panic" "read_u32 X c \<noteq> Panic" for c
    by (simp_all add: read_u8_def read_u16_def read_u32_def rbind_Panic_iff ex)
  show ?thesis
    by (simp add: decode_command_def decode_arm_defs rbind_Panic_iff r ex)
qed

lemma read_exact_length: "read_exact n c = Ok (d, c') \<Longrightarrow> length d = n"
  by (auto simp: read_exact_def Let_def split: if_splits)

lemma decode_command_wf: "decode_command X cursor = Ok (c, cursor') \<Longrightarrow> command_wf c"
  by (auto simp: decode_command_def decode_arm_defs rbind_Ok_iff command_wf_def unat_u16_bound
      dest!: read_exact_length split: if_splits)

lemma decode_commands_not_Panic: "decode_commands X data n cursor packet \<noteq> Panic"
  by (induction n arbitrary: cursor packet)
     (auto simp: rbind_Panic_iff res_bind_Panic_iff Let_def slice_range_def decode_command_not_Panic
        read_u16_def read_exact_def split: if_splits)

lemma decode_commands_wf:
  "decode_commands X data n cursor packet = Ok cs \<Longrightarrow> \<forall>c \<in> set packet. command_wf c \<Longrightarrow>
     length cs = length packet + n \<and> (\<forall>c \<in> set cs. command_wf c)"
proof (induction n arbitrary: cursor packet)
  case (Suc n)
  from Suc.prems(1) obtain command cursor2 where
      *: "decode_commands X data n cursor2 (packet @ [command]) = Ok cs" and "command_wf command"
    by (auto simp: rbind_Ok_iff res_bind_Ok_iff Let_def add_command_def split: if_splits
        dest: decode_command_wf)
  with Suc.IH [OF *] Suc.prems(2) show ?case by auto
qed auto

section \<open>Properties\<close>

text \<open>
  C6: A packet of at most 255 sendable commands, each encoded in fewer than 65536 bytes, decodes to
  exactly the commands that were encoded, in order, each with its payload as a buffer of its own.
\<close>

theorem decode_encode_packet:
  assumes "byteorder_be X"
    and "length cs \<le> 255"
    and "\<forall>c \<in> set cs. command_wf c \<and> length (encode_command X c) < 65536"
  shows "decode_packet X (encode_packet X cs) = Ok (map owned cs)"
proof -
  have "unat (of_nat (length cs) :: u8) = length cs"
    using assms(2) by (simp add: unat_of_nat_u8)
  then show ?thesis
    using decode_commands_framed [OF assms(1,3), of "[of_nat (length cs)]" "[]" cpk_new]
    by (simp add: decode_packet_def cursor_new_at encode_packet_framed read_at_simps cpk_new_def)
qed

theorem decode_encode_packet_witness:
  "decode_packet sample_ext (encode_packet sample_ext
       [Ping 7, Acknowledge 3 5 None, SendReliable 1 2 True (sb_from_vec [9, 8])])
     = Ok [Ping 7, Acknowledge 3 5 None, SendReliable 1 2 True (sb_from_vec [9, 8])]"
proof -
  have "length (encode_command sample_ext (SendReliable 1 2 True (sb_from_vec [9, 8]))) = 9"
    "length (encode_command sample_ext (Ping 7)) = 5"
    "length (encode_command sample_ext (Acknowledge 3 5 None)) = 7"
    by (simp_all add: encode_command_def byteorder_len16 byteorder_len32 sample_ext_byteorder)
  then show ?thesis
    using decode_encode_packet [OF sample_ext_byteorder,
        of "[Ping 7, Acknowledge 3 5 None, SendReliable 1 2 True (sb_from_vec [9, 8])]"]
    by (simp add: command_wf_def)
qed

text \<open>
  C28: The in-place encoder, which reserves two bytes and patches the length afterwards, appends to
  its buffer exactly the bytes the allocating encoder returns.
\<close>

theorem encode_packet_into_eq:
  assumes "byteorder_be X"
  shows "encode_packet_into X buffer packet = buffer @ encode_packet X packet"
  using assms by (rule encode_packet_into_append)

theorem encode_packet_into_eq_witness:
  "encode_packet_into sample_ext [42] [Ping 7] = [42] @ encode_packet sample_ext [Ping 7]"
  by (rule encode_packet_into_eq [OF sample_ext_byteorder])

lemma decode_packet_not_Panic: "decode_packet X data \<noteq> Panic"
  by (simp add: decode_packet_def rbind_Panic_iff decode_commands_not_Panic read_u8_def read_exact_def)

text \<open>
  C12: Whatever bytes arrive, the packet decoder returns a value or an error: no read and no slice of
  it is out of range. A packet it returns has as many commands as its first byte says, and every
  payload in it is a valid view of at most 65535 bytes.
\<close>

theorem decode_packet_total:
  "decode_packet X data \<noteq> Panic \<and>
   (\<forall>packet. decode_packet X data = Ok packet \<longrightarrow>
      data \<noteq> [] \<and> length packet = unat (hd data) \<and> (\<forall>c \<in> set packet. command_wf c))"
proof -
  note decode_packet_not_Panic [of X data]
  moreover have "data \<noteq> [] \<and> length packet = unat (hd data) \<and> (\<forall>c \<in> set packet. command_wf c)"
    if "decode_packet X data = Ok packet" for packet
  proof -
    from that obtain b cursor where b: "read_u8 (cursor_new data) = Ok (b, cursor)"
      and d: "decode_commands X data (unat b) cursor [] = Ok packet"
      by (auto simp: decode_packet_def rbind_Ok_iff cpk_new_def)
    from b have "data \<noteq> [] \<and> b = hd data"
      by (cases data) (auto simp: read_u8_def read_exact_def cursor_new_def split: if_splits)
    with decode_commands_wf [OF d] show ?thesis by simp
  qed
  ultimately show ?thesis by blast
qed

theorem decode_packet_total_witness:
  "decode_packet sample_ext [0] \<noteq> Panic \<and> length ([] :: command_packet) = unat (hd [0 :: u8])"
proof -
  have "decode_packet sample_ext [0] = Ok []"
    by (simp add: decode_packet_def cursor_new_at read_u8_at cpk_new_def)
  then show ?thesis using decode_packet_total [of sample_ext "[0]"] by blast
qed

text \<open>
  C40: The command count is written as \<^verbatim>\<open>len() as u8\<close>: a packet of 256 commands is encoded with the
  count byte 0 and decodes, without an error, to the empty packet.
\<close>

theorem encode_packet_count_wraps:
  assumes "length cs = 256"
  shows "decode_packet X (encode_packet X cs) = Ok []"
  using assms
  by (simp add: decode_packet_def cursor_new_at encode_packet_framed read_u8_at cpk_new_def)

theorem encode_packet_count_wraps_witness:
  "decode_packet sample_ext (encode_packet sample_ext (replicate 256 (Ping 0))) = Ok []"
  by (rule encode_packet_count_wraps) simp

end
