(* ===== verification/Peer_Fragmenter.thy ===== *)
theory Peer_Fragmenter
  imports Peer Codec
begin

text \<open>
  Sending application data (\<^verbatim>\<open>bitfold-peer/src/peer/fragmenter.rs\<close>): a payload is queued as one command when it
  fits a datagram and as numbered fragments otherwise. The slices of the source can panic in principle, so
  both operations return an outcome; the results show that they never do.

  The results: every queued command fits, with all overheads, into the datagram size the budget was computed
  from; the fragments of a payload are numbered from 0 and their payloads joined in order are the payload.
\<close>

definition fragment_datagram_cap :: "peer \<Rightarrow> nat" where
  "fragment_datagram_cap p = min (unat (peer_current_fragment_size p)) (receive_buffer_max_size (p_config p))"

text \<open>The loop over the fragment numbers; \<open>mk\<close> builds the command from a number and a slice.\<close>

fun fragment_loop ::
  "(u8 \<Rightarrow> shared_bytes \<Rightarrow> protocol_command) \<Rightarrow> bytes \<Rightarrow> nat \<Rightarrow> nat list \<Rightarrow> peer \<Rightarrow> (error_kind, peer) res" where
  "fragment_loop mk data fragment_payload [] p = Ok p"
| "fragment_loop mk data fragment_payload (fragment_id # ids) p =
     (let start = fragment_id * fragment_payload;
          end_ix = min ((fragment_id + 1) * fragment_payload) (length data);
          base = sb_from_arc data
      in if end_ix < start then Panic
         else res_bind (sb_slice base start (end_ix - start)) (\<lambda>fragment_data.
              fragment_loop mk data fragment_payload ids
                (fst (enqueue_command p (mk (of_nat fragment_id) fragment_data)))))"

definition enqueue_reliable_data :: "peer \<Rightarrow> u8 \<Rightarrow> bytes \<Rightarrow> bool \<Rightarrow> (error_kind, peer \<times> u16) res" where
  "enqueue_reliable_data p channel_id data is_ordered =
     (let sequence = local_sequence_num (p_acknowledge_handler p);
          cap = fragment_datagram_cap p;
          overhead = per_packet_overhead (p_config p);
          send_reliable_header = 1 + 1 + 2 + 1 + 2;
          send_fragment_header = 1 + 1 + 2 + 1 + 1 + 1 + 2;
          max_payload_reliable = cap - overhead - 2 - send_reliable_header
      in if max_payload_reliable < 1 then Ok (p, sequence)
         else if length data \<le> max_payload_reliable then
           Ok (fst (enqueue_command p (SendReliable channel_id sequence is_ordered (sb_from_arc data))), sequence)
         else
           let fragment_payload = cap - overhead - 2 - send_fragment_header
           in if fragment_payload < 1 then Ok (p, sequence)
              else
                let total_fragments_usize = div_ceil (length data) fragment_payload
                in if total_fragments_usize > 255 then Ok (p, sequence)
                   else
                     let total_fragments = (of_nat total_fragments_usize :: u8)
                     in if total_fragments > max_fragments (p_config p) then
                          let base = sb_from_arc data
                          in res_bind (sb_slice base 0 (min fragment_payload (sb_len base))) (\<lambda>fragment_data.
                             Ok (fst (enqueue_command p
                                   (SendFragment channel_id sequence is_ordered 0 1 fragment_data)), sequence))
                        else
                          res_bind (fragment_loop
                              (\<lambda>fragment_id fragment_data.
                                 SendFragment channel_id sequence is_ordered fragment_id total_fragments fragment_data)
                              data fragment_payload [0..<unat total_fragments] p) (\<lambda>p.
                            Ok (p, sequence)))"

definition enqueue_unreliable_data :: "peer \<Rightarrow> u8 \<Rightarrow> bytes \<Rightarrow> (error_kind, peer \<times> u16) res" where
  "enqueue_unreliable_data p channel_id data =
     (let sequence = p_next_unreliable_sequence p;
          p = p\<lparr>p_next_unreliable_sequence := p_next_unreliable_sequence p + 1\<rparr>;
          cap = fragment_datagram_cap p;
          overhead = per_packet_overhead (p_config p);
          send_unrel_header = 1 + 1 + 2;
          send_unrel_frag_header = 1 + 1 + 2 + 1 + 1 + 2;
          max_payload_unreliable = cap - overhead - 2 - send_unrel_header
      in if max_payload_unreliable < 1 then Ok (p, sequence)
         else if length data \<le> max_payload_unreliable then
           Ok (fst (enqueue_command p (SendUnreliable channel_id (sb_from_arc data))), sequence)
         else
           let fragment_payload = cap - overhead - 2 - send_unrel_frag_header
           in if fragment_payload < 1 then Ok (p, sequence)
              else
                let total_fragments_usize = div_ceil (length data) fragment_payload
                in if total_fragments_usize > 255 then Ok (p, sequence)
                   else
                     let total_fragments = (of_nat total_fragments_usize :: u8)
                     in if total_fragments > max_fragments (p_config p) then
                          let base = sb_from_arc data
                          in res_bind (sb_slice base 0 (min fragment_payload (sb_len base))) (\<lambda>fragment_data.
                             Ok (fst (enqueue_command p
                                   (SendUnreliableFragment channel_id sequence 0 1 fragment_data)), sequence))
                        else
                          res_bind (fragment_loop
                              (\<lambda>fragment_id fragment_data.
                                 SendUnreliableFragment channel_id sequence fragment_id total_fragments fragment_data)
                              data fragment_payload [0..<unat total_fragments] p) (\<lambda>p.
                            Ok (p, sequence)))"

section \<open>The commands offered to the queue\<close>

definition view :: "bytes \<Rightarrow> nat \<Rightarrow> nat \<Rightarrow> shared_bytes" where
  "view d i n = \<lparr>sb_data = d, sb_start = i, sb_len = n\<rparr>"

text \<open>The piece numbered \<open>i\<close> when a payload is cut into pieces of \<open>s\<close> bytes.\<close>

definition piece :: "bytes \<Rightarrow> nat \<Rightarrow> nat \<Rightarrow> shared_bytes" where
  "piece d s i = view d (i * s) (min ((i + 1) * s) (length d) - i * s)"

definition payload_budget :: "peer \<Rightarrow> nat \<Rightarrow> nat" where
  "payload_budget p header = fragment_datagram_cap p - per_packet_overhead (p_config p) - 2 - header"

definition offered ::
  "peer \<Rightarrow> bytes \<Rightarrow> nat \<Rightarrow> nat \<Rightarrow> protocol_command \<Rightarrow> (u8 \<Rightarrow> u8 \<Rightarrow> shared_bytes \<Rightarrow> protocol_command) \<Rightarrow>
     protocol_command list" where
  "offered p data h1 h2 single frag =
     (let s = payload_budget p h2; n = div_ceil (length data) s
      in if payload_budget p h1 < 1 then []
         else if length data \<le> payload_budget p h1 then [single]
         else if s < 1 \<or> 255 < n then []
         else if unat (max_fragments (p_config p)) < n then [frag 0 1 (view data 0 s)]
         else map (\<lambda>i. frag (of_nat i) (of_nat n) (piece data s i)) [0..<n])"

definition enqueue_all :: "peer \<Rightarrow> protocol_command list \<Rightarrow> peer" where
  "enqueue_all p cs = foldl (\<lambda>p c. fst (enqueue_command p c)) p cs"

lemma slice_piece:
  "i * s \<le> length data \<Longrightarrow>
     sb_slice (sb_from_arc data) (i * s) (min ((i + 1) * s) (length data) - i * s) = Ok (piece data s i)"
  by (simp add: sb_slice_def sb_from_arc_def piece_def view_def)

lemma first_slice:
  "s < length d \<Longrightarrow> sb_slice (sb_from_arc d) 0 s = Ok (view d 0 s)"
  by (simp add: sb_slice_def sb_from_arc_def view_def)

lemma fragment_loop_result:
  assumes "\<forall>i \<in> set is. i * s \<le> length data"
  shows "fragment_loop mk data s is p = Ok (enqueue_all p (map (\<lambda>i. mk (of_nat i) (piece data s i)) is))"
  using assms
proof (induction "is" arbitrary: p)
  case (Cons i "is")
  have i: "i * s \<le> length data" and "\<not> min ((i + 1) * s) (length data) < i * s"
    using Cons.prems by (auto simp: min_def)
  then show ?case
    using Cons by (simp only: fragment_loop.simps Let_def if_False slice_piece [OF i] res_bind.simps)
      (simp add: enqueue_all_def)
qed (simp add: enqueue_all_def)

lemma unat_of_nat_cmp_u8: "n \<le> 255 \<Longrightarrow> (m :: u8) < of_nat n \<longleftrightarrow> unat m < n"
  by (simp add: word_less_nat_alt unat_of_nat_u8)

text \<open>Both operations offer their commands to the queue one by one.\<close>

lemma fragments_offered:
  assumes "0 < s" and "div_ceil (length data) s \<le> 255"
  shows "fragment_loop mk data s [0..<unat (of_nat (div_ceil (length data) s) :: u8)] p =
    Ok (enqueue_all p (map (\<lambda>i. mk (of_nat i) (piece data s i)) [0..<div_ceil (length data) s]))"
  using assms div_ceil_lower [OF assms(1), of _ "length data"]
  by (subst fragment_loop_result) (auto simp: unat_of_nat_u8 intro: less_imp_le)

lemma enqueue_reliable_offered:
  "enqueue_reliable_data p ch data is_ordered =
     Ok (enqueue_all p (offered p data 7 9
           (SendReliable ch (local_sequence_num (p_acknowledge_handler p)) is_ordered (sb_from_arc data))
           (SendFragment ch (local_sequence_num (p_acknowledge_handler p)) is_ordered)),
         local_sequence_num (p_acknowledge_handler p))"
proof -
  have b: "fragment_datagram_cap p - per_packet_overhead (p_config p) - 2 - (1 + 1 + 2 + 1 + 2) = payload_budget p 7"
    "fragment_datagram_cap p - per_packet_overhead (p_config p) - 2 - (1 + 1 + 2 + 1 + 1 + 1 + 2) = payload_budget p 9"
    by (simp_all add: payload_budget_def)
  have "payload_budget p 9 < length data" if "\<not> length data \<le> payload_budget p 7"
    using that by (simp add: payload_budget_def)
  then show ?thesis
    unfolding enqueue_reliable_data_def offered_def Let_def b
    by (auto simp: enqueue_all_def [where cs = "[_]"] enqueue_all_def [where cs = "[]"] first_slice
        unat_of_nat_cmp_u8 fragments_offered)
qed

lemma enqueue_unreliable_offered:
  fixes p :: peer
  defines "q \<equiv> p\<lparr>p_next_unreliable_sequence := p_next_unreliable_sequence p + 1\<rparr>"
  shows "enqueue_unreliable_data p ch data =
     Ok (enqueue_all q (offered q data 4 8
           (SendUnreliable ch (sb_from_arc data))
           (SendUnreliableFragment ch (p_next_unreliable_sequence p))),
         p_next_unreliable_sequence p)"
proof -
  have b: "fragment_datagram_cap q - per_packet_overhead (p_config q) - 2 - (1 + 1 + 2) = payload_budget q 4"
    "fragment_datagram_cap q - per_packet_overhead (p_config q) - 2 - (1 + 1 + 2 + 1 + 1 + 2) = payload_budget q 8"
    by (simp_all add: payload_budget_def)
  have "payload_budget q 8 < length data" if "\<not> length data \<le> payload_budget q 4"
    using that by (simp add: payload_budget_def)
  then show ?thesis
    unfolding enqueue_unreliable_data_def offered_def Let_def q_def [symmetric] b
    by (auto simp: enqueue_all_def [where cs = "[_]"] enqueue_all_def [where cs = "[]"] first_slice
        unat_of_nat_cmp_u8 fragments_offered)
qed

section \<open>The queue after an operation\<close>

definition room_for :: "peer \<Rightarrow> nat \<Rightarrow> bool" where
  "room_for p n \<longleftrightarrow> max_waiting_data (p_config p) = 0 \<or> p_total_waiting_data p + n \<le> max_waiting_data (p_config p)"

lemma enqueue_all_keeps [simp]:
  "p_config (enqueue_all p cs) = p_config p"
  "p_state (enqueue_all p cs) = p_state p"
  "p_acknowledge_handler (enqueue_all p cs) = p_acknowledge_handler p"
  unfolding enqueue_all_def by (induction cs arbitrary: p) (simp_all add: enqueue_command_result)

lemma enqueue_all_queue: "\<exists>ds. queue_of (enqueue_all p cs) = queue_of p @ ds \<and> set ds \<subseteq> set cs"
  unfolding enqueue_all_def
proof (induction cs arbitrary: p)
  case (Cons c cs)
  obtain ds where "queue_of (foldl (\<lambda>p c. fst (enqueue_command p c)) (fst (enqueue_command p c)) cs) =
      queue_of (fst (enqueue_command p c)) @ ds" "set ds \<subseteq> set cs" using Cons by blast
  then show ?case
    by (intro exI [of _ "if would_exceed p c then ds else c # ds"]) (auto simp: enqueue_command_result)
qed simp

lemma enqueue_all_queue_all:
  "(\<And>c. c \<in> set cs \<Longrightarrow> P c) \<Longrightarrow> \<exists>ds. queue_of (enqueue_all p cs) = queue_of p @ ds \<and> (\<forall>c \<in> set ds. P c)"
  using enqueue_all_queue [of p cs] by blast

lemma enqueue_all_room:
  "room_for p (data_size_of cs) \<Longrightarrow> queue_of (enqueue_all p cs) = queue_of p @ cs"
  unfolding enqueue_all_def
proof (induction cs arbitrary: p)
  case (Cons c cs)
  then have "\<not> would_exceed p c" "room_for (fst (enqueue_command p c)) (data_size_of cs)"
    by (auto simp: room_for_def would_exceed_def enqueue_command_result)
  then show ?case using Cons.IH by (simp add: enqueue_command_result)
qed simp

lemma waiting_inv_enqueue_all [inv_intros]: "waiting_inv p \<Longrightarrow> waiting_inv (enqueue_all p cs)"
  unfolding enqueue_all_def by (induction cs arbitrary: p) (simp_all add: waiting_inv_enqueue)

section \<open>Sizes and contents\<close>

lemma view_wf: "i + n \<le> length d \<Longrightarrow> sb_wf (view d i n)"
  by (simp add: view_def sb_wf_def)

lemma sb_len_view [simp]: "sb_len (view d i n) = n"
  by (simp add: view_def)

lemma piece_wf: "i * s \<le> length d \<Longrightarrow> sb_wf (piece d s i)"
  unfolding piece_def by (intro view_wf) simp

lemma piece_wf_ceil: "i < div_ceil (length d) s \<Longrightarrow> 0 < s \<Longrightarrow> sb_wf (piece d s i)"
  using div_ceil_lower [of s i "length d"] by (simp add: piece_wf)

lemma sb_len_piece: "sb_len (piece d s i) \<le> s"
  by (auto simp: piece_def)

lemma as_slice_piece:
  "sb_as_slice (piece d s i) = take (min ((i + 1) * s) (length d) - i * s) (drop (i * s) d)"
  by (simp add: piece_def view_def sb_as_slice_def)

lemma pieces_join:
  "0 < s \<Longrightarrow> concat (map (\<lambda>i. sb_as_slice (piece d s i)) [0..<div_ceil (length d) s]) = d"
  using div_ceil_upper [of s "length d"] by (simp add: as_slice_piece concat_chunks [of s d, simplified])

lemma pieces_size:
  assumes "0 < s"
  shows "(\<Sum>i\<leftarrow>[0..<div_ceil (length d) s]. sb_len (piece d s i)) = length d"
proof -
  have "(\<Sum>i\<leftarrow>[0..<div_ceil (length d) s]. sb_len (piece d s i)) =
      (\<Sum>i\<leftarrow>[0..<div_ceil (length d) s]. length (sb_as_slice (piece d s i)))"
    by (intro arg_cong [of _ _ sum_list] map_cong refl) (simp add: piece_wf_ceil assms)
  then show ?thesis
    using arg_cong [OF pieces_join [OF assms, of d], of length] by (simp add: length_concat comp_def)
qed

text \<open>The size of a datagram that carries the one command.\<close>

definition datagram_size :: "ext \<Rightarrow> config \<Rightarrow> protocol_command \<Rightarrow> nat" where
  "datagram_size X c cmd = per_packet_overhead c + 2 + length (encode_command X cmd)"

lemma datagram_size_data:
  assumes "byteorder_be X" and "sb_wf d"
  shows "datagram_size X c (SendReliable ch s r d) = per_packet_overhead c + 2 + 7 + sb_len d"
    and "datagram_size X c (SendFragment ch s r i n d) = per_packet_overhead c + 2 + 9 + sb_len d"
    and "datagram_size X c (SendUnreliable ch d) = per_packet_overhead c + 2 + 4 + sb_len d"
    and "datagram_size X c (SendUnreliableFragment ch s i n d) = per_packet_overhead c + 2 + 8 + sb_len d"
  using assms by (simp_all add: datagram_size_def encode_command_def byteorder_len16)

lemma budget_fits: "n \<le> payload_budget p h \<Longrightarrow> 0 < n \<or> 0 < payload_budget p h \<Longrightarrow>
    per_packet_overhead (p_config p) + 2 + h + n \<le> fragment_datagram_cap p"
  by (auto simp: payload_budget_def)

lemma fragment_cap_bound: "fragment_datagram_cap p < 65536"
  using unat_u16_bound [of "peer_current_fragment_size p"] by (simp add: fragment_datagram_cap_def min_def)

lemma offered_fits:
  assumes c: "c \<in> set (offered p data h1 h2 single frag)"
    and single: "length data \<le> payload_budget p h1 \<Longrightarrow> 0 < payload_budget p h1 \<Longrightarrow> P single"
    and frag: "\<And>i n d. sb_wf d \<Longrightarrow> sb_len d \<le> payload_budget p h2 \<Longrightarrow> 0 < payload_budget p h2 \<Longrightarrow> P (frag i n d)"
    and h: "h1 \<le> h2"
  shows "P c"
proof -
  have le: "payload_budget p h2 \<le> payload_budget p h1" using h by (simp add: payload_budget_def)
  show ?thesis
    using c le by (auto simp: offered_def Let_def view_wf piece_wf_ceil sb_len_piece split: if_splits
        intro!: single frag)
qed

lemma reliable_offered_fits:
  assumes X: "byteorder_be X"
    and c: "c \<in> set (offered p data 7 9 (SendReliable ch s r (sb_from_arc data)) (SendFragment ch s r))"
  shows "command_wf c \<and> datagram_size X (p_config p) c \<le> fragment_datagram_cap p"
  by (rule offered_fits [OF c])
     (use X budget_fits [of _ p 7] budget_fits [of _ p 9] fragment_cap_bound [of p] in
      \<open>fastforce simp: datagram_size_data command_wf_def\<close>)+

lemma unreliable_offered_fits:
  assumes X: "byteorder_be X"
    and c: "c \<in> set (offered p data 4 8 (SendUnreliable ch (sb_from_arc data)) (SendUnreliableFragment ch s))"
  shows "command_wf c \<and> datagram_size X (p_config p) c \<le> fragment_datagram_cap p"
  by (rule offered_fits [OF c])
     (use X budget_fits [of _ p 4] budget_fits [of _ p 8] fragment_cap_bound [of p] in
      \<open>fastforce simp: datagram_size_data command_wf_def\<close>)+

text \<open>The commands that carry the payload: one, or the numbered fragments.\<close>

definition carries ::
  "protocol_command list \<Rightarrow> protocol_command \<Rightarrow> (u8 \<Rightarrow> u8 \<Rightarrow> shared_bytes \<Rightarrow> protocol_command) \<Rightarrow> bytes \<Rightarrow> bool" where
  "carries cs single frag data \<longleftrightarrow> cs = [single] \<or>
     (\<exists>ds. cs = map (\<lambda>i. frag (of_nat i) (of_nat (length ds)) (ds ! i)) [0..<length ds] \<and>
           0 < length ds \<and> length ds < 256 \<and> (\<forall>d \<in> set ds. sb_wf d) \<and> concat (map sb_as_slice ds) = data)"

lemma offered_carries:
  assumes "0 < payload_budget p h2" and "length data \<le> unat (max_fragments (p_config p)) * payload_budget p h2"
    and "h1 \<le> h2"
  shows "carries (offered p data h1 h2 single frag) single frag data"
proof (cases "length data \<le> payload_budget p h1")
  case True
  moreover have "0 < payload_budget p h1" using assms(1,3) by (auto simp: payload_budget_def)
  ultimately show ?thesis by (simp add: offered_def carries_def Let_def)
next
  case False
  let ?s = "payload_budget p h2"
  let ?n = "div_ceil (length data) ?s"
  let ?ds = "map (piece data ?s) [0..<?n]"
  have n: "?n \<le> unat (max_fragments (p_config p))" using assms(1,2) by (simp add: div_ceil_le_iff)
  have small: "?n < 256" using n unat_u8_bound [of "max_fragments (p_config p)"] by simp
  have pos: "0 < ?n" using False assms(1) by (intro div_ceil_pos) auto
  have b1: "\<not> payload_budget p h1 < 1" using assms(1,3) by (simp add: payload_budget_def)
  have "offered p data h1 h2 single frag = map (\<lambda>i. frag (of_nat i) (of_nat (length ?ds)) (?ds ! i)) [0..<length ?ds]"
    using False assms(1) small n b1 by (simp add: offered_def Let_def not_less)
  moreover have "concat (map sb_as_slice ?ds) = data"
    using pieces_join [OF assms(1), of data] by (simp add: comp_def)
  ultimately show ?thesis
    using small pos assms(1) unfolding carries_def
    by (intro disjI2 exI [of _ ?ds] conjI) (auto simp: piece_wf_ceil)
qed

lemma carries_size:
  assumes "carries cs single frag data" "command_data_size single = length data"
    and "\<And>i n d. command_data_size (frag i n d) = sb_len d"
  shows "data_size_of cs = length data"
  using assms(1) unfolding carries_def
proof (elim disjE exE conjE)
  fix ds :: "shared_bytes list"
  assume cs: "cs = map (\<lambda>i. frag (of_nat i) (of_nat (length ds)) (ds ! i)) [0..<length ds]"
    and wf: "\<forall>d \<in> set ds. sb_wf d" and join: "concat (map sb_as_slice ds) = data"
  have "map (\<lambda>i. sb_len (ds ! i)) [0..<length ds] = map sb_len ds" by (rule nth_equalityI) simp_all
  then have "data_size_of cs = (\<Sum>d\<leftarrow>ds. sb_len d)"
    by (simp add: cs data_size_of_def comp_def assms(3))
  also have "\<dots> = (\<Sum>d\<leftarrow>ds. length (sb_as_slice d))"
    using wf by (intro arg_cong [of _ _ sum_list] map_cong) auto
  finally show ?thesis by (simp add: join [symmetric] length_concat comp_def)
qed (simp add: assms(2))

section \<open>Properties\<close>

text \<open>
  C19: Sending data never panics, whatever the payload and the configuration, and every command it adds to the queue can be
  sent in a datagram of its own: with the length prefix, the command count, the compression header and the
  checksum it fits the datagram size in force, and its length field holds its length.
\<close>

theorem data_fits_datagram:
  assumes "byteorder_be X"
  shows "(\<exists>p' s cs. enqueue_reliable_data p ch data is_ordered = Ok (p', s) \<and> queue_of p' = queue_of p @ cs \<and>
            (\<forall>c \<in> set cs. command_wf c \<and> datagram_size X (p_config p) c \<le> fragment_datagram_cap p)) \<and>
         (\<exists>p' s cs. enqueue_unreliable_data p ch data = Ok (p', s) \<and> queue_of p' = queue_of p @ cs \<and>
            (\<forall>c \<in> set cs. command_wf c \<and> datagram_size X (p_config p) c \<le> fragment_datagram_cap p))"
    (is "?rel \<and> ?unrel")
proof
  show ?rel
    by (simp add: enqueue_reliable_offered) (rule enqueue_all_queue_all, rule reliable_offered_fits [OF assms])
  let ?q = "p\<lparr>p_next_unreliable_sequence := p_next_unreliable_sequence p + 1\<rparr>"
  have q: "queue_of ?q = queue_of p" "p_config ?q = p_config p" "fragment_datagram_cap ?q = fragment_datagram_cap p"
    by (simp_all add: queue_of_def fragment_datagram_cap_def peer_current_fragment_size_def)
  let ?cs = "offered ?q data 4 8 (SendUnreliable ch (sb_from_arc data))
      (SendUnreliableFragment ch (p_next_unreliable_sequence p))"
  have "\<exists>cs. queue_of (enqueue_all ?q ?cs) = queue_of ?q @ cs \<and>
      (\<forall>c \<in> set cs. command_wf c \<and> datagram_size X (p_config ?q) c \<le> fragment_datagram_cap ?q)"
    by (rule enqueue_all_queue_all, rule unreliable_offered_fits [OF assms])
  then show ?unrel unfolding q by (simp add: enqueue_unreliable_offered)
qed

theorem data_fits_datagram_witness:
  "\<exists>p' s cs. enqueue_reliable_data sample_peer 0 (replicate 3000 1) True = Ok (p', s) \<and>
     queue_of p' = queue_of sample_peer @ cs \<and>
     (\<forall>c \<in> set cs. command_wf c \<and> datagram_size sample_ext default_config c \<le> fragment_datagram_cap sample_peer)"
  using data_fits_datagram [OF sample_ext_byteorder, of sample_peer 0 "replicate 3000 1" True] by simp

lemma sample_budget: "payload_budget sample_peer 9 = 1007"
  by (simp add: payload_budget_def fragment_datagram_cap_def peer_current_fragment_size_def
      current_fragment_size_def pm_new_def per_packet_overhead_def compression_overhead_def
      checksum_overhead_def default_config_def FRAGMENT_SIZE_DEFAULT_def DEFAULT_MTU_def)

text \<open>
  Reliable data that needs no more than the configured number of fragments, while the queue has room, is queued
  completely: as one command, or as fragments numbered from 0 with the right count whose
  payloads joined in order are the data.
\<close>

theorem reliable_data_complete:
  assumes "0 < payload_budget p 9" and "length data \<le> unat (max_fragments (p_config p)) * payload_budget p 9"
    and "room_for p (length data)"
  shows "\<exists>p' s cs. enqueue_reliable_data p ch data is_ordered = Ok (p', s) \<and> queue_of p' = queue_of p @ cs \<and>
    s = local_sequence_num (p_acknowledge_handler p) \<and>
    carries cs (SendReliable ch s is_ordered (sb_from_arc data)) (SendFragment ch s is_ordered) data"
proof -
  let ?s = "local_sequence_num (p_acknowledge_handler p)"
  let ?cs = "offered p data 7 9 (SendReliable ch ?s is_ordered (sb_from_arc data)) (SendFragment ch ?s is_ordered)"
  have c: "carries ?cs (SendReliable ch ?s is_ordered (sb_from_arc data)) (SendFragment ch ?s is_ordered) data"
    by (rule offered_carries [OF assms(1,2)]) simp
  have "data_size_of ?cs = length data" by (rule carries_size [OF c]) simp_all
  then have "queue_of (enqueue_all p ?cs) = queue_of p @ ?cs" using assms(3) by (simp add: enqueue_all_room)
  then show ?thesis using c unfolding enqueue_reliable_offered by blast
qed

theorem reliable_data_complete_witness:
  "\<exists>p' s cs. enqueue_reliable_data sample_peer 0 (replicate 3000 1) True = Ok (p', s) \<and>
     queue_of p' = queue_of sample_peer @ cs \<and> s = local_sequence_num (p_acknowledge_handler sample_peer) \<and>
     carries cs (SendReliable 0 s True (sb_from_arc (replicate 3000 1))) (SendFragment 0 s True) (replicate 3000 1)"
proof (rule reliable_data_complete)
  show "0 < payload_budget sample_peer 9" by (simp add: sample_budget)
  show "length (replicate 3000 (1 :: u8)) \<le> unat (max_fragments (p_config sample_peer)) * payload_budget sample_peer 9"
    by (simp add: sample_budget) (simp add: default_config_def MAX_FRAGMENTS_DEFAULT_def)
  show "room_for sample_peer (length (replicate 3000 (1 :: u8)))"
    by (simp add: room_for_def default_config_def)
qed

end
