(* ===== verification/Wire.thy ===== *)
theory Wire
  imports Externals
begin

text \<open>
  The outer layers of a datagram: the CRC32 trailer (\<^verbatim>\<open>command_codec/checksum.rs\<close>) and the
  compression header (\<^verbatim>\<open>command_codec/compression.rs\<close>). Each layer is undone by its inverse, and
  none of the readers panics on arbitrary input.
\<close>

section \<open>Checksum\<close>

definition append_checksum :: "ext \<Rightarrow> bytes \<Rightarrow> bytes" where
  "append_checksum X data =
     (let checksum = crc32 X data in [] @ data @ u32_to_be_bytes checksum)"

definition append_checksum_in_place :: "ext \<Rightarrow> bytes \<Rightarrow> bytes" where
  "append_checksum_in_place X data =
     (let checksum = crc32 X data in data @ u32_to_be_bytes checksum)"

definition validate_and_strip_checksum :: "ext \<Rightarrow> bytes \<Rightarrow> (io_error, bytes) res" where
  "validate_and_strip_checksum X data =
     (if length data < 4 then Err DataTooShortForChecksum
      else let payload = take (length data - 4) data;
               checksum_bytes = drop (length data - 4) data
           in case checksum_bytes of
                a # b # c # d # _ \<Rightarrow>
                  (let received_checksum = u32_from_be_bytes a b c d;
                       computed_checksum = crc32 X payload
                   in if received_checksum \<noteq> computed_checksum
                      then Err (ChecksumMismatch computed_checksum received_checksum)
                      else Ok payload)
              | _ \<Rightarrow> Panic)"

lemma append_checksum_eq: "append_checksum X data = append_checksum_in_place X data"
  by (simp add: append_checksum_def append_checksum_in_place_def)

lemma length_append_checksum: "length (append_checksum_in_place X data) = length data + 4"
  by (simp add: append_checksum_in_place_def)

lemma four_or_more: "4 \<le> length xs \<Longrightarrow> \<exists>a b c d ys. xs = a # b # c # d # ys"
  by (cases xs; cases "tl xs"; cases "tl (tl xs)"; cases "tl (tl (tl xs))") auto

lemma validate_not_Panic: "validate_and_strip_checksum X data \<noteq> Panic"
proof (cases "length data < 4")
  case False
  then obtain a b c d ys where "drop (length data - 4) data = a # b # c # d # ys"
    using four_or_more [of "drop (length data - 4) data"] by auto
  then show ?thesis
    by (simp add: validate_and_strip_checksum_def Let_def)
qed (simp add: validate_and_strip_checksum_def)

lemma validate_append:
  "validate_and_strip_checksum X (append_checksum_in_place X data) = Ok data"
  by (simp add: validate_and_strip_checksum_def append_checksum_in_place_def Let_def u32_to_be_bytes_def
      u32_be_roundtrip)

section \<open>Compression\<close>

text \<open>\<^verbatim>\<open>output\<close> is the pooled vector; it is cleared before it is filled.\<close>

definition compress_with_buffer ::
  "ext \<Rightarrow> bytes \<Rightarrow> compression_algorithm \<Rightarrow> usize \<Rightarrow> bytes \<Rightarrow> (io_error, bytes) res" where
  "compress_with_buffer X data algorithm threshold output =
     (let output = []
      in if length data < threshold then Ok (output @ [0] @ data)
         else case algorithm of
                NoCompression \<Rightarrow> Ok (output @ [0] @ data)
              | Zlib \<Rightarrow>
                  res_bind (zlib_compress X data) (\<lambda>compressed.
                    if length compressed < length data then Ok (output @ [1] @ compressed)
                    else Ok (output @ [0] @ data))
              | Lz4 \<Rightarrow>
                  res_bind (lz4_compress X data) (\<lambda>compressed.
                    if length compressed + 4 < length data
                    then Ok (output @ [2] @ u32_to_be_bytes (of_nat (length data)) @ compressed)
                    else Ok (output @ [0] @ data)))"

definition compress ::
  "ext \<Rightarrow> bytes \<Rightarrow> compression_algorithm \<Rightarrow> usize \<Rightarrow> (io_error, bytes) res" where
  "compress X data algorithm threshold = compress_with_buffer X data algorithm threshold []"

definition decompress :: "ext \<Rightarrow> bytes \<Rightarrow> (io_error, bytes) res" where
  "decompress X data =
     (case data of
        [] \<Rightarrow> Err EmptyDataForDecompression
      | algorithm_id # payload \<Rightarrow>
          if algorithm_id = 0 then Ok payload
          else if algorithm_id = 1 then zlib_decompress X payload
          else if algorithm_id = 2 then
            (if length payload < 4 then Err Lz4PayloadTooShort
             else case payload of
                    a # b # c # d # compressed_data \<Rightarrow>
                      (let original_size = u32_from_be_bytes a b c d
                       in lz4_decompress X compressed_data original_size)
                  | _ \<Rightarrow> Panic)
          else Err (UnknownCompressionAlgorithm algorithm_id))"

lemma compress_with_buffer_cases:
  assumes "compress_with_buffer X data algorithm threshold output = Ok z"
  obtains "z = 0 # data"
  | w where "zlib_compress X data = Ok w" "length w < length data" "z = 1 # w"
  | w where "lz4_compress X data = Ok w" "length w + 4 < length data" "algorithm = Lz4"
      "z = 2 # u32_to_be_bytes (of_nat (length data)) @ w"
  using assms
  by (auto simp: compress_with_buffer_def Let_def res_bind_Ok_iff
      split: if_splits compression_algorithm.splits)

text \<open>The header costs one byte and compression never costs more, so every algorithm is bounded alike.\<close>

lemma length_compress:
  "compress_with_buffer X data algorithm threshold output = Ok z \<Longrightarrow> length z \<le> length data + 1"
  by (erule compress_with_buffer_cases) auto

lemma compress_no_compression:
  "compress_with_buffer X data NoCompression threshold output = Ok (0 # data)"
  by (simp add: compress_with_buffer_def)

lemma decompress_compress:
  assumes "compressors_lossless X" and "length data < 2147483648"
    and "compress_with_buffer X data algorithm threshold output = Ok z"
  shows "decompress X z = Ok data"
  using assms(3)
proof (cases rule: compress_with_buffer_cases)
  case (3 w)
  have "lz4_decompress X w (of_nat (length data)) = Ok data"
    using assms(1,2) 3(1) by (simp add: compressors_lossless_def)
  then show ?thesis
    unfolding 3(4) by (simp add: decompress_def u32_to_be_bytes_def u32_be_roundtrip)
qed (use assms(1) in \<open>simp_all add: decompress_def compressors_lossless_def\<close>)

section \<open>Properties\<close>

text \<open>
  C26: The compressed form of a datagram decompresses to it, for every algorithm and threshold and
  whatever the reused output buffer held, and is at most one byte longer than the datagram.
\<close>

theorem compression_roundtrip:
  assumes "compressors_lossless X" and "length data < 2147483648"
    and "compress_with_buffer X data algorithm threshold output = Ok z"
  shows "decompress X z = Ok data \<and> length z \<le> length data + 1"
  using decompress_compress [OF assms] length_compress [OF assms(3)] by blast

theorem compression_roundtrip_witness:
  "decompress sample_ext (2 # u32_to_be_bytes 20 @ 7 # u16_to_be_bytes 20) = Ok (replicate 20 7)"
proof -
  have "compress_with_buffer sample_ext (replicate 20 7) Lz4 10 [1, 2]
          = Ok (2 # u32_to_be_bytes 20 @ 7 # u16_to_be_bytes 20)"
    by (simp add: compress_with_buffer_def sample_ext_def rle_compress_def u16_to_be_bytes_def)
  from compression_roundtrip [OF sample_ext_lossless _ this] show ?thesis by simp
qed

text \<open>
  C27: A checksummed datagram validates to its payload, a datagram whose last four bytes are not the
  checksum of the rest is refused with the two values, and validation never reads out of range.
\<close>

theorem checksum_validation:
  "validate_and_strip_checksum X (append_checksum_in_place X data) = Ok data \<and>
   validate_and_strip_checksum X d \<noteq> Panic \<and>
   (crc \<noteq> crc32 X data \<longrightarrow>
      validate_and_strip_checksum X (data @ u32_to_be_bytes crc) = Err (ChecksumMismatch (crc32 X data) crc))"
  using validate_append validate_not_Panic
  by (auto simp: validate_and_strip_checksum_def Let_def u32_to_be_bytes_def u32_be_roundtrip)

theorem checksum_validation_witness:
  "validate_and_strip_checksum sample_ext ([1, 2] @ u32_to_be_bytes 9) = Err (ChecksumMismatch 3 9)"
  using checksum_validation [of sample_ext "[1, 2]" "[]" 9] by (simp add: sample_ext_def)

end
