(* ===== verification/Peer_Encoder.thy ===== *)
theory Peer_Encoder
  imports Peer_Fragmenter Wire
begin

text \<open>
  From the command queue to datagrams (\<^verbatim>\<open>bitfold-peer/src/peer/encoder.rs\<close>). The bounded encoder takes the longest prefix
  of the queue that fits, encodes, compresses and checksums it, and puts the rest back.

  The results: the datagram never exceeds the limit, so the guard at the end of the source function is
  never taken; the queue loses exactly the commands of the datagram; the selection is maximal.
\<close>

text \<open>The second half of both encoders: the pooled buffers, compression, checksum and statistics.\<close>

definition emit_datagram :: "ext \<Rightarrow> peer \<Rightarrow> command_packet \<Rightarrow> peer \<times> (io_error, bytes) res" where
  "emit_datagram X p packet =
     (let (tx, scratch) = pa_allocate (p_tx_pool p);
          scratch = vec_clear scratch;
          encoded = encode_packet_into X (vb_data scratch) packet;
          scratch = scratch\<lparr>vb_data := encoded, vb_capacity := max (vb_capacity scratch) (length encoded)\<rparr>;
          (cp, compression_buffer) = cp_acquire (p_compression_pool p);
          p = p\<lparr>p_tx_pool := tx, p_compression_pool := cp\<rparr>
      in case compress_with_buffer X (vb_data scratch) (compression (p_config p))
                (compression_threshold (p_config p)) (vb_data compression_buffer) of
           Ok final_data \<Rightarrow>
             (let p = p\<lparr>p_tx_pool := pa_deallocate (p_tx_pool p) scratch\<rparr>;
                  p = record_packet_sent p;
                  final_data = (if use_checksums (p_config p) then append_checksum_in_place X final_data
                                else final_data);
                  p = record_data_sent p (length final_data)
              in (p, Ok final_data))
         | Err e \<Rightarrow> (p, Err e)
         | Panic \<Rightarrow> (p, Panic))"

definition encode_queued_commands :: "ext \<Rightarrow> peer \<Rightarrow> peer \<times> (io_error, bytes) res" where
  "encode_queued_commands X p =
     (let (p, drained) = drain_commands p;
          packet = foldl add_command cpk_new drained
      in emit_datagram X p packet)"

text \<open>The loop that selects commands: the number selected and their encoded size.\<close>

fun select_commands :: "ext \<Rightarrow> nat \<Rightarrow> nat \<Rightarrow> protocol_command list \<Rightarrow> nat \<Rightarrow> nat \<Rightarrow> nat \<times> nat" where
  "select_commands X static_overhead max_size [] selected_count aggregated_len = (selected_count, aggregated_len)"
| "select_commands X static_overhead max_size (cmd # cmds) selected_count aggregated_len =
     (let encoded = encode_command X cmd;
          cmd_total = 2 + length encoded
      in if static_overhead + aggregated_len + cmd_total > max_size then (selected_count, aggregated_len)
         else select_commands X static_overhead max_size cmds (selected_count + 1) (aggregated_len + cmd_total))"

fun is_pmtu_probe :: "protocol_command \<Rightarrow> bool" where
  "is_pmtu_probe (PMTUProbe _ _ _) = True"
| "is_pmtu_probe _ = False"

definition effective_max :: "peer \<Rightarrow> usize \<Rightarrow> usize" where
  "effective_max p max_size =
     (case queue_of p of
        c # _ \<Rightarrow> if is_pmtu_probe c then receive_buffer_max_size (p_config p) else max_size
      | [] \<Rightarrow> max_size)"

definition encode_queued_commands_bounded :: "ext \<Rightarrow> peer \<Rightarrow> usize \<Rightarrow> peer \<times> (io_error, bytes option) res" where
  "encode_queued_commands_bounded X p max_size =
     (if \<not> has_queued_commands p then (p, Ok None)
      else
        let max_size = effective_max p max_size;
            static_overhead = per_packet_overhead (p_config p);
            (selected_count, aggregated_len) = select_commands X static_overhead max_size (queue_of p) 0 0
        in if selected_count = 0 then (p, Ok None)
           else
             let (p, drained) = drain_commands p;
                 packet = foldl add_command cpk_new (take selected_count drained);
                 p = foldl (\<lambda>p c. fst (enqueue_command p c)) p (drop selected_count drained)
             in case emit_datagram X p packet of
                  (p, Ok final_data) \<Rightarrow>
                    if length final_data > max_size then (p, Ok None) else (p, Ok (Some final_data))
                | (p, Err e) \<Rightarrow> (p, Err e)
                | (p, Panic) \<Rightarrow> (p, Panic))"

section \<open>Selection\<close>

definition encoded_size :: "ext \<Rightarrow> protocol_command list \<Rightarrow> nat" where
  "encoded_size X cs = (\<Sum>c\<leftarrow>cs. 2 + length (encode_command X c))"

lemma encoded_size_simps [simp]:
  "encoded_size X [] = 0" "encoded_size X (c # cs) = 2 + length (encode_command X c) + encoded_size X cs"
  by (simp_all add: encoded_size_def)

text \<open>The longest prefix within the budget \<open>b\<close>.\<close>

fun fitting :: "ext \<Rightarrow> nat \<Rightarrow> nat \<Rightarrow> protocol_command list \<Rightarrow> nat" where
  "fitting X b used [] = 0"
| "fitting X b used (c # cs) =
     (if b < used + (2 + length (encode_command X c)) then 0
      else Suc (fitting X b (used + (2 + length (encode_command X c))) cs))"

lemma select_commands_fitting:
  "select_commands X ov m cs n a =
     (n + fitting X m (ov + a) cs, a + encoded_size X (take (fitting X m (ov + a) cs) cs))"
proof (induction cs arbitrary: n a)
  case (Cons c cs)
  have eq: "ov + (a + (2 + length (encode_command X c))) = ov + a + (2 + length (encode_command X c))" by simp
  show ?case
    unfolding select_commands.simps Let_def fitting.simps Cons.IH eq by simp
qed simp

lemma fitting_le: "fitting X b u cs \<le> length cs"
  by (induction cs arbitrary: u) auto

lemma fitting_fits: "0 < fitting X b u cs \<Longrightarrow> u + encoded_size X (take (fitting X b u cs) cs) \<le> b"
proof (induction cs arbitrary: u)
  case (Cons c cs)
  let ?u = "u + (2 + length (encode_command X c))"
  show ?case
  proof (cases "fitting X b ?u cs")
    case 0
    then show ?thesis using Cons.prems by (auto split: if_splits)
  next
    case (Suc k)
    then have "?u + encoded_size X (take (fitting X b ?u cs) cs) \<le> b" by (intro Cons.IH) simp
    then show ?thesis using Cons.prems by (auto split: if_splits)
  qed
qed simp

lemma fitting_maximal:
  "fitting X b u cs < k \<Longrightarrow> k \<le> length cs \<Longrightarrow> b < u + encoded_size X (take k cs)"
proof (induction cs arbitrary: u k)
  case (Cons c cs)
  obtain j where k: "k = Suc j" using Cons.prems by (cases k) auto
  show ?case
    using Cons.prems Cons.IH [of "u + (2 + length (encode_command X c))" j]
    by (auto simp: k split: if_splits)
qed simp

section \<open>Emission\<close>

lemma foldl_add_command: "foldl add_command p cs = p @ cs"
  by (induction cs arbitrary: p) (simp_all add: add_command_def)

text \<open>The bytes of a datagram, as a function of the commands and the configuration.\<close>

definition datagram_of :: "ext \<Rightarrow> config \<Rightarrow> protocol_command list \<Rightarrow> (io_error, bytes) res" where
  "datagram_of X c cs =
     res_bind (compress_with_buffer X (encode_packet X cs) (compression c) (compression_threshold c) [])
       (\<lambda>z. Ok (if use_checksums c then append_checksum_in_place X z else z))"

lemma compress_buffer_irrelevant: "compress_with_buffer X d a t out = compress_with_buffer X d a t []"
  by (simp add: compress_with_buffer_def)

lemma emit_datagram_bytes:
  "byteorder_be X \<Longrightarrow> snd (emit_datagram X p cs) = datagram_of X (p_config p) cs"
  unfolding emit_datagram_def datagram_of_def Let_def split_beta
  by (subst compress_buffer_irrelevant)
     (simp add: encode_packet_into_append vec_clear_def record_packet_sent_def split: res.split)

lemma emit_datagram_keeps:
  "queue_of (fst (emit_datagram X p cs)) = queue_of p"
  "p_config (fst (emit_datagram X p cs)) = p_config p"
  "p_total_waiting_data (fst (emit_datagram X p cs)) = p_total_waiting_data p"
  "p_state (fst (emit_datagram X p cs)) = p_state p"
  "p_acknowledge_handler (fst (emit_datagram X p cs)) = p_acknowledge_handler p"
  by (simp_all add: emit_datagram_def Let_def split_beta queue_of_def peer_defs split: res.split)

lemma datagram_length:
  assumes "byteorder_be X" and "datagram_of X c cs = Ok d"
  shows "length d \<le> per_packet_overhead c + encoded_size X cs"
proof -
  obtain z where z: "compress_with_buffer X (encode_packet X cs) (compression c) (compression_threshold c) [] = Ok z"
    and d: "d = (if use_checksums c then append_checksum_in_place X z else z)"
    using assms(2) by (auto simp: datagram_of_def res_bind_Ok_iff)
  have "length z \<le> 2 + encoded_size X cs"
    using length_compress [OF z] length_encode_packet [OF assms(1), of cs] by (simp add: encoded_size_def)
  then show ?thesis
    by (auto simp: d per_packet_overhead_def compression_overhead_def checksum_overhead_def
        length_append_checksum split: compression_algorithm.split)
qed

section \<open>The bounded encoder\<close>

definition selected :: "ext \<Rightarrow> peer \<Rightarrow> usize \<Rightarrow> nat" where
  "selected X p max_size =
     fitting X (effective_max p max_size) (per_packet_overhead (p_config p)) (queue_of p)"

text \<open>Putting the rest back never loses a command: it was within the limit before.\<close>

lemma requeue_rest:
  assumes "waiting_inv p"
  shows "queue_of (enqueue_all (fst (drain_commands p)) (drop n (queue_of p))) = drop n (queue_of p)"
proof -
  have "data_size_of (queue_of p) = data_size_of (take n (queue_of p)) + data_size_of (drop n (queue_of p))"
    using data_size_of_simps(3) [of "take n (queue_of p)" "drop n (queue_of p)"] by simp
  then have "room_for (fst (drain_commands p)) (data_size_of (drop n (queue_of p)))"
    using assms by (auto simp: room_for_def waiting_inv_def drain_commands_result)
  then show ?thesis by (simp add: enqueue_all_room drain_commands_result)
qed

lemma bounded_nothing: "selected X p max_size = 0 \<Longrightarrow> encode_queued_commands_bounded X p max_size = (p, Ok None)"
  by (simp add: encode_queued_commands_bounded_def selected_def select_commands_fitting)

lemma bounded_something:
  assumes X: "byteorder_be X" and inv: "waiting_inv p" and n: "0 < selected X p max_size"
  defines "n \<equiv> selected X p max_size"
  shows "snd (encode_queued_commands_bounded X p max_size) =
      res_bind (datagram_of X (p_config p) (take n (queue_of p))) (\<lambda>d. Ok (Some d))"
    and "queue_of (fst (encode_queued_commands_bounded X p max_size)) = drop n (queue_of p)"
    and "waiting_inv (fst (encode_queued_commands_bounded X p max_size))"
    and "p_config (fst (encode_queued_commands_bounded X p max_size)) = p_config p"
    and "p_state (fst (encode_queued_commands_bounded X p max_size)) = p_state p"
proof -
  let ?q = "enqueue_all (fst (drain_commands p)) (drop n (queue_of p))"
  let ?e = "emit_datagram X ?q (take n (queue_of p))"
  have queue: "has_queued_commands p"
    using n by (cases "queue_of p") (simp_all add: selected_def has_queued_commands_def cq_is_empty_def queue_of_def)
  have eq: "encode_queued_commands_bounded X p max_size =
      (case ?e of (p, Ok d) \<Rightarrow> if length d > effective_max p0 max_size then (p, Ok None) else (p, Ok (Some d))
        | (p, Err e) \<Rightarrow> (p, Err e) | (p, Panic) \<Rightarrow> (p, Panic))" if "p0 = p" for p0
    using queue n unfolding that
    by (simp add: encode_queued_commands_bounded_def select_commands_fitting selected_def [symmetric] n_def
        split_beta Let_def drain_commands_result foldl_add_command cpk_new_def enqueue_all_def)
  have cfg: "p_config ?q = p_config p" by (simp add: drain_commands_result)
  have bytes: "snd ?e = datagram_of X (p_config p) (take n (queue_of p))"
    using emit_datagram_bytes [OF X, of ?q "take n (queue_of p)"] unfolding cfg .
  have "\<not> length d > effective_max p max_size" if "snd ?e = Ok d" for d
  proof -
    have "length d \<le> per_packet_overhead (p_config p) + encoded_size X (take n (queue_of p))"
      using that bytes by (intro datagram_length [OF X]) simp
    also have "\<dots> \<le> effective_max p max_size"
      using n unfolding n_def selected_def by (rule fitting_fits)
    finally show ?thesis by simp
  qed
  then have res: "encode_queued_commands_bounded X p max_size = (fst ?e, res_bind (snd ?e) (\<lambda>d. Ok (Some d)))"
    unfolding eq [OF refl] by (auto split: prod.split res.split)
  show "snd (encode_queued_commands_bounded X p max_size) =
      res_bind (datagram_of X (p_config p) (take n (queue_of p))) (\<lambda>d. Ok (Some d))"
    by (simp add: res bytes)
  show "queue_of (fst (encode_queued_commands_bounded X p max_size)) = drop n (queue_of p)"
    by (simp add: res emit_datagram_keeps requeue_rest [OF inv])
  have "waiting_inv ?q" by (intro waiting_inv_enqueue_all waiting_inv_drain inv)
  then show "waiting_inv (fst (encode_queued_commands_bounded X p max_size))"
    using waiting_inv_cong [of "fst ?e" ?q] by (simp add: res emit_datagram_keeps)
  show "p_config (fst (encode_queued_commands_bounded X p max_size)) = p_config p"
    by (simp add: res emit_datagram_keeps drain_commands_result)
  show "p_state (fst (encode_queued_commands_bounded X p max_size)) = p_state p"
    by (simp add: res emit_datagram_keeps) (simp add: drain_commands_def split_beta)
qed

lemma waiting_inv_bounded [inv_intros]:
  "byteorder_be X \<Longrightarrow> waiting_inv p \<Longrightarrow> waiting_inv (fst (encode_queued_commands_bounded X p max_size))"
  using bounded_nothing [of X p max_size] bounded_something(3) [of X p max_size]
  by (cases "selected X p max_size = 0") simp_all

section \<open>Properties\<close>

text \<open>
  C9: A datagram that the bounded encoder produces is at most as long as the limit, which is the given size or, when a PMTU
  probe is first, the receive buffer; it consists of a non-empty prefix of the queue, the rest of the queue is
  kept in order, and one more command would not have fitted.
\<close>

theorem bounded_datagram:
  assumes "byteorder_be X" and "waiting_inv p"
    and "encode_queued_commands_bounded X p max_size = (p', Ok (Some d))"
  shows "length d \<le> effective_max p max_size \<and>
    (\<exists>n > 0. datagram_of X (p_config p) (take n (queue_of p)) = Ok d \<and> queue_of p' = drop n (queue_of p) \<and>
       (n < length (queue_of p) \<longrightarrow>
          effective_max p max_size < per_packet_overhead (p_config p) + encoded_size X (take (Suc n) (queue_of p))))"
proof -
  let ?n = "selected X p max_size"
  have n: "0 < ?n" using assms(3) bounded_nothing [of X p max_size] by (cases ?n) auto
  note res = bounded_something [OF assms(1,2) n]
  have d: "datagram_of X (p_config p) (take ?n (queue_of p)) = Ok d" 
    using res(1) [symmetric] unfolding assms(3) snd_conv by (simp add: res_bind_Ok_iff)
  have "length d \<le> per_packet_overhead (p_config p) + encoded_size X (take ?n (queue_of p))"
    by (rule datagram_length [OF assms(1) d])
  also have "\<dots> \<le> effective_max p max_size" using n unfolding selected_def by (rule fitting_fits)
  finally have "length d \<le> effective_max p max_size" .
  moreover have "effective_max p max_size < per_packet_overhead (p_config p) + encoded_size X (take (Suc ?n) (queue_of p))"
    if "?n < length (queue_of p)"
    using that unfolding selected_def by (intro fitting_maximal) simp_all
  ultimately show ?thesis using n d res(2) assms(3) by auto
qed

text \<open>A peer with a ping and a pong queued.\<close>

definition sample_queued :: peer where
  "sample_queued = enqueue_pong_command (enqueue_ping_command sample_peer 5) 6"

lemma sample_queued_simps [simp]:
  "queue_of sample_queued = [Ping 5, Pong 6]" "p_config sample_queued = default_config" "waiting_inv sample_queued"
  by (simp_all add: sample_queued_def enqueue_pong_command_def enqueue_ping_command_def enqueue_command_result
      would_exceed_def default_config_def [THEN arg_cong, of max_waiting_data] waiting_inv_def)

lemma sample_datagram:
  "encode_queued_commands_bounded sample_ext sample_queued 17 =
     (fst (encode_queued_commands_bounded sample_ext sample_queued 17),
      Ok (Some [0, 1, 0, 5, 8, 0, 0, 0, 5, 0, 0, 0, 19]))"
proof -
  have e: "encode_command sample_ext (Ping 5) = [8, 0, 0, 0, 5]" "encode_command sample_ext (Pong 6) = [9, 0, 0, 0, 6]"
    by (simp_all add: encode_command_def sample_ext_def u32_to_be_bytes_def)
  have s: "selected sample_ext sample_queued 17 = 1"
    by (simp add: selected_def effective_max_def per_packet_overhead_def compression_overhead_def
        checksum_overhead_def e) (simp add: default_config_def)
  have "datagram_of sample_ext default_config [Ping 5] = Ok [0, 1, 0, 5, 8, 0, 0, 0, 5, 0, 0, 0, 19]"
    by (simp add: datagram_of_def default_config_def compress_no_compression encode_packet_framed framed_command_def e
        append_checksum_in_place_def) (simp add: sample_ext_def u16_to_be_bytes_def u32_to_be_bytes_def)
  then have "snd (encode_queued_commands_bounded sample_ext sample_queued 17) =
      Ok (Some [0, 1, 0, 5, 8, 0, 0, 0, 5, 0, 0, 0, 19])"
    using bounded_something(1) [OF sample_ext_byteorder, of sample_queued 17] by (simp add: s)
  then show ?thesis by (metis prod.collapse)
qed

theorem bounded_datagram_witness:
  "\<exists>n > 0. queue_of (fst (encode_queued_commands_bounded sample_ext sample_queued 17)) = drop n [Ping 5, Pong 6]"
  using bounded_datagram [OF sample_ext_byteorder _ sample_datagram] by auto

text \<open>
  The bounded encoder produces nothing, and then changes nothing, exactly when the queue is empty or its first command
  alone exceeds the limit; otherwise it produces a datagram unless the compressor fails.
\<close>

theorem bounded_progress:
  assumes "byteorder_be X" and "waiting_inv p"
  shows "(case queue_of p of
       [] \<Rightarrow> encode_queued_commands_bounded X p max_size = (p, Ok None)
     | c # _ \<Rightarrow>
         if effective_max p max_size < datagram_size X (p_config p) c
         then encode_queued_commands_bounded X p max_size = (p, Ok None)
         else snd (encode_queued_commands_bounded X p max_size) \<noteq> Ok None \<and>
              (compression (p_config p) = NoCompression \<longrightarrow>
                 (\<exists>d. snd (encode_queued_commands_bounded X p max_size) = Ok (Some d))))"
proof (cases "selected X p max_size = 0")
  case True
  then show ?thesis
    using bounded_nothing [OF True]
    by (cases "queue_of p") (auto simp: selected_def datagram_size_def split: if_splits)
next
  case False
  then have pos: "0 < selected X p max_size" by simp
  note res = bounded_something(1) [OF assms pos]
  obtain c cs where q: "queue_of p = c # cs" using False by (cases "queue_of p") (simp_all add: selected_def)
  have fits: "\<not> effective_max p max_size < datagram_size X (p_config p) c"
    using False by (simp add: selected_def q datagram_size_def split: if_splits)
  have "snd (encode_queued_commands_bounded X p max_size) \<noteq> Ok None"
    unfolding res by (simp add: res_bind_Ok_iff)
  moreover have "\<exists>d. snd (encode_queued_commands_bounded X p max_size) = Ok (Some d)"
    if "compression (p_config p) = NoCompression"
    unfolding res by (simp add: datagram_of_def that compress_no_compression)
  ultimately show ?thesis using fits by (simp add: q)
qed

theorem bounded_progress_witness:
  "\<exists>d. snd (encode_queued_commands_bounded sample_ext sample_queued 100) = Ok (Some d)"
proof -
  have "\<not> effective_max sample_queued 100 < datagram_size sample_ext default_config (Ping 5)"
    by (simp add: effective_max_def datagram_size_def per_packet_overhead_def compression_overhead_def
        checksum_overhead_def encode_command_def sample_ext_def u32_to_be_bytes_def split: compression_algorithm.split)
  then show ?thesis
    using bounded_progress [OF sample_ext_byteorder, of sample_queued 100] by (simp add: default_config_def)
qed

section \<open>The size of a probe\<close>

text \<open>
  The prober computes the payload of a probe from a copy of the overheads that the encoder and the codec produce. Without
  compression the sizes agree: a datagram is exactly as long as the overheads and its commands.
\<close>

lemma datagram_exact:
  assumes "byteorder_be X" and "compression c = NoCompression"
  shows "\<exists>d. datagram_of X c cs = Ok d \<and> length d = per_packet_overhead c + encoded_size X cs"
  using length_encode_packet [OF assms(1), of cs]
  by (simp add: datagram_of_def assms(2) compress_no_compression length_append_checksum per_packet_overhead_def
      compression_overhead_def checksum_overhead_def encoded_size_def)

text \<open>A probe that is sent is of the size recorded as outstanding, which a datagram can have.\<close>

lemma probe_sent:
  assumes "handle_pmtu m t r token fill = (m', Some c)"
  obtains size where "c = PMTUProbe size token (sb_from_vec (fill (probe_payload_len (pm_config m) size)))"
    "pm_outstanding m' = Some (size, token, t)" "pm_low m \<le> size" "unat size \<le> receive_buffer_max_size (pm_config m)"
proof -
  let ?cap = "datagram_cap (pm_config m)" and ?high = "min (pm_high m) (datagram_cap (pm_config m))"
  define mid :: u16 where "mid = of_nat ((unat (pm_low m) + unat ?high) div 2)"
  have res: "\<not> saturating_sub ?high (pm_low m) \<le> pmtu_converge_threshold (pm_config m)"
    "c = PMTUProbe (min mid ?cap) token (sb_from_vec (fill (probe_payload_len (pm_config m) (min mid ?cap))))"
    "pm_outstanding m' = Some (mid, token, t)"
    using assms by (auto simp: handle_pmtu_def Let_def mid_def min_def split: if_splits option.splits prod.splits)
  have "0 < unat (saturating_sub ?high (pm_low m))" using res(1) by (auto simp: word_le_nat_alt)
  then have lt: "unat (pm_low m) < unat ?high" by (simp add: unat_saturating_sub)
  have mid: "unat mid = (unat (pm_low m) + unat ?high) div 2"
    unfolding mid_def using lt unat_u16_bound [of ?high] by (intro unat_of_nat_u16) simp
  have cap: "unat ?cap = min (receive_buffer_max_size (pm_config m)) 65535"
    unfolding datagram_cap_def by (intro unat_of_nat_u16) simp
  have "unat ?high \<le> unat ?cap" by (simp add: unat_min_u16)
  then have le: "unat mid \<le> unat ?cap" "unat (pm_low m) \<le> unat mid" using lt mid by simp_all
  then have eq: "min mid ?cap = mid" by (simp add: min_def word_le_nat_alt)
  show thesis
    using le cap by (intro that [OF res(2) [unfolded eq] res(3)]) (simp_all add: word_le_nat_alt)
qed

text \<open>
  C20: Without compression, the datagram that starts with a probe is exactly of the probed size when nothing else is queued, whatever the size limit of
  the other datagrams is. Everything queued behind the probe that fits the receive buffer is packed into the same datagram, which makes it longer
  than the size under test.
\<close>

theorem probe_datagram_size:
  assumes "byteorder_be X" and "waiting_inv p" and "compression (p_config p) = NoCompression" and "\<forall>n. length (fill n) = n"
    and "pm_config m = p_config p" and "probe_overhead (p_config p) < unat (pm_low m)"
    and "handle_pmtu m t r token fill = (m', Some probe)" and "queue_of p = probe # rest"
  shows "\<exists>size n d p'. pm_outstanding m' = Some (size, token, t) \<and>
    encode_queued_commands_bounded X p max_size = (p', Ok (Some d)) \<and>
    length d = unat size + encoded_size X (take n rest) \<and> queue_of p' = drop n rest \<and>
    (n < length rest \<longrightarrow> receive_buffer_max_size (p_config p) < unat size + encoded_size X (take (Suc n) rest))"
proof -
  obtain size where probe: "probe = PMTUProbe size token (sb_from_vec (fill (probe_payload_len (p_config p) size)))"
    and out: "pm_outstanding m' = Some (size, token, t)"
    and size: "pm_low m \<le> size" "unat size \<le> receive_buffer_max_size (p_config p)"
    using probe_sent [OF assms(7)] unfolding assms(5) by blast
  have "probe_overhead (p_config p) < unat size" using size(1) assms(6) by (simp add: word_le_nat_alt)
  then have one: "per_packet_overhead (p_config p) + (2 + length (encode_command X probe)) = unat size"
    using assms(1,4) by (simp add: probe encode_command_def probe_payload_len_def probe_overhead_def wire_simps)
  let ?limit = "receive_buffer_max_size (p_config p)" and ?n = "selected X p max_size"
  have limit: "effective_max p max_size = ?limit" by (simp add: effective_max_def assms(8) probe)
  obtain n where n: "?n = Suc n"
    using one size(2) by (cases ?n) (simp_all add: selected_def limit assms(8) split: if_splits)
  note res = bounded_something [OF assms(1,2), of max_size, unfolded n, simplified]
  obtain d where d: "datagram_of X (p_config p) (probe # take n rest) = Ok d"
    "length d = per_packet_overhead (p_config p) + encoded_size X (probe # take n rest)"
    using datagram_exact [OF assms(1,3)] by blast
  have "snd (encode_queued_commands_bounded X p max_size) = Ok (Some d)" using res(1) d(1) by (simp add: assms(8))
  then have "encode_queued_commands_bounded X p max_size = (fst (encode_queued_commands_bounded X p max_size), Ok (Some d))"
    by (metis prod.collapse)
  moreover have "?limit < unat size + encoded_size X (take (Suc n) rest)" if "n < length rest"
  proof -
    have "effective_max p max_size < per_packet_overhead (p_config p) + encoded_size X (take (Suc ?n) (queue_of p))"
      using that n assms(8) unfolding selected_def by (intro fitting_maximal) simp_all
    then show ?thesis using one by (simp add: limit n assms(8))
  qed
  ultimately show ?thesis
    using out d(2) one res(2) by (intro exI [of _ size] exI [of _ n] exI [of _ d]) (auto simp: assms(8))
qed

text \<open>The first probe of a peer with the default configuration, with a ping queued behind it.\<close>

definition sample_fill :: "nat \<Rightarrow> bytes" where
  "sample_fill n = replicate n 0"

lemma length_sample_fill [simp]: "length (sample_fill n) = n"
  by (simp add: sample_fill_def)

definition sample_probe :: protocol_command where
  "sample_probe = PMTUProbe 988 3 (sb_from_vec (sample_fill 971))"

definition sample_probing :: peer where
  "sample_probing = enqueue_ping_command (fst (enqueue_command sample_peer sample_probe)) 5"

lemma sample_probing_simps:
  "queue_of sample_probing = [sample_probe, Ping 5]" "p_config sample_probing = default_config" "waiting_inv sample_probing"
proof -
  have p: "waiting_inv sample_peer" by (simp add: waiting_inv_def)
  show "waiting_inv sample_probing"
    unfolding sample_probing_def enqueue_ping_command_def by (intro inv_intros p)
  show "queue_of sample_probing = [sample_probe, Ping 5]" "p_config sample_probing = default_config"
    by (simp_all add: sample_probing_def enqueue_ping_command_def enqueue_command_result sample_probe_def
        would_exceed_def default_config_def [THEN arg_cong, of max_waiting_data])
qed

theorem probe_datagram_size_witness:
  "\<exists>d p'. encode_queued_commands_bounded sample_ext sample_probing 200 = (p', Ok (Some d)) \<and> length d = 995 \<and> queue_of p' = []"
proof -
  let ?m = "pm_new default_config 0"
  have low: "pm_config ?m = p_config sample_probing" "probe_overhead (p_config sample_probing) < unat (pm_low ?m)"
    "compression (p_config sample_probing) = NoCompression" "receive_buffer_max_size (p_config sample_probing) = 1452"
    by (simp_all add: sample_probing_simps pm_new_def probe_overhead_def per_packet_overhead_def compression_overhead_def
        checksum_overhead_def default_config_def DEFAULT_MTU_def)
  have h: "handle_pmtu ?m (from_millis 5000) 0 3 sample_fill =
      (?m\<lparr>pm_outstanding := Some (988, 3, from_millis 5000), pm_last_probe := from_millis 5000\<rparr>, Some sample_probe)"
    by (simp add: handle_pmtu_def Let_def pm_new_def default_config_def DEFAULT_MTU_def datagram_cap_def saturating_sub_def duration_since_def
        sample_probe_def probe_payload_len_def probe_overhead_def per_packet_overhead_def compression_overhead_def checksum_overhead_def)
  have ping: "encoded_size sample_ext [Ping 5] = 7"
    by (simp add: encode_command_def sample_ext_def u32_to_be_bytes_def)
  from probe_datagram_size [OF sample_ext_byteorder sample_probing_simps(3) low(3) _ low(1,2) h sample_probing_simps(1), of 200]
  obtain n d p' where r: "encode_queued_commands_bounded sample_ext sample_probing 200 = (p', Ok (Some d))"
    "length d = 988 + encoded_size sample_ext (take n [Ping 5])" "queue_of p' = drop n [Ping 5]"
    "n < 1 \<longrightarrow> 1452 < 988 + encoded_size sample_ext (take (Suc n) [Ping 5])"
    by (auto simp: low(4))
  then show ?thesis using ping by (cases n) auto
qed

end
