(* ===== verification/Peer_Processor.thy ===== *)
theory Peer_Processor
  imports Peer_Encoder
begin

text \<open>
  The command processor (\<^verbatim>\<open>bitfold-peer/src/peer/command_processor.rs\<close>): what a peer does with each of the sixteen
  commands, and how it opens a datagram. There is one definition for each arm of the source's match;
  \<open>process_command\<close> is the match. Every definition returns the changed peer also when the outcome is an error, because the
  source mutates the peer before it reports one.

  The random peer number of the \<open>Connect\<close> arm is the argument \<open>rnd\<close>. The arm draws it in state \<open>Idle\<close> and leaves that state,
  and no other code returns to it, so a datagram draws at most one.
\<close>

type_synonym processed = "peer \<times> (error_kind, incoming_packets) res"

definition nothing :: "peer \<Rightarrow> processed" where
  "nothing p = (p, Ok zom_zero)"

definition user_packet ::
  "peer \<Rightarrow> bytes \<Rightarrow> delivery_guarantee \<Rightarrow> ordering_guarantee \<Rightarrow> u8 \<Rightarrow> packet \<times> packet_type" where
  "user_packet p payload delivery order channel_id =
     (packet_new (p_remote_address p) payload delivery order channel_id, PtPacket)"

definition peer_process_incoming :: "peer \<Rightarrow> u16 \<Rightarrow> u32 \<Rightarrow> instant \<Rightarrow> peer" where
  "peer_process_incoming p sequence ack_mask time =
     p\<lparr>p_acknowledge_handler := process_incoming (p_acknowledge_handler p) sequence sequence ack_mask time\<rparr>"

section \<open>Data\<close>

definition proc_send_reliable :: "peer \<Rightarrow> u8 \<Rightarrow> u16 \<Rightarrow> bool \<Rightarrow> shared_bytes \<Rightarrow> instant \<Rightarrow> processed" where
  "proc_send_reliable p channel_id sequence is_ordered data time =
     (let p = peer_process_incoming p sequence 0 time;
          p = enqueue_ack_command p None
      in if is_ordered then
           let channel = hm_entry channel_id cst_new (p_channel_states p);
               (channel, ordered_packets) = process_ordered channel sequence (sb_from_arc (sb_to_arc data));
               p = p\<lparr>p_channel_states := hm_insert channel_id channel (p_channel_states p)\<rparr>
           in (p, Ok (zom_many (map (\<lambda>d. user_packet p (sb_to_arc d) Reliable (Ordered None) channel_id)
                                 ordered_packets)))
         else (p, Ok (zom_one (user_packet p (sb_to_arc data) Reliable NoOrdering channel_id))))"

definition proc_send_unreliable :: "peer \<Rightarrow> u8 \<Rightarrow> shared_bytes \<Rightarrow> processed" where
  "proc_send_unreliable p channel_id data =
     (p, Ok (zom_one (user_packet p (sb_to_arc data) Unreliable NoOrdering channel_id)))"

definition proc_send_unreliable_sequenced :: "peer \<Rightarrow> u8 \<Rightarrow> u16 \<Rightarrow> shared_bytes \<Rightarrow> processed" where
  "proc_send_unreliable_sequenced p channel_id sequence data =
     (let channel = hm_entry channel_id cst_new (p_channel_states p);
          (channel, result) = process_sequenced channel sequence (sb_from_arc (sb_to_arc data));
          p = p\<lparr>p_channel_states := hm_insert channel_id channel (p_channel_states p)\<rparr>
      in case result of
           Some packet_data \<Rightarrow>
             (p, Ok (zom_one (user_packet p (sb_to_arc packet_data) Unreliable (Sequenced None) channel_id)))
         | None \<Rightarrow> nothing p)"

definition proc_send_unsequenced :: "peer \<Rightarrow> u8 \<Rightarrow> u16 \<Rightarrow> shared_bytes \<Rightarrow> processed" where
  "proc_send_unsequenced p channel_id unsequenced_group data =
     (if is_unsequenced_duplicate p unsequenced_group then nothing p
      else let p = mark_unsequenced_received p unsequenced_group
           in (p, Ok (zom_one (user_packet p (sb_to_arc data) Unreliable Unsequenced channel_id))))"

section \<open>Fragments\<close>

text \<open>
  The beginning that both fragment arms share: store the fragment; when the buffer is complete,
  remove it and try to reassemble. The second component is the buffer and the joined payload.
\<close>

definition store_fragment ::
  "peer \<Rightarrow> u16 \<Rightarrow> command_fragment_buffer \<Rightarrow> u8 \<Rightarrow> shared_bytes \<Rightarrow>
     peer \<times> (command_fragment_buffer \<times> bytes) option" where
  "store_fragment p sequence fresh fragment_id data =
     (let buffer = hm_entry sequence fresh (p_command_fragments p);
          buffer = add_fragment buffer fragment_id (sb_to_arc data);
          p = p\<lparr>p_command_fragments := hm_insert sequence buffer (p_command_fragments p)\<rparr>
      in if fb_is_complete buffer then
           case hm_get (p_command_fragments p) sequence of
             Some buffer \<Rightarrow>
               (let p = p\<lparr>p_command_fragments := hm_delete sequence (p_command_fragments p)\<rparr>
                in case reassemble buffer of
                     Some reassembled \<Rightarrow> (p, Some (buffer, reassembled))
                   | None \<Rightarrow> (p, None))
           | None \<Rightarrow> (p, None)
         else (p, None))"

definition proc_send_fragment ::
  "peer \<Rightarrow> u8 \<Rightarrow> u16 \<Rightarrow> bool \<Rightarrow> u8 \<Rightarrow> u8 \<Rightarrow> shared_bytes \<Rightarrow> instant \<Rightarrow> processed" where
  "proc_send_fragment p channel_id sequence is_ordered fragment_id fragment_count data time =
     (let p = peer_process_incoming p sequence 0 time
      in case store_fragment p sequence (fb_new channel_id fragment_count is_ordered time) fragment_id data of
           (p, None) \<Rightarrow> nothing p
         | (p, Some (buffer, reassembled)) \<Rightarrow>
             (let channel_id = fb_channel_id buffer;
                  p = enqueue_ack_command p None
              in if fb_ordered buffer then
                   let channel = hm_entry channel_id cst_new (p_channel_states p);
                       (channel, ready_packets) = process_ordered channel sequence (sb_from_vec reassembled);
                       p = p\<lparr>p_channel_states := hm_insert channel_id channel (p_channel_states p)\<rparr>
                   in case ready_packets of
                        [] \<Rightarrow> nothing p
                      | [d] \<Rightarrow> (p, Ok (zom_one (user_packet p (sb_to_arc d) Reliable NoOrdering channel_id)))
                      | ds \<Rightarrow> (p, Ok (zom_many
                                 (map (\<lambda>d. user_packet p (sb_to_arc d) Reliable NoOrdering channel_id) ds)))
                 else (p, Ok (zom_one (user_packet p reassembled Reliable NoOrdering channel_id)))))"

definition proc_send_unreliable_fragment ::
  "peer \<Rightarrow> u8 \<Rightarrow> u16 \<Rightarrow> u8 \<Rightarrow> u8 \<Rightarrow> shared_bytes \<Rightarrow> instant \<Rightarrow> processed" where
  "proc_send_unreliable_fragment p channel_id sequence fragment_id fragment_count data time =
     (case store_fragment p sequence (fb_new channel_id fragment_count False time) fragment_id data of
        (p, None) \<Rightarrow> nothing p
      | (p, Some (buffer, reassembled)) \<Rightarrow>
          (p, Ok (zom_one (user_packet p reassembled Unreliable NoOrdering (fb_channel_id buffer)))))"

section \<open>Connection and control\<close>

definition proc_connect :: "peer \<Rightarrow> u8 \<Rightarrow> u16 \<Rightarrow> u32 \<Rightarrow> u16 \<Rightarrow> processed" where
  "proc_connect p channels their_session_id connect_id rnd =
     (if p_state p = Idle then
        let p = p\<lparr>p_incoming_session_id := their_session_id, p_peer_id := rnd, p_connect_id := connect_id,
                  p_state := AcknowledgingConnect\<rparr>;
            verify_command = VerifyConnect (p_peer_id p) (min channels (channel_count (p_config p))) 1400
              (p_incoming_session_id p) (p_outgoing_session_id p) (fc_window_size (p_flow_control p))
        in nothing (fst (queue_command p verify_command))
      else nothing p)"

definition proc_verify_connect :: "peer \<Rightarrow> u16 \<Rightarrow> u16 \<Rightarrow> u16 \<Rightarrow> u32 \<Rightarrow> processed" where
  "proc_verify_connect p peer_id incoming_session_id outgoing_session_id window_size =
     (if p_state p = Connecting then
        let p = p\<lparr>p_peer_id := peer_id, p_incoming_session_id := incoming_session_id\<rparr>;
            r = (if use_window_flow_control (p_config p)
                 then peer_set_window_size p (min window_size (fc_window_size (p_flow_control p)))
                 else Ok p)
        in case r of
             Ok p \<Rightarrow>
               if outgoing_session_id \<noteq> p_outgoing_session_id p
               then (p, Err (CouldNotReadHeader SessionIdMismatch))
               else nothing (p\<lparr>p_state := ConnectionSucceeded\<rparr>)
           | Err e \<Rightarrow> (p, Err e)
           | Panic \<Rightarrow> (p, Panic)
      else nothing p)"

definition proc_bandwidth_limit :: "peer \<Rightarrow> u32 \<Rightarrow> u32 \<Rightarrow> processed" where
  "proc_bandwidth_limit p incoming outgoing =
     (let p = p\<lparr>p_config := (p_config p)\<lparr>incoming_bandwidth_limit := incoming, outgoing_bandwidth_limit := outgoing\<rparr>\<rparr>;
          b = set_incoming_bandwidth_limit (p_bandwidth_throttle p) incoming;
          b = set_outgoing_bandwidth_limit b outgoing
      in nothing (p\<lparr>p_bandwidth_throttle := b\<rparr>))"

definition proc_throttle_configure :: "peer \<Rightarrow> u32 \<Rightarrow> u32 \<Rightarrow> u32 \<Rightarrow> processed" where
  "proc_throttle_configure p interval acceleration deceleration =
     nothing (p\<lparr>p_acknowledge_handler := (p_acknowledge_handler p)
       \<lparr>ah_congestion := configure_throttle (ah_congestion (p_acknowledge_handler p)) interval acceleration deceleration\<rparr>\<rparr>)"

definition proc_pmtu_reply :: "peer \<Rightarrow> u16 \<Rightarrow> u32 \<Rightarrow> instant \<Rightarrow> processed" where
  "proc_pmtu_reply p replied token time = nothing (p\<lparr>p_pmtu := fst (process_reply (p_pmtu p) replied token time)\<rparr>)"

definition process_command :: "u16 \<Rightarrow> peer \<Rightarrow> protocol_command \<Rightarrow> instant \<Rightarrow> processed" where
  "process_command rnd p command time =
     (let p = p\<lparr>p_last_heard := time\<rparr>
      in case command of
           Acknowledge sequence received_mask _ \<Rightarrow> nothing (peer_process_incoming p sequence received_mask time)
         | Ping timestamp \<Rightarrow> nothing (enqueue_pong_command p timestamp)
         | Pong _ \<Rightarrow> nothing p
         | SendReliable channel_id sequence is_ordered data \<Rightarrow>
             proc_send_reliable p channel_id sequence is_ordered data time
         | SendUnreliable channel_id data \<Rightarrow> proc_send_unreliable p channel_id data
         | SendUnreliableSequenced channel_id sequence data \<Rightarrow>
             proc_send_unreliable_sequenced p channel_id sequence data
         | SendUnsequenced channel_id unsequenced_group data \<Rightarrow>
             proc_send_unsequenced p channel_id unsequenced_group data
         | SendFragment channel_id sequence is_ordered fragment_id fragment_count data \<Rightarrow>
             proc_send_fragment p channel_id sequence is_ordered fragment_id fragment_count data time
         | SendUnreliableFragment channel_id sequence fragment_id fragment_count data \<Rightarrow>
             proc_send_unreliable_fragment p channel_id sequence fragment_id fragment_count data time
         | Disconnect _ \<Rightarrow> nothing (p\<lparr>p_state := Zombie\<rparr>)
         | Connect channels _ _ outgoing_session_id connect_id \<Rightarrow>
             proc_connect p channels outgoing_session_id connect_id rnd
         | VerifyConnect peer_id _ _ incoming_session_id outgoing_session_id window_size \<Rightarrow>
             proc_verify_connect p peer_id incoming_session_id outgoing_session_id window_size
         | BandwidthLimit incoming outgoing \<Rightarrow> proc_bandwidth_limit p incoming outgoing
         | ThrottleConfigure interval acceleration deceleration \<Rightarrow>
             proc_throttle_configure p interval acceleration deceleration
         | PMTUProbe probed token _ \<Rightarrow> nothing (fst (enqueue_command p (create_reply probed token)))
         | PMTUReply probed token \<Rightarrow> proc_pmtu_reply p probed token time)"

section \<open>Datagrams\<close>

text \<open>The layers of a datagram, outermost first; the errors are the text of the I/O error.\<close>

definition open_datagram :: "ext \<Rightarrow> config \<Rightarrow> bytes \<Rightarrow> (error_kind, command_packet) res" where
  "open_datagram X config data =
     map_err (\<lambda>e. CouldNotReadHeader (IoText e))
       (res_bind (if use_checksums config then validate_and_strip_checksum X data else Ok data) (\<lambda>payload.
        res_bind (decompress X payload) (\<lambda>decompressed.
        decode_packet X decompressed)))"

fun process_commands ::
  "u16 \<Rightarrow> peer \<Rightarrow> protocol_command list \<Rightarrow> instant \<Rightarrow> (packet \<times> packet_type) list \<Rightarrow> processed" where
  "process_commands rnd p [] time all_packets = (p, Ok (zom_many all_packets))"
| "process_commands rnd p (command # commands) time all_packets =
     (case process_command rnd p command time of
        (p, Ok packets) \<Rightarrow> process_commands rnd p commands time (all_packets @ zom_collect packets)
      | (p, Err e) \<Rightarrow> (p, Err e)
      | (p, Panic) \<Rightarrow> (p, Panic))"

definition process_command_packet :: "ext \<Rightarrow> u16 \<Rightarrow> peer \<Rightarrow> bytes \<Rightarrow> instant \<Rightarrow> processed" where
  "process_command_packet X rnd p data time =
     (let p = record_data_received p (length data)
      in case open_datagram X (p_config p) data of
           Ok commands \<Rightarrow> process_commands rnd (record_packet_received p) commands time []
         | Err e \<Rightarrow> (p, Err e)
         | Panic \<Rightarrow> (p, Panic))"

section \<open>Runs\<close>

text \<open>
  The packets a peer delivers to the application over a sequence of arrivals. A command that fails delivers nothing
  and the next one is processed all the same.
\<close>

fun arrivals ::
  "u16 \<Rightarrow> peer \<Rightarrow> (protocol_command \<times> instant) list \<Rightarrow> peer \<times> (packet \<times> packet_type) list" where
  "arrivals rnd p [] = (p, [])"
| "arrivals rnd p ((c, t) # cs) =
     (let (p, r) = process_command rnd p c t;
          (p', out) = arrivals rnd p cs
      in (p', (case r of Ok z \<Rightarrow> zom_collect z | _ \<Rightarrow> []) @ out))"

lemma arrivals_append:
  "arrivals rnd p (xs @ ys) =
     (let (p, out) = arrivals rnd p xs; (p', out') = arrivals rnd p ys in (p', out @ out'))"
  by (induction xs arbitrary: p) (auto simp: Let_def split: prod.splits)

section \<open>Reassembly at the receiver\<close>

text \<open>The fragments numbered by \<open>is\<close> of a packet cut into \<open>ds\<close>, as the reassembly buffer sees them.\<close>

definition numbered :: "shared_bytes list \<Rightarrow> nat list \<Rightarrow> (u8 \<times> bytes) list" where
  "numbered ds is = map (\<lambda>i. (of_nat i, sb_as_slice (ds ! i))) is"

lemma add_fragments_snoc:
  "sb_wf (ds ! j) \<Longrightarrow>
   add_fragments b (numbered ds (is @ [j])) = add_fragment (add_fragments b (numbered ds is)) (of_nat j) (sb_to_arc (ds ! j))"
  by (simp add: numbered_def add_fragments_def)

lemma u8_image_iff:
  assumes "S \<subseteq> {..<256}"
  shows "(k :: u8) \<in> of_nat ` S \<longleftrightarrow> unat k \<in> S"
proof
  assume "k \<in> of_nat ` S"
  then obtain i where "i \<in> S" "k = of_nat i" by blast
  then show "unat k \<in> S" using assms by (auto simp: unat_of_nat_u8 subset_iff)
next
  assume "unat k \<in> S"
  then have "of_nat (unat k) \<in> (of_nat ` S :: u8 set)" by (rule imageI)
  then show "k \<in> of_nat ` S" by simp
qed

lemma add_fragments_keep:
  "fb_channel_id (add_fragments b fs) = fb_channel_id b" "fb_ordered (add_fragments b fs) = fb_ordered b"
  unfolding add_fragments_def by (induction fs arbitrary: b) (simp_all add: add_fragment_def split_beta)

lemma buffer_contents:
  fixes c :: u8 and o_flag :: bool and t :: instant
  assumes "set is \<subseteq> {..<length ds}" "length ds < 256"
  defines "b \<equiv> add_fragments (fb_new c (of_nat (length ds)) o_flag t) (numbered ds is)"
  shows "hm_wf (fb_fragments b)" "fb_fragment_count b = of_nat (length ds)"
    and "hm_get (fb_fragments b) k = (if unat k \<in> set is then Some (sb_as_slice (ds ! unat k)) else None)"
    and "fb_channel_id b = c" "fb_ordered b = o_flag"
proof -
  have bound: "i < 256" if "i \<in> set is" for i using that assms by auto
  have f: "\<forall>(i, d) \<in> set (numbered ds is). d = sb_as_slice (ds ! unat i)"
    using bound by (auto simp: numbered_def unat_of_nat_u8)
  have "fst ` set (numbered ds is) = (of_nat ` set is :: u8 set)" by (force simp: numbered_def)
  then have img: "k \<in> fst ` set (numbered ds is) \<longleftrightarrow> unat k \<in> set is"
    using u8_image_iff [of "set is" k] bound by auto
  note res = add_fragments_result [OF f, of "fb_new c (of_nat (length ds)) o_flag t" k, folded b_def, unfolded img]
  show "hm_wf (fb_fragments b)" "fb_fragment_count b = of_nat (length ds)"
    "hm_get (fb_fragments b) k = (if unat k \<in> set is then Some (sb_as_slice (ds ! unat k)) else None)"
    using res by (simp_all add: fb_new_def)
  show "fb_channel_id b = c" "fb_ordered b = o_flag" by (simp_all add: b_def add_fragments_keep fb_new_def)
qed

lemma buffer_complete:
  fixes c :: u8 and o_flag :: bool and t :: instant
  assumes "set is \<subseteq> {..<length ds}" "length ds < 256"
  defines "b \<equiv> add_fragments (fb_new c (of_nat (length ds)) o_flag t) (numbered ds is)"
  shows "fb_is_complete b \<longleftrightarrow> set is = {..<length ds}"
    and "set is = {..<length ds} \<Longrightarrow> reassemble b = Some (concat (map sb_as_slice ds))"
proof -
  note cont = buffer_contents [OF assms(1,2), of c o_flag t, folded b_def]
  have sub: "set is \<subseteq> {..<256}" using assms(1,2) by auto
  have dom: "dom (hm_get (fb_fragments b)) = of_nat ` set is"
    by (intro set_eqI) (simp add: u8_image_iff [OF sub] domIff cont(3))
  have "inj_on (of_nat :: nat \<Rightarrow> u8) (set is)"
    using sub by (intro inj_onI) (metis lessThan_iff subsetD unat_of_nat_u8)
  then have "hm_len (fb_fragments b) = card (set is)"
    by (simp add: hm.len_card [OF cont(1)] dom card_image)
  then have "fb_is_complete b \<longleftrightarrow> card (set is) = card {..<length ds}"
    using assms(2) by (simp add: fb_is_complete_def cont(2) unat_of_nat_u8)
  also have "\<dots> \<longleftrightarrow> set is = {..<length ds}"
    using card_subset_eq [OF finite_lessThan assms(1)] by metis
  finally show complete: "fb_is_complete b \<longleftrightarrow> set is = {..<length ds}" .
  assume all: "set is = {..<length ds}"
  have "dom (hm_get (fb_fragments b)) = {i. i < fb_fragment_count b}"
    unfolding dom all cont(2) using u8_range_of_nat [of "of_nat (length ds)"] assms(2)
    by (simp add: unat_of_nat_u8 lessThan_atLeast0)
  moreover have "map (\<lambda>i. the (hm_get (fb_fragments b) (of_nat i))) [0..<length ds] = map sb_as_slice ds"
    using assms(2) by (intro nth_equalityI) (simp_all add: cont(3) all unat_of_nat_u8)
  ultimately show "reassemble b = Some (concat (map sb_as_slice ds))"
    using assms(2) by (simp add: reassemble_result [OF cont(1)] cont(2) unat_of_nat_u8)
qed

text \<open>The peer has stored the fragments \<open>is\<close> of packet \<open>s\<close> and no others.\<close>

definition collecting :: "peer \<Rightarrow> u16 \<Rightarrow> u8 \<Rightarrow> bool \<Rightarrow> shared_bytes list \<Rightarrow> nat list \<Rightarrow> bool" where
  "collecting p s c o_flag ds is \<longleftrightarrow> (is = [] \<and> hm_get (p_command_fragments p) s = None) \<or>
     (\<exists>t. hm_get (p_command_fragments p) s =
            Some (add_fragments (fb_new c (of_nat (length ds)) o_flag t) (numbered ds is)))"

lemma collecting_entry:
  assumes "collecting p s c o_flag ds is"
  shows "\<exists>t'. hm_entry s (fb_new c (of_nat (length ds)) o_flag t) (p_command_fragments p) =
    add_fragments (fb_new c (of_nat (length ds)) o_flag t') (numbered ds is)"
  using assms unfolding collecting_def
proof (elim disjE conjE exE)
  assume "is = []" "hm_get (p_command_fragments p) s = None"
  then show ?thesis by (intro exI [of _ t]) (simp add: numbered_def add_fragments_def)
qed auto

lemma store_fragment_step:
  assumes col: "collecting p s c o_flag ds is" and bound: "set is \<subseteq> {..<length ds}" "j < length ds" "length ds < 256"
    and wf: "\<forall>d \<in> set ds. sb_wf d"
  shows "\<exists>m b. store_fragment p s (fb_new c (of_nat (length ds)) o_flag t) (of_nat j) (ds ! j) =
      (p\<lparr>p_command_fragments := m\<rparr>,
       if set (is @ [j]) = {..<length ds} then Some (b, concat (map sb_as_slice ds)) else None) \<and>
     fb_channel_id b = c \<and> fb_ordered b = o_flag \<and>
     (if set (is @ [j]) = {..<length ds} then hm_get m s = None
      else collecting (p\<lparr>p_command_fragments := m\<rparr>) s c o_flag ds (is @ [j]))"
proof -
  obtain t' where entry: "hm_entry s (fb_new c (of_nat (length ds)) o_flag t) (p_command_fragments p) =
      add_fragments (fb_new c (of_nat (length ds)) o_flag t') (numbered ds is)"
    using collecting_entry [OF col] by blast
  define b where "b = add_fragments (fb_new c (of_nat (length ds)) o_flag t') (numbered ds (is @ [j]))"
  have sub: "set (is @ [j]) \<subseteq> {..<length ds}" using bound by simp
  have b: "add_fragment (hm_entry s (fb_new c (of_nat (length ds)) o_flag t) (p_command_fragments p))
      (of_nat j) (sb_to_arc (ds ! j)) = b"
    unfolding entry b_def by (rule add_fragments_snoc [symmetric]) (use wf bound in auto)
  have fields: "fb_channel_id b = c" "fb_ordered b = o_flag"
    by (simp_all add: b_def add_fragments_keep fb_new_def)
  note complete = buffer_complete [OF sub bound(3), of c o_flag t', folded b_def]
  show ?thesis
  proof (cases "set (is @ [j]) = {..<length ds}")
    case True
    then show ?thesis
      using complete fields
      by (intro exI [of _ "hm_delete s (hm_insert s b (p_command_fragments p))"] exI [of _ b])
         (simp add: store_fragment_def b)
  next
    case False
    then show ?thesis
      using complete fields
      by (intro exI [of _ "hm_insert s b (p_command_fragments p)"] exI [of _ b])
         (auto simp: store_fragment_def b collecting_def b_def)
  qed
qed

lemma enqueue_ack_keeps [simp]:
  "p_command_fragments (enqueue_ack_command p t) = p_command_fragments p"
  "p_channel_states (enqueue_ack_command p t) = p_channel_states p"
  "p_remote_address (enqueue_ack_command p t) = p_remote_address p"
  "p_state (enqueue_ack_command p t) = p_state p"
  "p_acknowledge_handler (enqueue_ack_command p t) = p_acknowledge_handler p"
  by (simp_all add: enqueue_ack_command_def enqueue_command_def queue_command_def Let_def split_beta)

lemma peer_process_incoming_keeps [simp]:
  "p_command_fragments (peer_process_incoming p s m t) = p_command_fragments p"
  "p_channel_states (peer_process_incoming p s m t) = p_channel_states p"
  "p_remote_address (peer_process_incoming p s m t) = p_remote_address p"
  "p_state (peer_process_incoming p s m t) = p_state p"
  "p_config (peer_process_incoming p s m t) = p_config p"
  by (simp_all add: peer_process_incoming_def)

lemma collecting_cong: "p_command_fragments p = p_command_fragments q \<Longrightarrow>
    collecting p s c o_flag ds is = collecting q s c o_flag ds is"
  by (simp add: collecting_def)

text \<open>
  The commands that carry data of either delivery: whole, or as a fragment. Only reliable data can be ordered.
\<close>

fun data_command :: "delivery_guarantee \<Rightarrow> u8 \<Rightarrow> u16 \<Rightarrow> bool \<Rightarrow> shared_bytes \<Rightarrow> protocol_command" where
  "data_command Reliable c s o_flag d = SendReliable c s o_flag d"
| "data_command Unreliable c s o_flag d = SendUnreliable c d"

fun fragment_command :: "delivery_guarantee \<Rightarrow> u8 \<Rightarrow> u16 \<Rightarrow> bool \<Rightarrow> u8 \<Rightarrow> u8 \<Rightarrow> shared_bytes \<Rightarrow> protocol_command" where
  "fragment_command Reliable c s o_flag i n d = SendFragment c s o_flag i n d"
| "fragment_command Unreliable c s o_flag i n d = SendUnreliableFragment c s i n d"

lemma proc_fragment_step:
  assumes col: "collecting p s c o_flag ds is" and bound: "set is \<subseteq> {..<length ds}" "j < length ds" "length ds < 256"
    and wf: "\<forall>d \<in> set ds. sb_wf d" and part: "set (is @ [j]) \<noteq> {..<length ds}" and del: "o_flag \<Longrightarrow> del = Reliable"
  shows "\<exists>p'. process_command rnd p (fragment_command del c s o_flag (of_nat j) (of_nat (length ds)) (ds ! j)) t = (p', Ok zom_zero) \<and>
    collecting p' s c o_flag ds (is @ [j]) \<and> p_channel_states p' = p_channel_states p \<and>
    p_remote_address p' = p_remote_address p"
proof -
  let ?q = "p\<lparr>p_last_heard := t\<rparr>"
  let ?p = "peer_process_incoming ?q s 0 t"
  have col': "collecting ?p s c o_flag ds is" "collecting ?q s c o_flag ds is" using col by (simp_all add: collecting_def)
  show ?thesis
  proof (cases del)
    case Reliable
    then show ?thesis
      using store_fragment_step [OF col'(1) bound wf, of t] part by (auto simp: process_command_def proc_send_fragment_def nothing_def)
  next
    case Unreliable
    then show ?thesis
      using store_fragment_step [OF col'(2) bound wf, of t] part del by (auto simp: process_command_def proc_send_unreliable_fragment_def nothing_def)
  qed
qed

lemma proc_fragment_last:
  assumes col: "collecting p s c o_flag ds is" and bound: "set is \<subseteq> {..<length ds}" "j < length ds" "length ds < 256"
    and wf: "\<forall>d \<in> set ds. sb_wf d" and full: "set (is @ [j]) = {..<length ds}" and del: "o_flag \<Longrightarrow> del = Reliable"
  shows "\<exists>p' z. process_command rnd p (fragment_command del c s o_flag (of_nat j) (of_nat (length ds)) (ds ! j)) t = (p', Ok z) \<and>
    hm_get (p_command_fragments p') s = None \<and>
    map fst (zom_collect z) = map (\<lambda>d. packet_new (p_remote_address p) (sb_to_arc d) del NoOrdering c)
      (if o_flag then snd (process_ordered (hm_entry c cst_new (p_channel_states p)) s
                             (sb_from_vec (concat (map sb_as_slice ds))))
       else [sb_from_vec (concat (map sb_as_slice ds))])"
proof -
  let ?q = "p\<lparr>p_last_heard := t\<rparr>"
  let ?p = "peer_process_incoming ?q s 0 t"
  let ?pay = "concat (map sb_as_slice ds)"
  have col': "collecting ?p s c o_flag ds is" "collecting ?q s c o_flag ds is" using col by (simp_all add: collecting_def)
  obtain m b where st: "store_fragment ?p s (fb_new c (of_nat (length ds)) o_flag t) (of_nat j) (ds ! j) =
      (?p\<lparr>p_command_fragments := m\<rparr>, Some (b, ?pay))" and b: "fb_channel_id b = c" "fb_ordered b = o_flag"
    and m: "hm_get m s = None"
    using store_fragment_step [OF col'(1) bound wf, of t] full by auto
  show ?thesis
  proof (cases o_flag)
    case True
    obtain ch ready where ro: "process_ordered (hm_entry c cst_new (p_channel_states p)) s (sb_from_vec ?pay) = (ch, ready)"
      by fastforce
    have fo: "fb_ordered b" using True b by simp
    have rel: "del = Reliable" using del True by simp
    show ?thesis
      unfolding rel if_P [OF True] using m
      by (cases ready rule: remdups_adj.cases)
         (simp_all add: process_command_def proc_send_fragment_def st b(1) fo ro nothing_def user_packet_def)
  next
    case False
    then have fo: "\<not> fb_ordered b" using b by simp
    show ?thesis
    proof (cases del)
      case Reliable
      then show ?thesis
        unfolding if_not_P [OF False] using m by (simp add: process_command_def proc_send_fragment_def st b(1) fo user_packet_def)
    next
      case Unreliable
      then show ?thesis
        unfolding if_not_P [OF False] using store_fragment_step [OF col'(2) bound wf, of t] full False
        by (auto simp: process_command_def proc_send_unreliable_fragment_def user_packet_def)
    qed
  qed
qed

text \<open>The arrival of fragments, each with its time.\<close>

definition fragment_arrivals ::
  "delivery_guarantee \<Rightarrow> u8 \<Rightarrow> u16 \<Rightarrow> bool \<Rightarrow> shared_bytes list \<Rightarrow> (nat \<times> instant) list \<Rightarrow> (protocol_command \<times> instant) list" where
  "fragment_arrivals del c s o_flag ds its =
     map (\<lambda>(i, t). (fragment_command del c s o_flag (of_nat i) (of_nat (length ds)) (ds ! i), t)) its"

lemma arrivals_partial:
  assumes "collecting p s c o_flag ds ks" "length ds < 256" "\<forall>d \<in> set ds. sb_wf d"
    and "set ks \<union> fst ` set its \<subset> {..<length ds}" and del: "o_flag \<Longrightarrow> del = Reliable"
  shows "\<exists>p'. arrivals rnd p (fragment_arrivals del c s o_flag ds its) = (p', []) \<and>
    collecting p' s c o_flag ds (ks @ map fst its) \<and> p_channel_states p' = p_channel_states p \<and>
    p_remote_address p' = p_remote_address p"
  using assms(1-4)
proof (induction its arbitrary: p ks)
  case Nil
  then show ?case by (simp add: fragment_arrivals_def)
next
  case (Cons x its)
  obtain i t where x: "x = (i, t)" by fastforce
  have bound: "set ks \<subseteq> {..<length ds}" "i < length ds" "set (ks @ [i]) \<noteq> {..<length ds}"
    using Cons.prems(4) by (auto simp: x)
  obtain p1 where p1: "process_command rnd p (fragment_command del c s o_flag (of_nat i) (of_nat (length ds)) (ds ! i)) t
      = (p1, Ok zom_zero)" "collecting p1 s c o_flag ds (ks @ [i])"
    "p_channel_states p1 = p_channel_states p" "p_remote_address p1 = p_remote_address p"
    using proc_fragment_step [OF Cons.prems(1) bound(1,2) Cons.prems(2,3) bound(3) del] by blast
  have "set (ks @ [i]) \<union> fst ` set its \<subset> {..<length ds}" using Cons.prems(4) by (simp add: x)
  from Cons.IH [OF p1(2) Cons.prems(2,3) this] p1 show ?case by (auto simp: x fragment_arrivals_def)
qed

lemma process_ordered_first: "snd (process_ordered cst_new 0 d) = [d]"
proof -
  let ?c = "cst_new\<lparr>buffered_packets := [], expected_sequence := 1\<rparr>"
  have "deliver_loop (cst_new\<lparr>buffered_packets := hm_insert 0 d (buffered_packets cst_new)\<rparr>) [] = deliver_loop ?c [d]"
    by (subst deliver_loop.simps) (simp add: cst_new_def hm_defs)
  also have "\<dots> = (?c, [d])" by (subst deliver_loop.simps) (simp add: hm_get_def)
  finally show ?thesis by (simp add: process_ordered_def)
qed

lemma fragments_delivered:
  assumes fresh: "hm_get (p_command_fragments p) s = None"
    and wf: "length ds < 256" "\<forall>d \<in> set ds. sb_wf d"
    and order: "set (map fst its) \<union> {j} = {..<length ds}" "j \<notin> set (map fst its)"
    and chan: "o_flag \<Longrightarrow> s = 0 \<and> hm_get (p_channel_states p) c = None" and del: "o_flag \<Longrightarrow> del = Reliable"
  shows "map fst (snd (arrivals rnd p (fragment_arrivals del c s o_flag ds (its @ [(j, t)])))) =
    [packet_new (p_remote_address p) (concat (map sb_as_slice ds)) del NoOrdering c]"
proof -
  have start: "collecting p s c o_flag ds []" using fresh by (simp add: collecting_def)
  have part: "set [] \<union> fst ` set its \<subset> {..<length ds}" using order by auto
  obtain p1 where p1: "arrivals rnd p (fragment_arrivals del c s o_flag ds its) = (p1, [])"
    "collecting p1 s c o_flag ds ([] @ map fst its)" "p_channel_states p1 = p_channel_states p"
    "p_remote_address p1 = p_remote_address p"
    using arrivals_partial [OF start wf part del] by blast
  have bound: "set ([] @ map fst its) \<subseteq> {..<length ds}" "j < length ds" "set (([] @ map fst its) @ [j]) = {..<length ds}"
    using order by auto
  obtain p2 z where "process_command rnd p1 (fragment_command del c s o_flag (of_nat j) (of_nat (length ds)) (ds ! j)) t = (p2, Ok z)"
    "map fst (zom_collect z) = map (\<lambda>d. packet_new (p_remote_address p) (sb_to_arc d) del NoOrdering c)
      (if o_flag then snd (process_ordered (hm_entry c cst_new (p_channel_states p)) s (sb_from_vec (concat (map sb_as_slice ds))))
       else [sb_from_vec (concat (map sb_as_slice ds))])"
    using proc_fragment_last [OF p1(2) bound(1,2) wf bound(3) del] p1(3,4) by metis
  then show ?thesis
    using p1(1) chan by (cases o_flag) (simp_all add: fragment_arrivals_def arrivals_append process_ordered_first)
qed

end
