(* ===== verification/Peer_Protocol.thy ===== *)
theory Peer_Protocol
  imports Peer_Processor
begin

text \<open>
  What two peers achieve together through the processor of \<open>Peer_Processor\<close>: a datagram carries a prefix of the sender's
  queue to the receiver, the connection handshake, and the outcomes of a command. Some results are about
  behaviour that is probably not intended; they are marked as such.
\<close>

section \<open>From the encoder to the processor\<close>

lemma encode_command_min: "byteorder_be X \<Longrightarrow> 4 \<le> length (encode_command X c)"
  by (cases c) (simp_all add: encode_command_def byteorder_len16 byteorder_len32)

lemma encoded_size_count: "byteorder_be X \<Longrightarrow> 6 * length cs \<le> encoded_size X cs"
proof (induction cs)
  case (Cons c cs)
  then show ?case using encode_command_min [of X c] by simp
qed simp

lemma encoded_size_member: "c \<in> set cs \<Longrightarrow> length (encode_command X c) \<le> encoded_size X cs"
  by (induction cs) auto

lemma open_datagram_of:
  assumes X: "byteorder_be X" "compressors_lossless X" and d: "datagram_of X config cs = Ok d"
    and same: "use_checksums config' = use_checksums config"
    and fits: "2 + encoded_size X cs \<le> 1537" and wf: "\<forall>c \<in> set cs. command_wf c"
  shows "open_datagram X config' d = Ok (map owned cs)"
proof -
  obtain z where z: "compress_with_buffer X (encode_packet X cs) (compression config) (compression_threshold config) [] = Ok z"
    and dz: "d = (if use_checksums config then append_checksum_in_place X z else z)"
    using d by (auto simp: datagram_of_def res_bind_Ok_iff)
  have len: "length (encode_packet X cs) < 2147483648" and count: "length cs \<le> 255"
    using fits encoded_size_count [OF X(1), of cs] length_encode_packet [OF X(1), of cs]
    by (simp_all add: encoded_size_def)
  have small: "\<forall>c \<in> set cs. command_wf c \<and> length (encode_command X c) < 65536"
    using wf encoded_size_member [of _ cs X] fits by fastforce
  have count': "unat (of_nat (length cs) :: u8) = length cs" using count by (simp add: unat_of_nat_u8)
  have "decode_packet X (encode_packet X cs) = Ok (map owned cs)"
    using decode_commands_framed [OF X(1) small, of "[of_nat (length cs)]" "[]" cpk_new] count'
    by (simp add: decode_packet_def cursor_new_at encode_packet_framed read_at_simps cpk_new_def)
  then show ?thesis
    using decompress_compress [OF X(2) len z]
    by (simp add: open_datagram_def same dz validate_append)
qed

lemma per_packet_overhead_min: "2 \<le> per_packet_overhead c"
  by (simp add: per_packet_overhead_def compression_overhead_def split: compression_algorithm.split)

section \<open>Outcomes of a command\<close>

lemma proc_ok:
  "\<exists>z. snd (proc_send_reliable p c s o_flag d t) = Ok z"
  "\<exists>z. snd (proc_send_unreliable p c d) = Ok z"
  "\<exists>z. snd (proc_send_unreliable_sequenced p c s d) = Ok z"
  "\<exists>z. snd (proc_send_unsequenced p c s d) = Ok z"
  "\<exists>z. snd (proc_send_fragment p c s o_flag i n d t) = Ok z"
  "\<exists>z. snd (proc_send_unreliable_fragment p c s i n d t) = Ok z"
  "\<exists>z. snd (proc_connect p ch sid cid rnd) = Ok z"
  by (auto simp: proc_send_reliable_def proc_send_unreliable_def proc_send_unreliable_sequenced_def
      proc_send_unsequenced_def proc_send_fragment_def proc_send_unreliable_fragment_def proc_connect_def
      nothing_def Let_def split_beta split: prod.split option.split list.split)

lemma proc_verify_outcome:
  "snd (proc_verify_connect p pid inc out w) =
    (if p_state p = Connecting \<and> use_window_flow_control (p_config p) \<and>
        \<not> min_window_size (p_config p) \<le> max_window_size (p_config p) then Panic
     else if p_state p = Connecting \<and> out \<noteq> p_outgoing_session_id p
     then Err (CouldNotReadHeader SessionIdMismatch) else Ok zom_zero)"
  by (simp add: proc_verify_connect_def peer_set_window_size_def set_window_size_def clamp_def nothing_def Let_def)

section \<open>A channel that waits for number 1\<close>

definition waits_for_one :: "peer \<Rightarrow> u8 \<Rightarrow> bool" where
  "waits_for_one p c \<longleftrightarrow> (\<exists>ch. hm_get (p_channel_states p) c = Some ch \<and> expected_sequence ch = 1 \<and>
     hm_get (buffered_packets ch) 1 = None)"

lemma deliver_waiting:
  "hm_get (buffered_packets ch) (expected_sequence ch) = None \<Longrightarrow> deliver_loop ch r = (ch, r)"
  by (subst deliver_loop.simps) simp

lemma process_ordered_zero:
  "process_ordered cst_new 0 d = (\<lparr>expected_sequence = 1, buffered_packets = [], latest_sequence = 0\<rparr>, [d])"
  unfolding process_ordered_def
  by (subst deliver_loop.simps) (simp add: cst_new_def hm_defs deliver_waiting)

lemma first_zero:
  assumes "hm_get (p_channel_states p) c = None" "sb_wf d"
  shows "\<exists>p' z. process_command rnd p (SendReliable c 0 True d) t = (p', Ok z) \<and> waits_for_one p' c \<and>
    map (pk_payload \<circ> fst) (zom_collect z) = [sb_as_slice d]"
  using assms
  by (simp add: process_command_def proc_send_reliable_def process_ordered_zero user_packet_def packet_new_def
      waits_for_one_def hm_get_def [of "[]"])

lemma next_zero:
  assumes "waits_for_one p c"
  shows "\<exists>p' z. process_command rnd p (SendReliable c 0 True d) t = (p', Ok z) \<and> waits_for_one p' c \<and> zom_collect z = []"
proof -
  obtain ch where ch: "hm_get (p_channel_states p) c = Some ch" "expected_sequence ch = 1"
    "hm_get (buffered_packets ch) 1 = None"
    using assms by (auto simp: waits_for_one_def)
  have "process_ordered ch 0 x = (ch\<lparr>buffered_packets := hm_insert 0 x (buffered_packets ch)\<rparr>, [])" for x
    using ch by (simp add: process_ordered_def deliver_waiting)
  then show ?thesis
    using ch by (simp add: process_command_def proc_send_reliable_def waits_for_one_def)
qed

lemma zeros_ignored:
  "waits_for_one p c \<Longrightarrow> snd (arrivals rnd p (map (\<lambda>(d, t). (SendReliable c 0 True d, t)) dts)) = []"
proof (induction dts arbitrary: p)
  case (Cons x dts)
  obtain d t where x: "x = (d, t)" by fastforce
  from next_zero [OF Cons.prems, of rnd d t] obtain p' z where
    "process_command rnd p (SendReliable c 0 True d) t = (p', Ok z)" "waits_for_one p' c" "zom_collect z = []" by blast
  with Cons.IH [of p'] show ?case by (simp add: x split_beta)
qed simp

section \<open>Properties\<close>

text \<open>
  What one peer puts into a datagram another peer with the same checksum setting takes out: for a limit of at
  most 1537 bytes, which rules out a wrapped command count, opening the datagram gives the first commands of the sender's
  queue in order, and exactly these have left the queue.
\<close>

theorem datagram_delivers_prefix:
  assumes "byteorder_be X" and "compressors_lossless X" and "waiting_inv p"
    and "\<forall>c \<in> set (queue_of p). command_wf c"
    and "effective_max p max_size \<le> 1537"
    and "use_checksums config = use_checksums (p_config p)"
    and "encode_queued_commands_bounded X p max_size = (p', Ok (Some d))"
  shows "\<exists>n > 0. open_datagram X config d = Ok (map owned (take n (queue_of p))) \<and> queue_of p' = drop n (queue_of p)"
proof -
  let ?n = "selected X p max_size"
  have n: "0 < ?n" using assms(7) bounded_nothing [of X p max_size] by (cases ?n) auto
  note res = bounded_something [OF assms(1,3) n]
  have d: "datagram_of X (p_config p) (take ?n (queue_of p)) = Ok d"
    using res(1) [symmetric] unfolding assms(7) snd_conv by (simp add: res_bind_Ok_iff)
  have "per_packet_overhead (p_config p) + encoded_size X (take ?n (queue_of p)) \<le> effective_max p max_size"
    using n unfolding selected_def by (rule fitting_fits)
  then have fits: "2 + encoded_size X (take ?n (queue_of p)) \<le> 1537"
    using assms(5) per_packet_overhead_min [of "p_config p"] by simp
  have "\<forall>c \<in> set (take ?n (queue_of p)). command_wf c" using assms(4) by (auto dest: in_set_takeD)
  from open_datagram_of [OF assms(1,2) d assms(6) fits this] show ?thesis
    using n res(2) assms(7) by auto
qed

theorem datagram_delivers_prefix_witness:
  "\<exists>n > 0. open_datagram sample_ext default_config [0, 1, 0, 5, 8, 0, 0, 0, 5, 0, 0, 0, 19] =
     Ok (map owned (take n [Ping 5, Pong 6]))"
  using datagram_delivers_prefix [OF sample_ext_byteorder sample_ext_lossless _ _ _ _ sample_datagram, of default_config]
  by (auto simp: command_wf_def effective_max_def)

lemma command_outcome:
  "(\<exists>z. snd (process_command rnd p c t) = Ok z) \<or>
   (\<exists>pid ch mtu inc out w. c = VerifyConnect pid ch mtu inc out w \<and> p_state p = Connecting \<and>
      (snd (process_command rnd p c t) = Err (CouldNotReadHeader SessionIdMismatch) \<and> out \<noteq> p_outgoing_session_id p \<or>
       snd (process_command rnd p c t) = Panic \<and> use_window_flow_control (p_config p) \<and>
         max_window_size (p_config p) < min_window_size (p_config p)))"
  using proc_ok
  by (cases c) (auto simp: process_command_def nothing_def proc_bandwidth_limit_def proc_throttle_configure_def
      proc_pmtu_reply_def proc_verify_outcome)

text \<open>
  C29: Processing a command fails in one way only: a \<open>VerifyConnect\<close> that reaches a connecting peer with a session number that is not
  the peer's own is reported as a mismatch. It panics only when that peer uses window flow control with
  crossed bounds. Every other command in every state succeeds.
\<close>

theorem process_command_outcome:
  "(\<exists>z. snd (process_command rnd p c t) = Ok z) \<or>
   (\<exists>pid ch mtu inc out w. c = VerifyConnect pid ch mtu inc out w \<and> p_state p = Connecting \<and>
      (snd (process_command rnd p c t) = Err (CouldNotReadHeader SessionIdMismatch) \<and> out \<noteq> p_outgoing_session_id p \<or>
       snd (process_command rnd p c t) = Panic \<and> use_window_flow_control (p_config p) \<and>
         max_window_size (p_config p) < min_window_size (p_config p)))"
  by (rule command_outcome)

text \<open>
  C30: The handshake between two fresh peers. The client's \<open>Connect\<close> makes the server answer with a \<open>VerifyConnect\<close> that carries the
  server's own session number, but the client compares this number with its own: it accepts exactly when
  the two random numbers are equal, and otherwise reports a mismatch and keeps waiting.
\<close>

theorem handshake_session_ids:
  fixes rnd :: u16 and t :: instant
  assumes "p_state client = Idle" and "p_state server = Idle" and "\<not> use_window_flow_control (p_config client)"
  defines "client1 \<equiv> initiate_connect client"
  defines "server1 \<equiv> fst (process_command rnd server (last (queue_of client1)) t)"
  shows "\<exists>ch. last (queue_of server1) =
      VerifyConnect rnd ch 1400 (p_outgoing_session_id client) (p_outgoing_session_id server) (fc_window_size (p_flow_control server)) \<and>
    p_state server1 = AcknowledgingConnect \<and>
    (case process_command rnd' client1 (last (queue_of server1)) t' of (client2, r) \<Rightarrow>
       if p_outgoing_session_id server = p_outgoing_session_id client
       then r = Ok zom_zero \<and> p_state client2 = ConnectionSucceeded
       else r = Err (CouldNotReadHeader SessionIdMismatch) \<and> p_state client2 = Connecting)"
proof -
  have c1: "client1 = fst (queue_command (client\<lparr>p_state := Connecting\<rparr>)
      (Connect (channel_count (p_config client)) 1400 1 (p_outgoing_session_id client) (p_connect_id client)))"
    using assms(1) by (simp add: client1_def initiate_connect_def)
  have keep: "p_outgoing_session_id client1 = p_outgoing_session_id client" "p_state client1 = Connecting"
    "p_config client1 = p_config client"
    unfolding c1 by (simp_all add: queue_command_def split_beta)
  have last: "last (queue_of server1) = VerifyConnect rnd (min (channel_count (p_config client)) (channel_count (p_config server)))
      1400 (p_outgoing_session_id client) (p_outgoing_session_id server) (fc_window_size (p_flow_control server))"
    and st: "p_state server1 = AcknowledgingConnect"
    using assms(2) unfolding server1_def c1 by (simp_all add: process_command_def proc_connect_def nothing_def)
  then show ?thesis
    using assms(3) keep by (simp add: process_command_def proc_verify_connect_def nothing_def Let_def)
qed

theorem handshake_session_ids_witness:
  "snd (process_command 4 (initiate_connect sample_peer)
     (last (queue_of (fst (process_command 3 (peer_new \<lparr>sa_ip = V4 1, sa_port = 1\<rparr> default_config 0 0 9 10)
        (last (queue_of (initiate_connect sample_peer))) 0)))) 0) = Err (CouldNotReadHeader SessionIdMismatch)"
  using handshake_session_ids [of sample_peer "peer_new \<lparr>sa_ip = V4 1, sa_port = 1\<rparr> default_config 0 0 9 10" 3 0 4 0]
  by (auto simp: peer_new_def sample_peer_def default_config_def split: prod.splits)

text \<open>
  C37: An acknowledgment is entered into the receive buffer as if a packet with its number had arrived: a fresh peer that has only
  received an acknowledgment of its own packet \<open>s\<close> reports \<open>s\<close> as received in the next acknowledgment it sends.
\<close>

theorem acknowledgment_counts_as_received:
  assumes "unat s < 32000"
  shows "\<exists>bits. queue_of (enqueue_ack_command
      (fst (process_command rnd (peer_new addr default_config t0 now sid cid) (Acknowledge s m sent) t)) None) =
    [Acknowledge s bits None]"
proof -
  let ?p = "peer_new addr default_config t0 now sid cid"
  let ?q = "fst (process_command rnd ?p (Acknowledge s m sent) t)"
  have h: "p_acknowledge_handler ?q = process_incoming (ah_new now) s s m t"
    by (simp add: process_command_def nothing_def peer_process_incoming_def peer_new_def default_config_def)
  have gt: "sequence_greater_than (s + 1) 0" "\<not> sequence_less_than s (0 - 33)"
    using assms unfolding sequence_less_than_def sequence_greater_than_alt
    by (auto simp: unat_sub_u16 unat_add_u16 word_le_nat_alt word_less_nat_alt split: if_splits)
  have "sq_sequence_num (received_packets (p_acknowledge_handler ?q)) = s + 1"
    unfolding h process_incoming_result(2)
    using gt by (simp add: ah_new_def ah_with_congestion_def sq_insert_def sq_with_capacity_def advance_sequence_def
        REDUNDANT_PACKET_ACKS_SIZE_def Let_def)
  then have "remote_sequence_num (p_acknowledge_handler ?q) = s" by (simp add: remote_sequence_num_def)
  moreover have "queue_of ?q = []" "p_config ?q = default_config" "p_total_waiting_data ?q = 0"
    by (simp_all add: process_command_def nothing_def peer_process_incoming_def peer_new_def queue_of_def
        cq_default_def cq_new_def)
  ultimately show ?thesis
    by (simp add: enqueue_ack_command_def enqueue_command_result would_exceed_def)
qed

theorem acknowledgment_counts_as_received_witness:
  "\<exists>bits. queue_of (enqueue_ack_command (fst (process_command 0
      (peer_new \<lparr>sa_ip = V4 0, sa_port = 1\<rparr> default_config 0 0 7 8) (Acknowledge 41 0 None) 3)) None) =
    [Acknowledge 41 bits None]"
  by (rule acknowledgment_counts_as_received) simp

text \<open>
  C38: Reliable and unreliable fragments share one table keyed by the sequence number alone. The first fragment of a reliable packet and the second
  of an unreliable one with the same number are joined into one packet on the channel of the first.
\<close>

theorem fragment_kinds_mixed:
  assumes "hm_get (p_command_fragments p) s = None" and "sb_wf d1" and "sb_wf d2"
  shows "snd (arrivals rnd p [(SendFragment c1 s True 0 2 d1, t1), (SendUnreliableFragment c2 s 1 2 d2, t2)]) =
    [(packet_new (p_remote_address p) (sb_as_slice d1 @ sb_as_slice d2) Unreliable NoOrdering c1, PtPacket)]"
proof -
  let ?b = "add_fragment (fb_new c1 2 True t1) 0 (sb_as_slice d1)"
  let ?p = "peer_process_incoming (p\<lparr>p_last_heard := t1\<rparr>) s 0 t1"
  let ?p1 = "?p\<lparr>p_command_fragments := hm_insert s ?b (p_command_fragments p)\<rparr>"
  have first: "process_command rnd p (SendFragment c1 s True 0 2 d1) t1 = (?p1, Ok zom_zero)"
    using assms by (simp add: process_command_def proc_send_fragment_def store_fragment_def nothing_def
        fb_is_complete_def add_fragment_def fb_new_def hm_defs)
  have "reassemble (add_fragment ?b 1 (sb_as_slice d2)) = Some (sb_as_slice d1 @ sb_as_slice d2)"
    "fb_is_complete (add_fragment ?b 1 (sb_as_slice d2))"
    by (simp_all add: reassemble_def fb_is_complete_def add_fragment_def fb_new_def hm_defs upt_rec)
  moreover have "hm_entry s (fb_new c2 2 False t2) (hm_insert s ?b (p_command_fragments p)) = ?b" by simp
  ultimately have "snd (process_command rnd ?p1 (SendUnreliableFragment c2 s 1 2 d2) t2) = Ok (zom_one
      (packet_new (p_remote_address p) (sb_as_slice d1 @ sb_as_slice d2) Unreliable NoOrdering c1, PtPacket))"
    using assms(3) by (simp add: process_command_def proc_send_unreliable_fragment_def store_fragment_def
        user_packet_def Let_def add_fragment_def fb_new_def del: hm_entry_Some)
  then show ?thesis by (simp add: first split_beta)
qed

theorem fragment_kinds_mixed_witness:
  "snd (arrivals 0 sample_peer [(SendFragment 1 0 True 0 2 (sb_from_vec [1]), 5),
       (SendUnreliableFragment 2 0 1 2 (sb_from_vec [2]), 6)]) =
    [(packet_new \<lparr>sa_ip = V4 0, sa_port = 1\<rparr> [1, 2] Unreliable NoOrdering 1, PtPacket)]"
  using fragment_kinds_mixed [of sample_peer 0 "sb_from_vec [1]" "sb_from_vec [2]" 0 1 5 2 6] by simp

end
