(* ===== verification/Peer_Machine.thy ===== *)
theory Peer_Machine
  imports Peer_Protocol
begin

text \<open>
  The peer as a state machine: \<open>peer_step\<close> has one rule for each public operation of a peer that changes it. The invariant \<open>peer_inv\<close> holds in every
  reachable state, and the connection state moves only along the edges of \<open>state_edge\<close>.
\<close>

section \<open>The invariant\<close>

definition rtt_initial :: "acknowledgment_handler \<Rightarrow> bool" where
  "rtt_initial h \<longleftrightarrow> cc_rtt (ah_congestion h) = from_millis 50 \<and> cc_rtt_variance (ah_congestion h) = from_millis 25"

definition peer_inv :: "peer \<Rightarrow> bool" where
  "peer_inv p \<longleftrightarrow> waiting_inv p \<and> (\<forall>c \<in> set (queue_of p). command_wf c) \<and>
     ah_sequence_number (p_acknowledge_handler p) = 0 \<and> sent_packets (p_acknowledge_handler p) = [] \<and>
     rtt_initial (p_acknowledge_handler p) \<and> uns_inv (p_unsequenced_state p) \<and> pa_inv (p_tx_pool p) \<and> cp_inv (p_compression_pool p) \<and>
     hm_wf (p_command_fragments p)"

lemma peer_inv_new: "peer_inv (peer_new addr config time now s c)"
  using waiting_inv_new [of addr config time now s c]
  by (simp add: peer_inv_def) (simp add: peer_new_def queue_of_def cq_default_def cq_new_def ah_new_def
      ah_with_congestion_def hm_empty_def hm_wf_def cp_default_def Let_def rtt_initial_def cc_default_def cc_new_def
      enable_advanced_throttling_def)

lemma rto_initial: "rtt_initial h \<Longrightarrow> rto (ah_congestion h) = Ok (from_millis 150)"
  by (simp add: rto_def rtt_initial_def Let_def) (simp add: from_millis_def)

text \<open>Updates of the other fields do not matter.\<close>

lemma peer_inv_other [simp]:
  "peer_inv (p\<lparr>p_state := st\<rparr>) = peer_inv p"
  "peer_inv (p\<lparr>p_last_heard := t\<rparr>) = peer_inv p"
  "peer_inv (p\<lparr>p_peer_id := i\<rparr>) = peer_inv p"
  "peer_inv (p\<lparr>p_incoming_session_id := i\<rparr>) = peer_inv p"
  "peer_inv (p\<lparr>p_connect_id := j\<rparr>) = peer_inv p"
  "peer_inv (p\<lparr>p_next_unreliable_sequence := i\<rparr>) = peer_inv p"
  "peer_inv (p\<lparr>p_channel_states := chs\<rparr>) = peer_inv p"
  "peer_inv (p\<lparr>p_flow_control := fc\<rparr>) = peer_inv p"
  "peer_inv (p\<lparr>p_bandwidth_throttle := b\<rparr>) = peer_inv p"
  "peer_inv (p\<lparr>p_statistics := sts\<rparr>) = peer_inv p"
  "peer_inv (p\<lparr>p_pmtu := m\<rparr>) = peer_inv p"
  by (simp_all add: peer_inv_def waiting_inv_def queue_of_def)

lemma peer_inv_config:
  "max_waiting_data config = max_waiting_data (p_config p) \<Longrightarrow> peer_inv (p\<lparr>p_config := config\<rparr>) = peer_inv p"
  by (simp add: peer_inv_def waiting_inv_def queue_of_def)

lemma peer_inv_handler:
  "peer_inv p \<Longrightarrow> ah_sequence_number h = 0 \<Longrightarrow> sent_packets h = [] \<Longrightarrow> rtt_initial h \<Longrightarrow>
     peer_inv (p\<lparr>p_acknowledge_handler := h\<rparr>)"
  by (auto simp: peer_inv_def waiting_inv_def queue_of_def)

lemma peer_inv_unsequenced: "peer_inv p \<Longrightarrow> uns_inv u \<Longrightarrow> peer_inv (p\<lparr>p_unsequenced_state := u\<rparr>)"
  by (auto simp: peer_inv_def waiting_inv_def queue_of_def)

lemma peer_inv_fragments: "peer_inv p \<Longrightarrow> hm_wf m \<Longrightarrow> peer_inv (p\<lparr>p_command_fragments := m\<rparr>)"
  by (auto simp: peer_inv_def waiting_inv_def queue_of_def)

section \<open>The queue keeps the invariant\<close>

lemma enqueue_command_frame [simp]:
  "p_unsequenced_state (fst (enqueue_command p c)) = p_unsequenced_state p"
  "p_tx_pool (fst (enqueue_command p c)) = p_tx_pool p"
  "p_compression_pool (fst (enqueue_command p c)) = p_compression_pool p"
  "p_command_fragments (fst (enqueue_command p c)) = p_command_fragments p"
  "p_last_sent (fst (enqueue_command p c)) = p_last_sent p"
  by (simp_all add: enqueue_command_def queue_command_def Let_def split_beta)

lemma queue_command_frame [simp]:
  "p_unsequenced_state (fst (queue_command p c)) = p_unsequenced_state p"
  "p_tx_pool (fst (queue_command p c)) = p_tx_pool p"
  "p_compression_pool (fst (queue_command p c)) = p_compression_pool p"
  "p_command_fragments (fst (queue_command p c)) = p_command_fragments p"
  "p_last_sent (fst (queue_command p c)) = p_last_sent p"
  by (simp_all add: queue_command_def split_beta)

lemma peer_inv_enqueue: "peer_inv p \<Longrightarrow> command_wf c \<Longrightarrow> peer_inv (fst (enqueue_command p c))"
  using waiting_inv_enqueue [of p c] by (auto simp: peer_inv_def enqueue_command_result)

lemma peer_inv_queue: "peer_inv p \<Longrightarrow> command_wf c \<Longrightarrow> command_data_size c = 0 \<Longrightarrow> peer_inv (fst (queue_command p c))"
  using waiting_inv_queue_control [of p c] by (auto simp: peer_inv_def)

lemma peer_inv_drain: "peer_inv p \<Longrightarrow> peer_inv (fst (drain_commands p))"
  using waiting_inv_drain [of p]
  by (simp add: peer_inv_def drain_commands_result) (simp add: drain_commands_def split_beta)

lemma peer_inv_enqueue_all: "peer_inv p \<Longrightarrow> \<forall>c \<in> set cs. command_wf c \<Longrightarrow> peer_inv (enqueue_all p cs)"
  unfolding enqueue_all_def by (induction cs arbitrary: p) (simp_all add: peer_inv_enqueue)

lemma command_wf_control [simp]: "command_payload c = None \<Longrightarrow> command_wf c"
  by (simp add: command_wf_def)

lemma peer_inv_ack: "peer_inv p \<Longrightarrow> peer_inv (enqueue_ack_command p t)"
  by (simp add: enqueue_ack_command_def peer_inv_enqueue)

lemma peer_inv_pong: "peer_inv p \<Longrightarrow> peer_inv (enqueue_pong_command p t)"
  by (simp add: enqueue_pong_command_def peer_inv_enqueue)

lemma peer_inv_ping: "peer_inv p \<Longrightarrow> peer_inv (enqueue_ping_command p t)"
  by (simp add: enqueue_ping_command_def peer_inv_enqueue)

section \<open>The components keep the invariant\<close>

lemma no_sent_packets: "sent_packets h = [] \<Longrightarrow> sent_packets (process_incoming h r a f now) = []"
proof -
  assume "sent_packets h = []"
  then have "hm_get (sent_packets (process_incoming h r a f now)) s = None" for s
    by (subst process_incoming_result(1)) (simp add: hm_get_def)
  then have "map_of (sent_packets (process_incoming h r a f now)) = Map.empty"
    by (intro ext) (simp add: hm_get_def)
  then show ?thesis by simp
qed

lemma ack_sent_none [simp]: "sent_packets h = [] \<Longrightarrow> ack_sent now s h = h"
  by (simp add: ack_sent_def hm_get_def)

lemma ack_fold_none:
  assumes "sent_packets h = []"
  shows "fst (foldl (\<lambda>(h, field) i. let s = r - of_nat i
      in (if field AND 1 = 1 then ack_sent now s h else h, drop_bit 1 field)) (h, f :: u32) ks) = h"
  using assms by (induction ks arbitrary: f) (auto simp: Let_def)

lemma incoming_congestion:
  "sent_packets h = [] \<Longrightarrow> ah_congestion (process_incoming h r a f now) = ah_congestion h"
  by (auto simp: process_incoming_def Let_def ack_fold_none [unfolded Let_def One_nat_def] simp del: upt_Suc)

lemma peer_inv_incoming: "peer_inv p \<Longrightarrow> peer_inv (peer_process_incoming p s m t)"
  unfolding peer_process_incoming_def
  by (rule peer_inv_handler)
     (simp_all add: peer_inv_def no_sent_packets process_incoming_result(3) rtt_initial_def incoming_congestion)

lemma uns_inv_mark: "uns_inv u \<Longrightarrow> uns_inv (mark_received u g)"
  using mark_received_refines [of u g] by blast

lemma uns_inv_next: "uns_inv u \<Longrightarrow> uns_inv (fst (next_outgoing_group u))"
  by (simp add: uns_inv_def next_outgoing_group_def Let_def)

lemma peer_inv_mark: "peer_inv p \<Longrightarrow> peer_inv (mark_unsequenced_received p g)"
  unfolding mark_unsequenced_received_def
  by (rule peer_inv_unsequenced) (simp_all add: uns_inv_mark peer_inv_def)

lemma peer_inv_next_group: "peer_inv p \<Longrightarrow> peer_inv (fst (next_unsequenced_group p))"
  unfolding next_unsequenced_group_def split_beta Let_def fst_conv
  by (rule peer_inv_unsequenced) (simp_all add: uns_inv_next peer_inv_def)

lemma hm_wf_cleanup: "hm_wf m \<Longrightarrow> hm_wf (cleanup_stale_fragments m t)"
proof -
  have "hm_wf m \<Longrightarrow> hm_wf (foldl (\<lambda>m s. hm_delete s m) m ss)" for ss
    by (induction ss arbitrary: m) simp_all
  then show "hm_wf m \<Longrightarrow> hm_wf (cleanup_stale_fragments m t)" by (simp add: cleanup_stale_fragments_def)
qed

lemma peer_inv_cleanup: "peer_inv p \<Longrightarrow> peer_inv (peer_cleanup_stale_fragments p t)"
  unfolding peer_cleanup_stale_fragments_def
  by (rule peer_inv_fragments) (simp_all add: hm_wf_cleanup peer_inv_def)

lemma peer_inv_stats:
  "peer_inv (record_packet_sent p) = peer_inv p" "peer_inv (record_packet_received p) = peer_inv p"
  "peer_inv (record_packet_lost p) = peer_inv p" "peer_inv (record_data_sent p n) = peer_inv p"
  "peer_inv (record_data_received p n) = peer_inv p"
  by (simp_all add: peer_defs)

section \<open>The processor keeps the invariant\<close>

lemma peer_inv_store_fragment: "peer_inv p \<Longrightarrow> peer_inv (fst (store_fragment p s fresh i d))"
proof -
  assume inv: "peer_inv p"
  then have "hm_wf (p_command_fragments p)" by (simp add: peer_inv_def)
  then show ?thesis
    using inv by (auto simp: store_fragment_def Let_def intro!: peer_inv_fragments split: option.split)
qed

lemma peer_inv_reliable: "peer_inv p \<Longrightarrow> peer_inv (fst (proc_send_reliable p c s o_flag d t))"
  by (simp add: proc_send_reliable_def Let_def split_beta peer_inv_ack peer_inv_incoming)

lemma peer_inv_sequenced: "peer_inv p \<Longrightarrow> peer_inv (fst (proc_send_unreliable_sequenced p c s d))"
  by (simp add: proc_send_unreliable_sequenced_def nothing_def Let_def split_beta split: option.split)

lemma peer_inv_proc_unsequenced: "peer_inv p \<Longrightarrow> peer_inv (fst (proc_send_unsequenced p c s d))"
  by (simp add: proc_send_unsequenced_def nothing_def Let_def peer_inv_mark)

lemma peer_inv_fragment: "peer_inv p \<Longrightarrow> peer_inv (fst (proc_send_fragment p c s o_flag i n d t))"
proof -
  assume "peer_inv p"
  then have inv: "peer_inv (fst (store_fragment (peer_process_incoming p s 0 t) s (fb_new c n o_flag t) i d))"
    by (intro peer_inv_store_fragment peer_inv_incoming)
  show ?thesis
  proof (cases "store_fragment (peer_process_incoming p s 0 t) s (fb_new c n o_flag t) i d")
    case (Pair q r)
    then have "peer_inv q" using inv by simp
    then show ?thesis
      by (simp add: proc_send_fragment_def Pair nothing_def Let_def split_beta peer_inv_ack
          split: option.split list.split)
  qed
qed

lemma peer_inv_unreliable_fragment: "peer_inv p \<Longrightarrow> peer_inv (fst (proc_send_unreliable_fragment p c s i n d t))"
  using peer_inv_store_fragment [of p s "fb_new c n False t" i d]
  by (auto simp: proc_send_unreliable_fragment_def nothing_def split: prod.split option.split)

lemma peer_inv_connect: "peer_inv p \<Longrightarrow> peer_inv (fst (proc_connect p ch sid cid rnd))"
  by (simp add: proc_connect_def nothing_def Let_def peer_inv_queue)

lemma peer_inv_set_window: "peer_inv p \<Longrightarrow> peer_set_window_size p w = Ok q \<Longrightarrow> peer_inv q"
  by (auto simp: peer_set_window_size_def res_bind_Ok_iff)

lemma peer_inv_verify: "peer_inv p \<Longrightarrow> peer_inv (fst (proc_verify_connect p pid inc out w))"
  by (auto simp: proc_verify_connect_def nothing_def Let_def split: res.split
      dest: peer_inv_set_window [rotated])

lemma peer_inv_bandwidth_limit: "peer_inv p \<Longrightarrow> peer_inv (fst (proc_bandwidth_limit p i j))"
  by (simp add: proc_bandwidth_limit_def nothing_def Let_def peer_inv_config)

lemma peer_inv_throttle_configure: "peer_inv p \<Longrightarrow> peer_inv (fst (proc_throttle_configure p i a d))"
  unfolding proc_throttle_configure_def nothing_def fst_conv
  by (rule peer_inv_handler) (simp_all add: peer_inv_def rtt_initial_def configure_throttle_def)

lemma peer_inv_process_command: "peer_inv p \<Longrightarrow> peer_inv (fst (process_command rnd p c t))"
  by (cases c)
     (simp_all add: process_command_def nothing_def peer_inv_reliable peer_inv_sequenced peer_inv_proc_unsequenced
        peer_inv_fragment peer_inv_unreliable_fragment peer_inv_connect peer_inv_verify peer_inv_bandwidth_limit
        peer_inv_throttle_configure peer_inv_incoming peer_inv_pong peer_inv_enqueue proc_send_unreliable_def
        proc_pmtu_reply_def create_reply_def Let_def)

lemma peer_inv_process_commands: "peer_inv p \<Longrightarrow> peer_inv (fst (process_commands rnd p cs t out))"
proof (induction cs arbitrary: p out)
  case (Cons c cs)
  have "peer_inv (fst (process_command rnd p c t))" by (rule peer_inv_process_command [OF Cons.prems])
  then show ?case using Cons.IH by (auto split: prod.split res.split)
qed simp

lemma peer_inv_packet: "peer_inv p \<Longrightarrow> peer_inv (fst (process_command_packet X rnd p d t))"
  by (auto simp: process_command_packet_def Let_def peer_inv_stats peer_inv_process_commands split: res.split)

section \<open>The encoder and the fragmenter keep the invariant\<close>

lemma peer_inv_emit: "peer_inv p \<Longrightarrow> peer_inv (fst (emit_datagram X p cs))"
proof -
  assume inv: "peer_inv p"
  have q: "queue_of (fst (emit_datagram X p cs)) = queue_of p"
    "p_acknowledge_handler (fst (emit_datagram X p cs)) = p_acknowledge_handler p"
    "p_unsequenced_state (fst (emit_datagram X p cs)) = p_unsequenced_state p"
    "p_command_fragments (fst (emit_datagram X p cs)) = p_command_fragments p"
    by (simp_all add: emit_datagram_keeps)
       (simp_all add: emit_datagram_def Let_def split_beta peer_defs split: res.split)
  have "pa_inv (p_tx_pool (fst (emit_datagram X p cs)))" "cp_inv (p_compression_pool (fst (emit_datagram X p cs)))"
    using inv by (simp_all add: emit_datagram_def Let_def split_beta peer_defs peer_inv_def pa.take_inv pa.give_inv
        cp.take_inv split: res.split)
  moreover have "waiting_inv (fst (emit_datagram X p cs))"
    using inv waiting_inv_cong [of "fst (emit_datagram X p cs)" p] by (simp add: emit_datagram_keeps peer_inv_def)
  ultimately show ?thesis using inv by (simp add: peer_inv_def q)
qed

lemma peer_inv_encode_all: "peer_inv p \<Longrightarrow> peer_inv (fst (encode_queued_commands X p))"
  by (simp add: encode_queued_commands_def split_beta peer_inv_emit peer_inv_drain)

lemma peer_inv_bounded: "peer_inv p \<Longrightarrow> peer_inv (fst (encode_queued_commands_bounded X p m))"
proof -
  assume inv: "peer_inv p"
  have "peer_inv (foldl (\<lambda>p c. fst (enqueue_command p c)) (fst (drain_commands p)) (drop n (queue_of p)))" for n
    using inv peer_inv_enqueue_all [OF peer_inv_drain [OF inv], of "drop n (queue_of p)"]
    by (auto simp: enqueue_all_def peer_inv_def dest: in_set_dropD)
  then have "peer_inv (fst (emit_datagram X
      (foldl (\<lambda>p c. fst (enqueue_command p c)) (fst (drain_commands p)) (drop n (queue_of p))) cs))" for n cs
    by (rule peer_inv_emit)
  then show ?thesis
    using inv by (auto simp: encode_queued_commands_bounded_def Let_def split_beta drain_commands_result
        split: res.split)
qed

lemma peer_inv_send_reliable: "peer_inv p \<Longrightarrow> enqueue_reliable_data p ch d o_flag = Ok (q, s) \<Longrightarrow> peer_inv q"
  using reliable_offered_fits [OF sample_ext_byteorder] by (auto simp: enqueue_reliable_offered intro!: peer_inv_enqueue_all)

lemma peer_inv_send_unreliable: "peer_inv p \<Longrightarrow> enqueue_unreliable_data p ch d = Ok (q, s) \<Longrightarrow> peer_inv q"
  using unreliable_offered_fits [OF sample_ext_byteorder]
  by (auto simp: enqueue_unreliable_offered intro!: peer_inv_enqueue_all)

section \<open>Connection states\<close>

inductive state_edge :: "peer_state \<Rightarrow> peer_state \<Rightarrow> bool" where
  start_connect: "state_edge Idle Connecting"
| accept_connect: "state_edge Idle AcknowledgingConnect"
| implicit_accept: "state_edge Idle Connected"
| implicit_connect: "state_edge Connecting Connected"
| verified: "state_edge Connecting ConnectionSucceeded"
| confirmed: "state_edge AcknowledgingConnect Connected"
| used: "state_edge ConnectionSucceeded Connected"
| leave: "\<not> is_disconnecting s \<Longrightarrow> state_edge s Disconnecting"
| closed: "state_edge s Zombie"

inductive_cases from_zombie [elim!]: "state_edge Zombie s"
inductive_cases from_disconnecting [elim!]: "state_edge Disconnecting s"
inductive_cases to_idle [elim!]: "state_edge s Idle"

abbreviation state_path :: "peer_state \<Rightarrow> peer_state \<Rightarrow> bool" where
  "state_path \<equiv> rtranclp state_edge"

lemma state_pathI: "s = s' \<or> state_edge s s' \<Longrightarrow> state_path s s'"
  by auto

lemma path_from_zombie: "state_path Zombie s \<Longrightarrow> s = Zombie"
  by (induction rule: rtranclp_induct) (auto simp: is_disconnecting_def)

lemma path_from_disconnecting: "state_path Disconnecting s \<Longrightarrow> s = Disconnecting \<or> s = Zombie"
  by (induction rule: rtranclp_induct) (auto simp: is_disconnecting_def)

lemma path_to_idle: "state_path s Idle \<Longrightarrow> s = Idle"
  by (erule rtranclp.cases) auto

text \<open>
  What every operation respects: the state moves along the edges, and the time of the last send, the address and the
  configuration are never written, apart from the bandwidth limits, which the other side may set.
\<close>

abbreviation fixed_config :: "peer \<Rightarrow> config" where
  "fixed_config p \<equiv> (p_config p)\<lparr>incoming_bandwidth_limit := 0, outgoing_bandwidth_limit := 0\<rparr>"

abbreviation window_config :: "peer \<Rightarrow> bool \<times> u32 \<times> u32" where
  "window_config p \<equiv>
     (use_window_flow_control (p_config p), min_window_size (p_config p), max_window_size (p_config p))"

definition moves :: "peer \<Rightarrow> peer \<Rightarrow> bool" where
  "moves p q \<longleftrightarrow> state_path (p_state p) (p_state q) \<and> p_last_sent q = p_last_sent p \<and> p_remote_address q = p_remote_address p \<and>
     use_connection_handshake (p_config q) = use_connection_handshake (p_config p) \<and> window_config q = window_config p \<and>
     fixed_config q = fixed_config p"

lemma moves_refl [simp]: "moves p p"
  by (simp add: moves_def)

lemma moves_trans: "moves p q \<Longrightarrow> moves q r \<Longrightarrow> moves p r"
  by (auto simp: moves_def)

lemma moves_same: "p_state q = p_state p \<Longrightarrow> p_last_sent q = p_last_sent p \<Longrightarrow>
    p_remote_address q = p_remote_address p \<Longrightarrow> p_config q = p_config p \<Longrightarrow> moves p q"
  by (simp add: moves_def)

lemma moves_enqueue [simp]: "moves p (fst (enqueue_command p c))" "moves p (fst (queue_command p c))"
  by (simp_all add: moves_def enqueue_command_result)

lemma moves_enqueue_all [simp]: "moves p (enqueue_all p cs)"
  unfolding enqueue_all_def
proof (induction cs arbitrary: p)
  case (Cons c cs)
  then show ?case using moves_trans [OF moves_enqueue(1) [of p c]] by simp
qed simp

lemma moves_ack: "moves p (enqueue_ack_command p t)"
  by (simp add: enqueue_ack_command_def)

lemma moves_drain: "moves p (fst (drain_commands p))"
  by (simp add: moves_def drain_commands_def split_beta)

lemma moves_emit: "moves p (fst (emit_datagram X p cs))"
  by (simp add: moves_def emit_datagram_def Let_def split_beta peer_defs split: res.split)

lemma moves_bounded: "moves p (fst (encode_queued_commands_bounded X p m))"
proof -
  let ?r = "\<lambda>n. enqueue_all (fst (drain_commands p)) (drop n (queue_of p))"
  have "moves p (fst (emit_datagram X (?r n) cs))" for n cs
    by (rule moves_trans [OF moves_drain moves_trans [OF moves_enqueue_all moves_emit]])
  then have "moves p (fst (emit_datagram X
      (foldl (\<lambda>p c. fst (enqueue_command p c)) (fst (drain_commands p)) (drop n (queue_of p))) cs))" for n cs
    unfolding enqueue_all_def .
  then show ?thesis
    by (simp add: encode_queued_commands_bounded_def Let_def split_beta drain_commands_result split: res.split)
qed

lemma moves_encode_all: "moves p (fst (encode_queued_commands X p))"
  unfolding encode_queued_commands_def split_beta Let_def by (rule moves_trans [OF moves_drain moves_emit])

lemma moves_record_send: "moves p (fst (record_send p))"
  by (auto simp: moves_def record_send_def initiate_connect_def Let_def
      intro: state_edge.intros split: peer_state.split)

lemma moves_record_recv: "moves p (fst (record_recv p))"
  by (auto simp: moves_def record_recv_def Let_def intro: state_edge.intros split: peer_state.split)

lemma moves_disconnect: "moves p (disconnect p)"
  by (auto simp: moves_def disconnect_def intro: state_edge.intros)

lemma moves_initiate: "moves p (initiate_connect p)"
  by (auto simp: moves_def initiate_connect_def Let_def intro: state_edge.intros)

lemma moves_incoming [simp]: "moves p (peer_process_incoming p s m t)"
  by (simp add: moves_def peer_process_incoming_def)

lemma moves_store_fragment: "moves p (fst (store_fragment p s fresh i d))"
  by (simp add: moves_def store_fragment_def Let_def split: option.split)

lemma moves_set_window: "peer_set_window_size p w = Ok q \<Longrightarrow> moves p q"
  by (auto simp: moves_def peer_set_window_size_def res_bind_Ok_iff)

lemma ack_frame [simp]:
  "p_last_sent (enqueue_ack_command p t) = p_last_sent p" "p_state (enqueue_pong_command p v) = p_state p"
  "p_last_sent (enqueue_pong_command p v) = p_last_sent p" "p_remote_address (enqueue_pong_command p v) = p_remote_address p"
  "p_config (enqueue_ack_command p t) = p_config p" "p_config (enqueue_pong_command p v) = p_config p"
  by (simp_all add: enqueue_ack_command_def enqueue_pong_command_def enqueue_command_result)

lemma incoming_frame [simp]: "p_last_sent (peer_process_incoming p s m t) = p_last_sent p"
  by (simp add: peer_process_incoming_def)

lemma moves_fragment: "moves p (fst (proc_send_fragment p c s o_flag i n d t))"
proof (cases "store_fragment (peer_process_incoming p s 0 t) s (fb_new c n o_flag t) i d")
  case (Pair q r)
  then have "moves p q"
    using moves_trans [OF moves_incoming moves_store_fragment, of p s 0 t s "fb_new c n o_flag t" i d] by simp
  then show ?thesis
    by (auto simp: proc_send_fragment_def Pair nothing_def Let_def split_beta moves_def split: option.split list.split)
qed

lemma moves_unreliable_fragment: "moves p (fst (proc_send_unreliable_fragment p c s i n d t))"
  using moves_store_fragment [of p s "fb_new c n False t" i d]
  by (auto simp: proc_send_unreliable_fragment_def nothing_def split: prod.split option.split)

lemma set_window_frame:
  "peer_set_window_size p w = Ok q \<Longrightarrow>
     p_state q = p_state p \<and> p_last_sent q = p_last_sent p \<and> p_remote_address q = p_remote_address p \<and>
     p_config q = p_config p"
  by (auto simp: peer_set_window_size_def res_bind_Ok_iff)

lemma moves_verify: "moves p (fst (proc_verify_connect p pid inc out w))"
proof (cases "p_state p = Connecting")
  case True
  have edge: "state_path Connecting ConnectionSucceeded" by (simp add: verified r_into_rtranclp)
  show ?thesis
    using True edge
    by (simp add: proc_verify_connect_def nothing_def Let_def moves_def split: res.split)
       (auto dest!: set_window_frame)
qed (simp add: proc_verify_connect_def nothing_def)

lemma moves_process_command: "moves p (fst (process_command rnd p c t))"
proof -
  let ?p = "p\<lparr>p_last_heard := t\<rparr>"
  have start: "moves p ?p" by (simp add: moves_def)
  have "moves ?p (fst (process_command rnd p c t))"
    using moves_fragment [of ?p] moves_unreliable_fragment [of ?p] moves_verify [of ?p]
    by (cases c) (auto simp: process_command_def nothing_def proc_send_unreliable_def
        proc_send_reliable_def proc_send_unreliable_sequenced_def proc_send_unsequenced_def proc_connect_def
        proc_bandwidth_limit_def proc_throttle_configure_def proc_pmtu_reply_def mark_unsequenced_received_def
        split_beta Let_def moves_def enqueue_command_result intro: state_edge.intros split: option.split)
  then show ?thesis by (rule moves_trans [OF start])
qed

lemma moves_process_commands: "moves p (fst (process_commands rnd p cs t out))"
proof (induction cs arbitrary: p out)
  case (Cons c cs)
  have "moves p (fst (process_command rnd p c t))" by (rule moves_process_command)
  then show ?case using Cons.IH by (auto split: prod.split res.split intro: moves_trans)
qed simp

lemma moves_packet: "moves p (fst (process_command_packet X rnd p d t))"
proof -
  have "moves p (record_packet_received (record_data_received p n))" "moves p (record_data_received p n)" for n
    by (simp_all add: moves_def peer_defs)
  moreover from this(1) have
    "moves p (fst (process_commands rnd (record_packet_received (record_data_received p n)) cs t []))" for n cs
    by (rule moves_trans [OF _ moves_process_commands])
  ultimately show ?thesis by (simp add: process_command_packet_def Let_def split: res.split)
qed

section \<open>Steps\<close>

text \<open>
  One rule per public operation. An operation that panics ends the process and is no step. The commands given to \<open>enqueue_command\<close> and
  \<open>process_command\<close> from outside are those the code can build: their payload is a valid view of at most 65535 bytes.
\<close>

inductive peer_step :: "ext \<Rightarrow> peer \<Rightarrow> peer \<Rightarrow> bool" for X where
  on_packet: "process_command_packet X rnd p d t = (q, r) \<Longrightarrow> r \<noteq> Panic \<Longrightarrow> peer_step X p q"
| on_command: "process_command rnd p c t = (q, r) \<Longrightarrow> r \<noteq> Panic \<Longrightarrow> peer_step X p q"
| on_reliable: "enqueue_reliable_data p ch d o_flag = Ok (q, s) \<Longrightarrow> peer_step X p q"
| on_unreliable: "enqueue_unreliable_data p ch d = Ok (q, s) \<Longrightarrow> peer_step X p q"
| on_enqueue: "command_wf c \<Longrightarrow> peer_step X p (fst (enqueue_command p c))"
| on_drain: "peer_step X p (fst (drain_commands p))"
| on_bounded: "encode_queued_commands_bounded X p m = (q, r) \<Longrightarrow> peer_step X p q"
| on_encode: "encode_queued_commands X p = (q, r) \<Longrightarrow> peer_step X p q"
| on_send: "peer_step X p (fst (record_send p))"
| on_recv: "peer_step X p (fst (record_recv p))"
| on_disconnect: "peer_step X p (disconnect p)"
| on_initiate: "peer_step X p (initiate_connect p)"
| on_throttle: "peer_update_throttle p t = Ok (q, u) \<Longrightarrow> peer_step X p q"
| on_dropped: "gather_dropped_packets p = Ok (q, ds) \<Longrightarrow> peer_step X p q"
| on_pmtu: "peer_handle_pmtu p t token fill = Ok q \<Longrightarrow> \<forall>n. length (fill n) = n \<Longrightarrow> peer_step X p q"
| on_window: "peer_set_window_size p w = Ok q \<Longrightarrow> peer_step X p q"
| on_adjust: "peer_adjust_window_size p = Ok q \<Longrightarrow> peer_step X p q"
| on_reliable_sent: "peer_step X p (peer_record_reliable_data_sent p w)"
| on_reliable_acked: "peer_step X p (peer_record_reliable_data_acked p w)"
| on_bandwidth: "peer_step X p (fst (peer_update_bandwidth_window p t))"
| on_bytes_sent: "peer_step X p (peer_record_bytes_sent p w)"
| on_bytes_received: "peer_step X p (peer_record_bytes_received p w)"
| on_group: "peer_step X p (fst (next_unsequenced_group p))"
| on_mark: "peer_step X p (mark_unsequenced_received p g)"
| on_cleanup: "peer_step X p (peer_cleanup_stale_fragments p t)"

abbreviation peer_steps :: "ext \<Rightarrow> peer \<Rightarrow> peer \<Rightarrow> bool" where
  "peer_steps X \<equiv> rtranclp (peer_step X)"

lemma probe_payload_bound: "probe_payload_len c target < 65536"
  using unat_u16_bound [of target] by (simp add: probe_payload_len_def less_imp_diff_less)

lemma handle_pmtu_wf:
  assumes "handle_pmtu m t r token fill = (m', Some c)" "\<forall>n. length (fill n) = n"
  shows "command_wf c"
  using assms probe_payload_bound
  by (auto simp: handle_pmtu_def Let_def command_wf_def split: if_splits option.splits prod.splits)

lemma pmtu_step:
  assumes "peer_handle_pmtu p t token fill = Ok q" "\<forall>n. length (fill n) = n"
  shows "(peer_inv p \<longrightarrow> peer_inv q) \<and> moves p q"
proof -
  obtain r where r: "rto (ah_congestion (p_acknowledge_handler p)) = Ok r"
    using assms(1) by (auto simp: peer_handle_pmtu_def res_bind_Ok_iff)
  obtain m c where h: "handle_pmtu (p_pmtu p) t r token fill = (m, c)" by fastforce
  have start: "moves p (p\<lparr>p_pmtu := m\<rparr>)" by (simp add: moves_def)
  show ?thesis
  proof (cases c)
    case None
    then show ?thesis using assms(1) start by (auto simp: peer_handle_pmtu_def r h)
  next
    case (Some cmd)
    then have "q = fst (enqueue_command (p\<lparr>p_pmtu := m\<rparr>) cmd)" using assms(1) by (simp add: peer_handle_pmtu_def r h)
    moreover have "command_wf cmd" using handle_pmtu_wf h assms(2) Some by blast
    ultimately show ?thesis using moves_trans [OF start] by (simp add: peer_inv_enqueue)
  qed
qed

lemma lost_frame:
  "peer_inv ((record_packet_lost ^^ n) p) = peer_inv p" "moves p ((record_packet_lost ^^ n) p)"
  by (induction n) (simp_all add: peer_inv_stats moves_def record_packet_lost_def)

lemma dropped_step:
  assumes "gather_dropped_packets p = Ok (q, ds)" "peer_inv p"
  shows "peer_inv q"
proof -
  obtain h where h: "dropped_packets (p_acknowledge_handler p) = Ok (h, ds)"
    and q: "q = (record_packet_lost ^^ length ds) (p\<lparr>p_acknowledge_handler := h\<rparr>)"
    using assms(1) by (auto simp: gather_dropped_packets_def res_bind_Ok_iff Let_def)
  have "ah_sequence_number h = 0 \<and> sent_packets h = [] \<and> rtt_initial h"
    using h assms(2)
    by (auto simp: dropped_packets_def res_bind_Ok_iff peer_inv_def hm_keys_def Let_def split_beta rtt_initial_def)
  then show ?thesis using assms(2) by (simp add: q lost_frame peer_inv_handler)
qed

lemma peer_inv_throttle: "peer_update_throttle p t = Ok (q, u) \<Longrightarrow> peer_inv p \<Longrightarrow> peer_inv q"
  by (auto simp: peer_update_throttle_def ah_update_throttle_def res_bind_Ok_iff split_beta
      intro!: peer_inv_handler) (simp_all add: peer_inv_def rtt_initial_def throttle_keeps_rtt)

lemma peer_inv_record_send: "peer_inv p \<Longrightarrow> peer_inv (fst (record_send p))"
  by (auto simp: record_send_def initiate_connect_def Let_def peer_inv_queue split: peer_state.split)

lemma peer_inv_record_recv: "peer_inv p \<Longrightarrow> peer_inv (fst (record_recv p))"
  by (auto simp: record_recv_def Let_def split: peer_state.split)

lemma peer_inv_small:
  "peer_inv p \<Longrightarrow> peer_inv (disconnect p)"
  "peer_inv p \<Longrightarrow> peer_inv (initiate_connect p)"
  "peer_inv p \<Longrightarrow> peer_inv (peer_record_reliable_data_sent p w)"
  "peer_inv p \<Longrightarrow> peer_inv (peer_record_reliable_data_acked p w)"
  "peer_inv p \<Longrightarrow> peer_inv (fst (peer_update_bandwidth_window p t))"
  "peer_inv p \<Longrightarrow> peer_inv (peer_record_bytes_sent p w)"
  "peer_inv p \<Longrightarrow> peer_inv (peer_record_bytes_received p w)"
  by (simp_all add: disconnect_def initiate_connect_def Let_def peer_inv_queue split_beta peer_defs)

lemma peer_inv_adjust: "peer_inv p \<Longrightarrow> peer_adjust_window_size p = Ok q \<Longrightarrow> peer_inv q"
  by (auto simp: peer_adjust_window_size_def Let_def res_bind_Ok_iff)

lemmas peer_inv_ops =
  peer_inv_small peer_inv_adjust peer_inv_send_reliable peer_inv_send_unreliable peer_inv_enqueue peer_inv_drain
  peer_inv_record_send peer_inv_record_recv peer_inv_throttle dropped_step peer_inv_set_window peer_inv_next_group
  peer_inv_mark peer_inv_cleanup

lemma peer_step_inv: "peer_step X p q \<Longrightarrow> peer_inv p \<Longrightarrow> peer_inv q"
proof (induction rule: peer_step.induct)
  case (on_packet rnd p d t q r)
  then show ?case using peer_inv_packet [of p X rnd d t] by simp
next
  case (on_command rnd p c t q r)
  then show ?case using peer_inv_process_command [of p rnd c t] by simp
next
  case (on_bounded p m q r)
  then show ?case using peer_inv_bounded [of p X m] by simp
next
  case (on_encode p q r)
  then show ?case using peer_inv_encode_all [of p X] by simp
next
  case (on_pmtu p t token fill q)
  then show ?case using pmtu_step by blast
qed (blast intro: peer_inv_ops)+

lemma peer_steps_inv: "peer_steps X p q \<Longrightarrow> peer_inv p \<Longrightarrow> peer_inv q"
  by (induction rule: rtranclp_induct) (auto intro: peer_step_inv)

lemma moves_small:
  "moves p (peer_record_reliable_data_sent p w)" "moves p (peer_record_reliable_data_acked p w)"
  "moves p (fst (peer_update_bandwidth_window p t))" "moves p (peer_record_bytes_sent p w)"
  "moves p (peer_record_bytes_received p w)" "moves p (fst (next_unsequenced_group p))"
  "moves p (mark_unsequenced_received p g)" "moves p (peer_cleanup_stale_fragments p t)"
  by (simp_all add: moves_def peer_defs split_beta)

lemma moves_results:
  "enqueue_reliable_data p ch d o_flag = Ok (q, s) \<Longrightarrow> moves p q"
  "enqueue_unreliable_data p ch d = Ok (q, s) \<Longrightarrow> moves p q"
  "peer_update_throttle p t = Ok (q, u) \<Longrightarrow> moves p q"
  "peer_adjust_window_size p = Ok q \<Longrightarrow> moves p q"
proof -
  show "moves p q" if "enqueue_unreliable_data p ch d = Ok (q, s)"
    using that moves_enqueue_all [of "p\<lparr>p_next_unreliable_sequence := p_next_unreliable_sequence p + 1\<rparr>"]
    by (auto simp: enqueue_unreliable_offered moves_def)
qed (auto simp: enqueue_reliable_offered peer_update_throttle_def peer_adjust_window_size_def Let_def res_bind_Ok_iff
      moves_same split_beta)

lemma moves_dropped: "gather_dropped_packets p = Ok (q, ds) \<Longrightarrow> moves p q"
proof -
  assume "gather_dropped_packets p = Ok (q, ds)"
  then obtain h where "q = (record_packet_lost ^^ length ds) (p\<lparr>p_acknowledge_handler := h\<rparr>)"
    by (auto simp: gather_dropped_packets_def res_bind_Ok_iff Let_def)
  then show ?thesis using lost_frame(2) [of "p\<lparr>p_acknowledge_handler := h\<rparr>" "length ds"] by (simp add: moves_def)
qed

lemma peer_step_moves: "peer_step X p q \<Longrightarrow> moves p q"
proof (induction rule: peer_step.induct)
  case (on_packet rnd p d t q r)
  then show ?case using moves_packet [of p X rnd d t] by simp
next
  case (on_command rnd p c t q r)
  then show ?case using moves_process_command [of p rnd c t] by simp
next
  case (on_bounded p m q r)
  then show ?case using moves_bounded [of p X m] by simp
next
  case (on_encode p q r)
  then show ?case using moves_encode_all [of p X] by simp
next
  case (on_pmtu p t token fill q)
  then show ?case using pmtu_step by blast
qed (blast intro: moves_small moves_results moves_dropped moves_enqueue moves_drain moves_record_send moves_record_recv
      moves_disconnect moves_initiate moves_set_window)+

lemma peer_steps_moves: "peer_steps X p q \<Longrightarrow> moves p q"
  by (induction rule: rtranclp_induct) (auto intro: peer_step_moves moves_trans)

section \<open>Properties\<close>

text \<open>
  C7: In every state a peer can reach, the counter of waiting bytes equals the payload in the queue and respects the configured limit, every
  queued command can be sent, the duplicate window has its 32 words, and the buffer pools hold only
  empty buffers within their limits.
\<close>

theorem peer_invariant:
  assumes "peer_steps X (peer_new addr config time now sid cid) p"
  shows "waiting_inv p \<and> (\<forall>c \<in> set (queue_of p). command_wf c) \<and> uns_inv (p_unsequenced_state p) \<and>
    pa_inv (p_tx_pool p) \<and> cp_inv (p_compression_pool p) \<and> hm_wf (p_command_fragments p)"
  using peer_steps_inv [OF assms peer_inv_new] by (simp add: peer_inv_def)

theorem peer_invariant_witness:
  "waiting_inv (fst (record_send sample_peer)) \<and> length (queue_of (fst (record_send sample_peer))) = 1 \<and>
     command_wf (hd (queue_of (fst (record_send sample_peer))))"
proof -
  have "cq_commands (p_command_queue sample_peer) = []" using sample_peer_simps(2) unfolding queue_of_def .
  then have "length (queue_of (fst (record_send sample_peer))) = 1"
    by (simp add: record_send_def initiate_connect_def Let_def) (simp add: default_config_def queue_of_def)
  moreover from this have "hd (queue_of (fst (record_send sample_peer))) \<in> set (queue_of (fst (record_send sample_peer)))"
    by (cases "queue_of (fst (record_send sample_peer))") simp_all
  ultimately show ?thesis
    using peer_invariant [of sample_ext "\<lparr>sa_ip = V4 0, sa_port = 1\<rparr>" default_config 0 0 7 8 "fst (record_send sample_peer)"]
      r_into_rtranclp [of "peer_step sample_ext", OF on_send, of sample_peer] by (simp add: sample_peer_def)
qed

text \<open>
  C10: The connection state only moves forward: a peer that is disconnecting never becomes active again, a closed one stays closed, and no
  peer returns to its initial state.
\<close>

theorem connection_moves_forward:
  assumes "peer_steps X p q"
  shows "(is_disconnecting (p_state p) \<longrightarrow> is_disconnecting (p_state q)) \<and>
    (p_state p = Zombie \<longrightarrow> p_state q = Zombie) \<and> (p_state q = Idle \<longrightarrow> p_state p = Idle)"
proof -
  have path: "state_path (p_state p) (p_state q)" using peer_steps_moves [OF assms] by (simp add: moves_def)
  then show ?thesis
    using path_from_zombie [of "p_state q"] path_from_disconnecting [of "p_state q"] path_to_idle [of "p_state p"]
    by (auto simp: is_disconnecting_def)
qed

theorem connection_moves_forward_witness:
  "is_disconnecting (p_state (fst (record_recv (disconnect sample_peer))))"
proof -
  have "peer_steps sample_ext (disconnect sample_peer) (fst (record_recv (disconnect sample_peer)))"
    by (intro r_into_rtranclp on_recv)
  from connection_moves_forward [OF this] show ?thesis
    by (simp add: disconnect_def is_disconnecting_def)
qed

text \<open>
  C34: No operation of a peer ever numbers a packet or records one as sent: in every reachable state the next reliable number is 0 and no packet is in
  flight, so nothing is ever found lost and the timeout stays at its initial 150 ms. The time of the last send stays the time of creation.
\<close>

theorem nothing_in_flight:
  assumes "peer_steps X (peer_new addr config time now sid cid) p"
  shows "local_sequence_num (p_acknowledge_handler p) = 0 \<and> peer_packets_in_flight p = 0 \<and>
    gather_dropped_packets p = Ok (p, []) \<and> p_last_sent p = time \<and>
    rto (ah_congestion (p_acknowledge_handler p)) = Ok (from_millis 150)"
proof -
  have inv: "ah_sequence_number (p_acknowledge_handler p) = 0" "sent_packets (p_acknowledge_handler p) = []"
    "rtt_initial (p_acknowledge_handler p)"
    using peer_steps_inv [OF assms peer_inv_new] by (simp_all add: peer_inv_def)
  moreover have "dropped_packets (p_acknowledge_handler p) = Ok (p_acknowledge_handler p, [])"
    using inv by (simp add: dropped_packets_def hm_keys_def)
  moreover have "p_last_sent p = time"
    using peer_steps_moves [OF assms] by (simp add: moves_def peer_new_def)
  ultimately show ?thesis
    by (simp add: local_sequence_num_def peer_packets_in_flight_def packets_in_flight_def hm_len_def
        gather_dropped_packets_def rto_initial)
qed

theorem nothing_in_flight_witness:
  "peer_packets_in_flight (fst (record_send sample_peer)) = 0"
  using nothing_in_flight [of sample_ext "\<lparr>sa_ip = V4 0, sa_port = 1\<rparr>" default_config 0 0 7 8 "fst (record_send sample_peer)"]
  by (auto simp: sample_peer_def intro: on_send)

end
