(* ===== verification/Peer_Session.thy ===== *)
theory Peer_Session
  imports Peer_Machine
begin

text \<open>
  A peer as a session (\<^verbatim>\<open>bitfold-host/src/peer_session.rs\<close>, \<^verbatim>\<open>event_types.rs\<close>): what the session manager does with a peer. Every operation returns the actions for the
  manager: datagrams to send and events for the application.

  The operations draw random numbers and read clocks; what they draw is the argument \<open>env\<close>.
\<close>

section \<open>Events and actions\<close>

datatype 'e action = Send bytes | Emit 'e

datatype socket_event =
    EvPacket packet
  | EvConnect socket_addr
  | EvTimeout socket_addr
  | EvDisconnect socket_addr

fun event_address :: "socket_event \<Rightarrow> socket_addr" where
  "event_address (EvPacket packet) = pk_addr packet"
| "event_address (EvConnect addr) = addr"
| "event_address (EvTimeout addr) = addr"
| "event_address (EvDisconnect addr) = addr"

definition packet_address :: "packet \<Rightarrow> socket_addr" where
  "packet_address packet = pk_addr packet"

record session_env =
  se_peer_id :: u16
  se_session_id :: u16
  se_connect_id :: u32
  se_now :: instant
  se_elapsed :: duration
  se_token :: u32
  se_fill :: "nat \<Rightarrow> bytes"

type_synonym session_result = "(error_kind, peer \<times> socket_event action list) res"

section \<open>Operations\<close>

definition create_session :: "config \<Rightarrow> socket_addr \<Rightarrow> instant \<Rightarrow> session_env \<Rightarrow> peer" where
  "create_session config address time env =
     peer_new address config time (se_now env) (se_session_id env) (se_connect_id env)"

definition should_drop :: "peer \<Rightarrow> instant \<Rightarrow> bool \<times> socket_event action list" where
  "should_drop p time =
     (if p_state p = Zombie then (True, [Emit (EvDisconnect (p_remote_address p))])
      else
        let drop_it = peer_packets_in_flight p > max_packets_in_flight (p_config p) \<or>
                      peer_last_heard p time \<ge> idle_connection_timeout (p_config p)
        in (drop_it,
            if drop_it
            then Emit (EvTimeout (p_remote_address p)) #
                 (if is_established p then [Emit (EvDisconnect (p_remote_address p))] else [])
            else []))"

definition process_packet :: "ext \<Rightarrow> session_env \<Rightarrow> peer \<Rightarrow> bytes \<Rightarrow> instant \<Rightarrow> session_result" where
  "process_packet X env p payload time =
     (if payload \<noteq> [] then
        let p = fst (peer_update_bandwidth_window p time)
        in if \<not> peer_can_receive_within_bandwidth p then Ok (p, [])
           else
             let p = peer_record_bytes_received p (of_nat (length payload))
             in case process_command_packet X (se_peer_id env) p payload time of
                  (p, Ok packets) \<Rightarrow>
                    (let (p, connected) = record_recv p
                     in Ok (p, (if connected then [Emit (EvConnect (p_remote_address p))] else []) @
                               map (\<lambda>incoming. Emit (EvPacket (fst incoming))) (zom_collect packets)))
                | (p, Err e) \<Rightarrow> Ok (p, [])
                | (p, Panic) \<Rightarrow> Panic
      else Ok (p, []))"

subsection \<open>Flushing the queue\<close>

lemma enqueue_all_length: "length (queue_of (enqueue_all p cs)) \<le> length (queue_of p) + length cs"
  unfolding enqueue_all_def
proof (induction cs arbitrary: p)
  case (Cons c cs)
  have "length (queue_of (fst (enqueue_command p c))) \<le> length (queue_of p) + 1" by (simp add: enqueue_command_result)
  then show ?case using Cons.IH [of "fst (enqueue_command p c)"] by simp
qed simp

lemma bounded_shrinks:
  assumes "encode_queued_commands_bounded X p m = (q, Ok (Some d))"
  shows "length (queue_of q) < length (queue_of p)"
proof -
  let ?n = "selected X p m"
  let ?r = "enqueue_all (fst (drain_commands p)) (drop ?n (queue_of p))"
  have n: "?n \<noteq> 0" using assms bounded_nothing [of X p m] by auto
  then have "queue_of p \<noteq> []" by (auto simp: selected_def)
  moreover have "q = fst (emit_datagram X ?r (take ?n (queue_of p)))"
    using assms n by (auto simp: encode_queued_commands_bounded_def Let_def split_beta drain_commands_result
        select_commands_fitting selected_def foldl_add_command cpk_new_def enqueue_all_def
        split: if_splits res.splits)
  ultimately show ?thesis
    using n enqueue_all_length [of "fst (drain_commands p)" "drop ?n (queue_of p)"]
    by (auto simp: emit_datagram_keeps drain_commands_result intro: le_less_trans)
qed

function flush_commands :: "ext \<Rightarrow> peer \<Rightarrow> socket_event action list \<Rightarrow> session_result" where
  "flush_commands X p actions =
     (if has_queued_commands p \<and> peer_can_send_within_bandwidth p then
        case encode_queued_commands_bounded X p (fragment_datagram_cap p) of
          (p', Ok (Some bytes)) \<Rightarrow>
            flush_commands X (peer_record_bytes_sent p' (of_nat (length bytes))) (actions @ [Send bytes])
        | (p', Ok None) \<Rightarrow> Ok (p', actions)
        | (p', Err e) \<Rightarrow> Ok (p', actions)
        | (p', Panic) \<Rightarrow> Panic
      else Ok (p, actions))"
  by pat_completeness auto

lemma queue_record_bytes [simp]: "queue_of (peer_record_bytes_sent p n) = queue_of p"
  by (simp add: queue_of_def peer_record_bytes_sent_def)

termination flush_commands
  by (relation "measure (\<lambda>(X, p, a). length (queue_of p))") (auto dest: bounded_shrinks [OF sym])

declare flush_commands.simps [simp del]

subsection \<open>Sending\<close>

text \<open>The loop that cuts an unsequenced payload; \<open>budget\<close> is the payload size that fits, of which at least 1 is taken.\<close>

function unsequenced_loop :: "u8 \<Rightarrow> shared_bytes \<Rightarrow> nat \<Rightarrow> peer \<Rightarrow> nat \<Rightarrow> (error_kind, peer) res" where
  "unsequenced_loop channel_id base budget p offset =
     (if offset < sb_len base then
        let max_payload_unseq = max 1 budget;
            len = min max_payload_unseq (sb_len base - offset)
        in res_bind (sb_slice base offset len) (\<lambda>chunk.
           let (p, unsequenced_group) = next_unsequenced_group p;
               p = fst (enqueue_command p (SendUnsequenced channel_id unsequenced_group chunk))
           in unsequenced_loop channel_id base budget p (offset + len))
      else Ok p)"
  by pat_completeness auto

termination unsequenced_loop
  by (relation "measure (\<lambda>(c, base, b, p, offset). sb_len base - offset)") (auto simp: min_def max_def)

declare unsequenced_loop.simps [simp del]

definition enqueue_event :: "peer \<Rightarrow> packet \<Rightarrow> (error_kind, peer) res" where
  "enqueue_event p event =
     (case pk_delivery event of
        Reliable \<Rightarrow>
          (let is_ordered = pk_ordering event \<noteq> NoOrdering
           in res_bind (enqueue_reliable_data p (pk_channel_id event) (pk_payload event) is_ordered) (\<lambda>(p, _). Ok p))
      | Unreliable \<Rightarrow>
          (case pk_ordering event of
             Unsequenced \<Rightarrow>
               (let send_unsequenced_header = 1 + 1 + 2 + 2;
                    budget = fragment_datagram_cap p - per_packet_overhead (p_config p) - 2 - send_unsequenced_header
                in unsequenced_loop (pk_channel_id event) (sb_from_arc (pk_payload event)) budget p 0)
           | _ \<Rightarrow>
               res_bind (enqueue_unreliable_data p (pk_channel_id event) (pk_payload event)) (\<lambda>(p, _). Ok p)))"

definition process_event :: "ext \<Rightarrow> peer \<Rightarrow> packet \<Rightarrow> instant \<Rightarrow> session_result" where
  "process_event X p event time =
     (let (p, connected) = record_send p;
          actions = (if connected then [Emit (EvConnect (p_remote_address p))] else [])
      in res_bind (enqueue_event p event) (\<lambda>p. flush_commands X p actions))"

definition heartbeat :: "session_env \<Rightarrow> peer \<Rightarrow> instant \<Rightarrow> peer" where
  "heartbeat env p time =
     (if is_established p then
        case heartbeat_interval (p_config p) of
          Some interval \<Rightarrow>
            if peer_last_sent p time \<ge> interval \<and> peer_last_heard p time \<ge> interval
            then enqueue_ping_command p (of_nat (as_millis (se_elapsed env))) else p
        | None \<Rightarrow> p
      else p)"

definition session_update :: "ext \<Rightarrow> session_env \<Rightarrow> peer \<Rightarrow> instant \<Rightarrow> session_result" where
  "session_update X env p time =
     (let p = fst (peer_update_bandwidth_window p time);
          p = heartbeat env p time
      in res_bind (flush_commands X p []) (\<lambda>(p, actions).
         res_bind (peer_handle_pmtu p time (se_token env) (se_fill env)) (\<lambda>p.
         Ok (p, actions))))"

section \<open>Sessions are runs of the peer machine\<close>

lemma flush_steps: "flush_commands X p a = Ok (q, b) \<Longrightarrow> peer_steps X p q"
proof (induction X p a rule: flush_commands.induct)
  case (1 X p a)
  show ?case
  proof (cases "has_queued_commands p \<and> peer_can_send_within_bandwidth p")
    case True
    obtain p' r where b: "encode_queued_commands_bounded X p (fragment_datagram_cap p) = (p', r)" by fastforce
    have step: "peer_step X p p'" by (rule on_bounded [OF b])
    show ?thesis
    proof (cases "\<exists>d. r = Ok (Some d)")
      case True
      then obtain d where r: "r = Ok (Some d)" by blast
      have "flush_commands X (peer_record_bytes_sent p' (of_nat (length d))) (a @ [Send d]) = Ok (q, b)"
        using "1.prems" \<open>has_queued_commands p \<and> _\<close> b r by (simp add: flush_commands.simps [of X p])
      then have "peer_steps X (peer_record_bytes_sent p' (of_nat (length d))) q"
        using "1.IH" [OF \<open>has_queued_commands p \<and> _\<close> b [symmetric] r refl] by blast
      then show ?thesis using step on_bytes_sent [of X p' "of_nat (length d)"]
        by (meson converse_rtranclp_into_rtranclp)
    next
      case False
      then have "q = p'" using "1.prems" \<open>has_queued_commands p \<and> _\<close> b
        by (auto simp: flush_commands.simps [of X p] split: res.splits option.splits)
      then show ?thesis using step by blast
    qed
  qed (use "1.prems" in \<open>auto simp: flush_commands.simps [of X p] split: if_splits\<close>)
qed

lemma unsequenced_steps:
  assumes "sb_wf base" "budget < 65536"
  shows "\<exists>q. unsequenced_loop ch base budget p offset = Ok q \<and> peer_steps X p q"
  using assms
proof (induction ch base budget p offset rule: unsequenced_loop.induct)
  case (1 ch base budget p offset)
  show ?case
  proof (cases "offset < sb_len base")
    case True
    define len where "len = min (max 1 budget) (sb_len base - offset)"
    define chunk where "chunk = view (sb_data base) (sb_start base + offset) len"
    have chunk: "(sb_slice base offset len :: (error_kind, shared_bytes) res) = Ok chunk" "sb_len chunk = len"
      using True by (simp_all add: sb_slice_def chunk_def len_def view_def)
    obtain p1 g where g: "next_unsequenced_group p = (p1, g)" by fastforce
    define p2 where "p2 = fst (enqueue_command p1 (SendUnsequenced ch g chunk))"
    have wf: "command_wf (SendUnsequenced ch g chunk)"
      using sb_wf_slice [OF "1.prems"(1) chunk(1)] chunk(2) "1.prems"(2) by (simp add: command_wf_def len_def)
    have "peer_step X p p1" using on_group [of X p] by (simp add: g)
    moreover have "peer_step X p1 p2" unfolding p2_def by (rule on_enqueue [OF wf])
    moreover have "\<exists>q. unsequenced_loop ch base budget p2 (offset + len) = Ok q \<and> peer_steps X p2 q"
      by (rule "1.IH" [OF True refl len_def chunk(1) refl g [symmetric] p2_def "1.prems"])
    moreover have "unsequenced_loop ch base budget p offset = unsequenced_loop ch base budget p2 (offset + len)"
      by (subst unsequenced_loop.simps)
         (simp only: Let_def len_def [symmetric] chunk(1) res_bind.simps g prod.case if_P [OF True] p2_def)
    ultimately show ?thesis by (metis converse_rtranclp_into_rtranclp)
  qed (simp add: unsequenced_loop.simps)
qed

lemma event_steps: "\<exists>q. enqueue_event p event = Ok q \<and> peer_steps X p q"
proof -
  have cap: "fragment_datagram_cap p - k < 65536" for k using fragment_cap_bound [of p] by simp
  have u: "\<exists>q. unsequenced_loop c (sb_from_arc d) (fragment_datagram_cap p - k) p 0 = Ok q \<and> peer_steps X p q"
    for c d k using unsequenced_steps [of "sb_from_arc d" "fragment_datagram_cap p - k" c p 0 X] cap by blast
  have r: "\<exists>q. res_bind (enqueue_reliable_data p c d o_flag) (\<lambda>(p, _). Ok p) = Ok q \<and> peer_steps X p q" for c d o_flag
    using on_reliable [of p c d o_flag _ _ X] by (auto simp: enqueue_reliable_offered)
  have v: "\<exists>q. res_bind (enqueue_unreliable_data p c d) (\<lambda>(p, _). Ok p) = Ok q \<and> peer_steps X p q" for c d
    using on_unreliable [of p c d _ _ X] by (auto simp: enqueue_unreliable_offered)
  show ?thesis
    using u r v by (cases "pk_delivery event"; cases "pk_ordering event") (simp_all add: enqueue_event_def Let_def)
qed

lemma process_event_steps: "process_event X p event t = Ok (q, acts) \<Longrightarrow> peer_steps X p q"
proof -
  assume ev: "process_event X p event t = Ok (q, acts)"
  obtain q1 where "enqueue_event (fst (record_send p)) event = Ok q1" and s1: "peer_steps X (fst (record_send p)) q1"
    using event_steps by blast
  then have "\<exists>a. flush_commands X q1 a = Ok (q, acts)" using ev by (auto simp: process_event_def split_beta Let_def)
  then have "peer_steps X q1 q" using flush_steps by blast
  then show ?thesis using s1 on_send [of X p] by (meson converse_rtranclp_into_rtranclp rtranclp_trans)
qed

lemma process_packet_steps: "process_packet X env p d t = Ok (q, acts) \<Longrightarrow> peer_steps X p q"
proof -
  assume pp: "process_packet X env p d t = Ok (q, acts)"
  let ?p1 = "fst (peer_update_bandwidth_window p t)"
  let ?p2 = "peer_record_bytes_received ?p1 (of_nat (length d))"
  obtain p3 r where r: "process_command_packet X (se_peer_id env) ?p2 d t = (p3, r)" by fastforce
  have s1: "peer_steps X p ?p1" by (rule r_into_rtranclp, rule on_bandwidth)
  have "peer_steps X ?p1 ?p2" by (rule r_into_rtranclp, rule on_bytes_received)
  with s1 have s2: "peer_steps X p ?p2" by (rule rtranclp_trans)
  have s3: "peer_steps X p p3" if "r \<noteq> Panic"
    using s2 on_packet [OF r that] by (rule rtranclp.rtrancl_into_rtrancl)
  have s4: "peer_steps X p (fst (record_recv p3))" if "r \<noteq> Panic"
    using s3 [OF that] on_recv by (rule rtranclp.rtrancl_into_rtrancl)
  have "q = p \<or> q = ?p1 \<or> (r \<noteq> Panic \<and> (q = p3 \<or> q = fst (record_recv p3)))"
    using pp r by (auto simp: process_packet_def Let_def split_beta split: if_splits res.splits)
  then show ?thesis using s1 s3 s4 by blast
qed

lemma heartbeat_steps: "peer_steps X p (heartbeat env p t)"
  by (auto simp: heartbeat_def enqueue_ping_command_def intro!: on_enqueue split: option.split)

lemma session_update_steps:
  assumes "session_update X env p t = Ok (q, acts)" "\<forall>n. length (se_fill env n) = n"
  shows "peer_steps X p q"
proof -
  let ?p1 = "fst (peer_update_bandwidth_window p t)"
  obtain p2 where f: "flush_commands X (heartbeat env ?p1 t) [] = Ok (p2, acts)"
    and m: "peer_handle_pmtu p2 t (se_token env) (se_fill env) = Ok q"
    using assms(1) by (auto simp: session_update_def Let_def res_bind_Ok_iff)
  have "peer_steps X p ?p1" using on_bandwidth by (rule r_into_rtranclp)
  also have "peer_steps X ?p1 (heartbeat env ?p1 t)" by (rule heartbeat_steps)
  also have "peer_steps X (heartbeat env ?p1 t) p2" by (rule flush_steps [OF f])
  also have "peer_steps X p2 q" using on_pmtu [OF m assms(2)] by (rule r_into_rtranclp)
  finally show ?thesis .
qed

section \<open>What a flush sends\<close>

text \<open>The compressor in use never reports an error, as with no compression or with compression into memory.\<close>

definition never_fails :: "ext \<Rightarrow> config \<Rightarrow> bool" where
  "never_fails X config \<longleftrightarrow> (\<forall>cs. \<exists>d. datagram_of X config cs = Ok d)"

lemma never_fails_uncompressed: "compression config = NoCompression \<Longrightarrow> never_fails X config"
  by (simp add: never_fails_def datagram_of_def compress_no_compression)

text \<open>The flush stopped because the queue is empty, the bandwidth is used up, or the next command is too large for any datagram.\<close>

definition flush_done :: "ext \<Rightarrow> peer \<Rightarrow> bool" where
  "flush_done X q \<longleftrightarrow> queue_of q = [] \<or> \<not> peer_can_send_within_bandwidth q \<or>
     effective_max q (fragment_datagram_cap q) < datagram_size X (p_config q) (hd (queue_of q))"

lemma effective_max_cap: "effective_max p (fragment_datagram_cap p) \<le> receive_buffer_max_size (p_config p)"
  by (simp add: effective_max_def fragment_datagram_cap_def split: list.split)

lemma bounded_fits:
  "encode_queued_commands_bounded X p m = (p', Ok (Some d)) \<Longrightarrow> length d \<le> effective_max p m"
  by (auto simp: encode_queued_commands_bounded_def Let_def split_beta split: if_splits res.splits)

lemma has_queued_iff: "has_queued_commands p \<longleftrightarrow> queue_of p \<noteq> []"
  by (simp add: has_queued_commands_def cq_is_empty_def queue_of_def)

lemma selected_zero:
  "selected X p m = 0 \<Longrightarrow> queue_of p \<noteq> [] \<Longrightarrow> effective_max p m < datagram_size X (p_config p) (hd (queue_of p))"
  by (cases "queue_of p") (auto simp: selected_def datagram_size_def split: if_splits)

lemma flush_one:
  assumes X: "byteorder_be X" "compressors_lossless X" and ok: "never_fails X (p_config p)"
    and small: "receive_buffer_max_size (p_config p) \<le> 1537"
    and same: "use_checksums config = use_checksums (p_config p)" and inv: "peer_inv p"
    and n: "selected X p (fragment_datagram_cap p) = n" "0 < n"
  shows "\<exists>d p'. encode_queued_commands_bounded X p (fragment_datagram_cap p) = (p', Ok (Some d)) \<and>
    length d \<le> receive_buffer_max_size (p_config p) \<and> open_datagram X config d = Ok (map owned (take n (queue_of p))) \<and>
    queue_of p' = drop n (queue_of p) \<and> p_config p' = p_config p \<and> peer_inv p'"
proof -
  let ?m = "fragment_datagram_cap p"
  have w: "waiting_inv p" and wf: "\<forall>c \<in> set (queue_of p). command_wf c" using inv by (simp_all add: peer_inv_def)
  note res = bounded_something [OF X(1) w, of ?m, unfolded n(1), OF n(2)]
  obtain d where d: "datagram_of X (p_config p) (take n (queue_of p)) = Ok d" using ok unfolding never_fails_def by blast
  have fit: "per_packet_overhead (p_config p) + encoded_size X (take n (queue_of p)) \<le> effective_max p ?m"
    using fitting_fits [of X "effective_max p ?m" "per_packet_overhead (p_config p)" "queue_of p"] n
    by (simp add: selected_def)
  have len: "length d \<le> receive_buffer_max_size (p_config p)"
    using datagram_length [OF X(1) d] fit effective_max_cap [of p] by linarith
  have "2 + encoded_size X (take n (queue_of p)) \<le> 1537"
    using fit per_packet_overhead_min [of "p_config p"] effective_max_cap [of p] small by linarith
  moreover have "\<forall>c \<in> set (take n (queue_of p)). command_wf c" using wf by (auto dest: in_set_takeD)
  ultimately have o: "open_datagram X config d = Ok (map owned (take n (queue_of p)))"
    by (rule open_datagram_of [OF X d same])
  have "snd (encode_queued_commands_bounded X p ?m) = Ok (Some d)" by (simp add: res(1) d)
  then have "encode_queued_commands_bounded X p ?m = (fst (encode_queued_commands_bounded X p ?m), Ok (Some d))"
    by (metis prod.collapse)
  then show ?thesis using res(2,4) len o peer_inv_bounded [OF inv, of X ?m] by blast
qed

lemma flush_result:
  assumes "byteorder_be X" "compressors_lossless X" "never_fails X (p_config p)"
    "receive_buffer_max_size (p_config p) \<le> 1537" "use_checksums config = use_checksums (p_config p)" "peer_inv p"
  shows "\<exists>q ds css. flush_commands X p a = Ok (q, a @ map Send ds) \<and> flush_done X q \<and>
    list_all2 (\<lambda>d cs. open_datagram X config d = Ok cs) ds css \<and>
    concat css @ map owned (queue_of q) = map owned (queue_of p) \<and>
    (\<forall>d \<in> set ds. length d \<le> receive_buffer_max_size (p_config p))"
  using assms
proof (induction "length (queue_of p)" arbitrary: p a rule: less_induct)
  case less
  define n where "n = selected X p (fragment_datagram_cap p)"
  show ?case
  proof (cases "has_queued_commands p \<and> peer_can_send_within_bandwidth p")
    case False
    then have "flush_commands X p a = Ok (p, a @ map Send [])" "flush_done X p"
      by (auto simp: flush_commands.simps flush_done_def has_queued_iff)
    then show ?thesis by (intro exI [of _ p] exI [of _ "[]"]) simp
  next
    case True
    show ?thesis
    proof (cases "n = 0")
      case True
      then have "flush_commands X p a = Ok (p, a @ map Send [])" "flush_done X p"
        using \<open>has_queued_commands p \<and> _\<close> bounded_nothing [of X p] selected_zero [of X p]
        by (auto simp: flush_commands.simps [of X p] flush_done_def n_def has_queued_iff)
      then show ?thesis by (intro exI [of _ p] exI [of _ "[]"]) simp
    next
      case False
      then have "0 < n" by simp
      from flush_one [OF less.prems n_def [symmetric] this] obtain d p' where
        b: "encode_queued_commands_bounded X p (fragment_datagram_cap p) = (p', Ok (Some d))"
        and d: "length d \<le> receive_buffer_max_size (p_config p)" "open_datagram X config d = Ok (map owned (take n (queue_of p)))"
        and p': "queue_of p' = drop n (queue_of p)" "p_config p' = p_config p" "peer_inv p'" by blast
      let ?p = "peer_record_bytes_sent p' (of_nat (length d))"
      have cfg: "p_config ?p = p_config p" "peer_inv ?p" using p' by (simp_all add: peer_inv_small peer_record_bytes_sent_def)
      have "length (queue_of ?p) < length (queue_of p)" using bounded_shrinks [OF b] by simp
      from less.hyps [OF this, of "a @ [Send d]"] less.prems(1-5) cfg obtain q ds css where
        "flush_commands X ?p (a @ [Send d]) = Ok (q, (a @ [Send d]) @ map Send ds)" "flush_done X q"
        "list_all2 (\<lambda>d cs. open_datagram X config d = Ok cs) ds css"
        "concat css @ map owned (queue_of q) = map owned (queue_of ?p)"
        "\<forall>d \<in> set ds. length d \<le> receive_buffer_max_size (p_config p)" by auto
      moreover have "flush_commands X p a = flush_commands X ?p (a @ [Send d])"
        using \<open>has_queued_commands p \<and> _\<close> b by (simp add: flush_commands.simps [of X p])
      moreover have "map owned (take n (queue_of p)) @ map owned (drop n (queue_of p)) = map owned (queue_of p)"
        by (simp flip: map_append)
      ultimately show ?thesis
        using d p'(1)
        by (intro exI [of _ q] exI [of _ "d # ds"] exI [of _ "map owned (take n (queue_of p)) # css"]) simp
    qed
  qed
qed

section \<open>Properties\<close>

text \<open>
  C8: A flush sends the queue in order and loses nothing: the datagrams it produces, opened by a receiver with the same checksum setting,
  contain exactly the commands that left the queue, in order; each fits the receive buffer; and the flush stops only
  when the queue is empty, the bandwidth of the window is used up, or the next command fits no datagram.
\<close>

theorem flush_sends_queue:
  assumes "byteorder_be X" and "compressors_lossless X" and "never_fails X (p_config p)"
    and "receive_buffer_max_size (p_config p) \<le> 1537" and "use_checksums config = use_checksums (p_config p)"
    and "peer_steps X (peer_new addr config0 time now sid cid) p"
  shows "\<exists>q ds css. flush_commands X p a = Ok (q, a @ map Send ds) \<and> flush_done X q \<and>
    list_all2 (\<lambda>d cs. open_datagram X config d = Ok cs) ds css \<and>
    concat css @ map owned (queue_of q) = map owned (queue_of p) \<and>
    (\<forall>d \<in> set ds. length d \<le> receive_buffer_max_size (p_config p))"
  using flush_result [OF assms(1-5) peer_steps_inv [OF assms(6) peer_inv_new]] .

theorem flush_sends_queue_witness:
  "\<exists>q ds css. flush_commands sample_ext sample_queued [] = Ok (q, [] @ map Send ds) \<and> flush_done sample_ext q \<and>
    list_all2 (\<lambda>d cs. open_datagram sample_ext default_config d = Ok cs) ds css \<and>
    concat css @ map owned (queue_of q) = map owned (queue_of sample_queued) \<and>
    (\<forall>d \<in> set ds. length d \<le> receive_buffer_max_size (p_config sample_queued))"
proof (rule flush_sends_queue [OF sample_ext_byteorder sample_ext_lossless])
  have "peer_steps sample_ext sample_peer (enqueue_ping_command sample_peer 5)"
    unfolding enqueue_ping_command_def by (rule r_into_rtranclp, rule on_enqueue) simp
  also have "peer_steps sample_ext (enqueue_ping_command sample_peer 5) sample_queued"
    unfolding sample_queued_def enqueue_pong_command_def by (rule r_into_rtranclp, rule on_enqueue) simp
  finally show "peer_steps sample_ext (peer_new \<lparr>sa_ip = V4 0, sa_port = 1\<rparr> default_config 0 0 7 8) sample_queued"
    by (simp add: sample_peer_def)
qed (simp_all add: never_fails_uncompressed default_config_def DEFAULT_MTU_def)

lemma connect_at_once:
  fixes p :: peer and d :: bytes and t :: instant
  assumes "p_state p = Idle" and "d \<noteq> []"
    and "peer_can_receive_within_bandwidth (fst (peer_update_bandwidth_window p t))"
    and "open_datagram X (p_config p) d = Ok [Connect ch mtu ver sid cid]"
  shows "\<exists>q. process_packet X env p d t = Ok (q, [Emit (EvConnect (p_remote_address p))]) \<and> p_state q = Connected"
proof -
  let ?p = "peer_record_bytes_received (fst (peer_update_bandwidth_window p t)) (of_nat (length d))"
  have keep: "p_state ?p = Idle" "p_config ?p = p_config p" "p_remote_address ?p = p_remote_address p"
    using assms(1) by (simp_all add: peer_defs split_beta)
  let ?q = "record_packet_received (record_data_received ?p (length d))"
  have q: "p_state ?q = Idle" "p_remote_address ?q = p_remote_address p"
    using keep by (simp_all add: record_packet_received_def record_data_received_def)
  obtain q1 where q1: "process_command (se_peer_id env) ?q (Connect ch mtu ver sid cid) t = (q1, Ok zom_zero)"
    "p_state q1 = AcknowledgingConnect" "p_remote_address q1 = p_remote_address p"
    using q by (simp add: process_command_def proc_connect_def nothing_def Let_def)
  have "process_command_packet X (se_peer_id env) ?p d t = (q1, Ok (zom_many []))"
    using assms(4) keep q1(1) by (simp add: process_command_packet_def Let_def record_data_received_def)
  then show ?thesis
    using assms(2,3) q1 by (simp add: process_packet_def Let_def record_recv_def is_established_def state_is_established_def)
qed

text \<open>A \<open>Connect\<close> datagram as a client with the default configuration sends it, and what a session may draw.\<close>

definition sample_env :: session_env where
  "sample_env = \<lparr>se_peer_id = 3, se_session_id = 7, se_connect_id = 8, se_now = 0, se_elapsed = 0, se_token = 0,
     se_fill = (\<lambda>n. replicate n 0)\<rparr>"

definition sample_connect :: bytes where
  "sample_connect = [0, 1, 0, 12, 10, 1, 5, 120, 0, 1, 0, 5, 0, 0, 0, 6, 0, 0, 0, 161]"

lemma sample_connect_opens: "open_datagram sample_ext default_config sample_connect = Ok [Connect 1 1400 1 5 6]"
proof -
  have enc: "encode_command sample_ext (Connect 1 1400 1 5 6) = [10, 1, 5, 120, 0, 1, 0, 5, 0, 0, 0, 6]"
    by (simp add: encode_command_def sample_ext_def u16_to_be_bytes_def u32_to_be_bytes_def)
  have "datagram_of sample_ext default_config [Connect 1 1400 1 5 6] = Ok sample_connect"
    by (simp add: datagram_of_def default_config_def compress_no_compression encode_packet_framed framed_command_def enc
        append_checksum_in_place_def sample_connect_def) (simp add: sample_ext_def u16_to_be_bytes_def u32_to_be_bytes_def)
  from open_datagram_of [OF sample_ext_byteorder sample_ext_lossless this, of default_config] enc
  show ?thesis by simp
qed

lemma sample_peer_receives: "peer_can_receive_within_bandwidth (fst (peer_update_bandwidth_window sample_peer 0))"
  by (simp add: sample_peer_def peer_new_def peer_can_receive_within_bandwidth_def peer_update_bandwidth_window_def
      can_receive_within_bandwidth_def update_bandwidth_window_def bt_new_def default_config_def duration_since_def
      BANDWIDTH_WINDOW_def from_secs_def)

lemma sample_connect_nonempty: "sample_connect \<noteq> []"
  by (simp add: sample_connect_def)

text \<open>
  With the handshake enabled, a server's peer that receives a datagram with a \<open>Connect\<close> is connected, and reports so to the application, in the
  same call that queues its answer: it does not wait for the confirmation of the client.
\<close>

theorem server_connects_at_once:
  fixes p :: peer and d :: bytes and t :: instant
  assumes "p_state p = Idle" and "d \<noteq> []"
    and "peer_can_receive_within_bandwidth (fst (peer_update_bandwidth_window p t))"
    and "open_datagram X (p_config p) d = Ok [Connect ch mtu ver sid cid]"
  shows "\<exists>q. process_packet X env p d t = Ok (q, [Emit (EvConnect (p_remote_address p))]) \<and> p_state q = Connected"
  using assms by (rule connect_at_once)

theorem server_connects_at_once_witness:
  "\<exists>q. process_packet sample_ext sample_env sample_peer sample_connect 0 =
       Ok (q, [Emit (EvConnect \<lparr>sa_ip = V4 0, sa_port = 1\<rparr>)]) \<and> p_state q = Connected"
  using server_connects_at_once [OF _ sample_connect_nonempty sample_peer_receives, of sample_ext 1 1400 1 5 6 sample_env]
  by (simp add: sample_connect_opens)

lemma path_from_connecting:
  "state_path Connecting s \<Longrightarrow> s \<in> {Connecting, ConnectionSucceeded, Connected, Disconnecting, Zombie}"
  by (induction rule: rtranclp_induct) (auto elim: state_edge.cases)

lemma record_send_flag: "\<not> snd (record_send p)"
  by (auto simp: record_send_def initiate_connect_def Let_def is_established_def state_is_established_def
      split: peer_state.split)

lemma flush_no_event:
  assumes "flush_commands X p a = Ok (q, b)" "\<forall>e. Emit e \<notin> set a"
  shows "\<forall>e. Emit e \<notin> set b"
  using assms
proof (induction X p a rule: flush_commands.induct)
  case (1 X p a)
  show ?case
    using "1.prems" "1.IH"
    by (auto simp: flush_commands.simps [of X p] split: if_splits prod.splits res.splits option.splits)
qed

end
