(* ===== verification/Session_Interface.thy ===== *)
theory Session_Interface
  imports Peer_Session
begin

text \<open>
  The interface between the session manager and its sessions. The manager of the source is generic over the trait
  \<^verbatim>\<open>Session\<close> (\<^verbatim>\<open>bitfold-host/src/session.rs\<close>): the record \<open>session_ops\<close> is an implementation of that trait, and \<open>peer_ops\<close> the one by a peer.

  The locale \<open>session_contract\<close> states what the manager relies on: no operation panics on a session in its invariant, a session that was
  established stays so or is dying, a dying one is never established again, and sending never establishes
  a session. The interpretation \<open>peer_contract\<close> discharges this for the peer.
\<close>

section \<open>Sessions\<close>

record ('s, 'e, 'r) session_ops =
  so_create :: "config \<Rightarrow> socket_addr \<Rightarrow> instant \<Rightarrow> session_env \<Rightarrow> 's"
  so_established :: "'s \<Rightarrow> bool"
  so_should_drop :: "'s \<Rightarrow> instant \<Rightarrow> bool \<times> 'r action list"
  so_process_packet :: "session_env \<Rightarrow> 's \<Rightarrow> bytes \<Rightarrow> instant \<Rightarrow> (error_kind, 's \<times> 'r action list) res"
  so_process_event :: "'s \<Rightarrow> 'e \<Rightarrow> instant \<Rightarrow> (error_kind, 's \<times> 'r action list) res"
  so_update :: "session_env \<Rightarrow> 's \<Rightarrow> instant \<Rightarrow> (error_kind, 's \<times> 'r action list) res"
  so_address :: "'e \<Rightarrow> socket_addr"

definition peer_ops :: "ext \<Rightarrow> (peer, packet, socket_event) session_ops" where
  "peer_ops X = \<lparr>so_create = create_session, so_established = is_established, so_should_drop = should_drop,
     so_process_packet = process_packet X, so_process_event = process_event X, so_update = session_update X,
     so_address = packet_address\<rparr>"

locale session_contract =
  fixes ops :: "('s, 'e, 'r) session_ops"
    and good :: "'s \<Rightarrow> bool"
    and dying :: "'s \<Rightarrow> bool"
    and cfg_ok :: "config \<Rightarrow> bool"
    and env_ok :: "session_env \<Rightarrow> bool"
  assumes create_inv: "cfg_ok c \<Longrightarrow> good (so_create ops c addr t env)"
    and dying_not_established: "dying s \<Longrightarrow> \<not> so_established ops s"
    and packet_total: "good s \<Longrightarrow> \<exists>s' acts. so_process_packet ops env s d t = Ok (s', acts)"
    and packet_inv: "good s \<Longrightarrow> so_process_packet ops env s d t = Ok (s', acts) \<Longrightarrow> good s'"
    and packet_dying: "so_process_packet ops env s d t = Ok (s', acts) \<Longrightarrow> dying s \<Longrightarrow> dying s'"
    and packet_established:
      "so_process_packet ops env s d t = Ok (s', acts) \<Longrightarrow> so_established ops s \<Longrightarrow> so_established ops s' \<or> dying s'"
    and event_total: "good s \<Longrightarrow> \<exists>s' acts. so_process_event ops s ev t = Ok (s', acts)"
    and event_inv: "good s \<Longrightarrow> so_process_event ops s ev t = Ok (s', acts) \<Longrightarrow> good s'"
    and event_established: "so_process_event ops s ev t = Ok (s', acts) \<Longrightarrow> so_established ops s' \<Longrightarrow> so_established ops s"
    and update_total: "good s \<Longrightarrow> \<exists>s' acts. so_update ops env s t = Ok (s', acts)"
    and update_inv: "good s \<Longrightarrow> env_ok env \<Longrightarrow> so_update ops env s t = Ok (s', acts) \<Longrightarrow> good s'"
    and update_dying: "env_ok env \<Longrightarrow> so_update ops env s t = Ok (s', acts) \<Longrightarrow> dying s \<Longrightarrow> dying s'"
    and update_established:
      "env_ok env \<Longrightarrow> so_update ops env s t = Ok (s', acts) \<Longrightarrow> so_established ops s \<Longrightarrow> so_established ops s' \<or> dying s'"

section \<open>A peer never panics\<close>

definition window_ordered :: "config \<Rightarrow> bool" where
  "window_ordered c \<longleftrightarrow> (use_window_flow_control c \<longrightarrow> min_window_size c \<le> max_window_size c)"

text \<open>A manager hands every session the configuration \<open>config\<close> it was made with.\<close>

definition peer_cfg_ok :: "ext \<Rightarrow> config \<Rightarrow> config \<Rightarrow> bool" where
  "peer_cfg_ok X config c \<longleftrightarrow> c = config \<and> compressors_report X \<and> window_ordered c"

definition peer_safe :: "ext \<Rightarrow> peer \<Rightarrow> bool" where
  "peer_safe X p \<longleftrightarrow> compressors_report X \<and> window_ordered (p_config p) \<and> peer_inv p"

definition peer_dying :: "peer \<Rightarrow> bool" where
  "peer_dying p = is_disconnecting (p_state p)"

definition fills :: "session_env \<Rightarrow> bool" where
  "fills env \<longleftrightarrow> (\<forall>n. length (se_fill env n) = n)"

lemma compress_not_Panic: "compressors_report X \<Longrightarrow> compress_with_buffer X d a n out \<noteq> Panic"
  by (auto simp: compress_with_buffer_def compressors_report_def Let_def res_bind_Panic_iff
      split: compression_algorithm.split)

lemma decompress_not_Panic: "compressors_report X \<Longrightarrow> decompress X d \<noteq> Panic"
  by (cases d) (auto simp: decompress_def compressors_report_def Let_def split: list.split)

lemma open_not_Panic: "compressors_report X \<Longrightarrow> open_datagram X c d \<noteq> Panic"
  by (auto simp: open_datagram_def res_bind_Panic_iff decompress_not_Panic decode_packet_not_Panic validate_not_Panic)

lemma emit_not_Panic: "compressors_report X \<Longrightarrow> snd (emit_datagram X p cs) \<noteq> Panic"
  using compress_not_Panic [of X] by (auto simp: emit_datagram_def Let_def split_beta split: res.split)

lemma bounded_not_Panic: "compressors_report X \<Longrightarrow> snd (encode_queued_commands_bounded X p m) \<noteq> Panic"
  using emit_not_Panic [of X]
  by (auto simp: encode_queued_commands_bounded_def Let_def split: prod.split res.split) (metis snd_conv)+

lemma flush_total: "compressors_report X \<Longrightarrow> \<exists>q b. flush_commands X p a = Ok (q, b)"
proof (induction X p a rule: flush_commands.induct)
  case (1 X p a)
  obtain p' r where b: "encode_queued_commands_bounded X p (fragment_datagram_cap p) = (p', r)" by fastforce
  then have "r \<noteq> Panic" using bounded_not_Panic [OF "1.prems", of p] by (metis snd_conv)
  then show ?case
    using "1.IH" [OF _ b [symmetric]] "1.prems" b
    by (auto simp: flush_commands.simps [of X p] split: res.split option.split)
qed

lemma steps_safe: "peer_steps X p q \<Longrightarrow> peer_safe X p \<Longrightarrow> peer_safe X q"
  using peer_steps_inv [of X p q] peer_steps_moves [of X p q] by (auto simp: peer_safe_def moves_def window_ordered_def)

lemma steps_dying: "peer_steps X p q \<Longrightarrow> peer_dying p \<Longrightarrow> peer_dying q"
  using peer_steps_moves [of X p q] path_from_zombie [of "p_state q"] path_from_disconnecting [of "p_state q"]
  by (auto simp: peer_dying_def moves_def is_disconnecting_def)

lemma path_established:
  "state_path s s' \<Longrightarrow> state_is_established s \<Longrightarrow> state_is_established s' \<or> is_disconnecting s'"
  by (induction rule: rtranclp_induct)
     (auto simp: state_is_established_def is_disconnecting_def elim: state_edge.cases)

lemma steps_established: "peer_steps X p q \<Longrightarrow> is_established p \<Longrightarrow> is_established q \<or> peer_dying q"
  using peer_steps_moves [of X p q] path_established [of "p_state p" "p_state q"]
  by (auto simp: is_established_def peer_dying_def moves_def)

lemma commands_not_Panic: "window_ordered (p_config p) \<Longrightarrow> snd (process_commands rnd p cs t out) \<noteq> Panic"
proof (induction cs arbitrary: p out)
  case (Cons c cs)
  obtain q r where q: "process_command rnd p c t = (q, r)" by fastforce
  then have "r \<noteq> Panic" using command_outcome [of rnd p c t] Cons.prems by (auto simp: window_ordered_def)
  moreover have "window_ordered (p_config q)"
    using moves_process_command [of p rnd c t] Cons.prems q by (simp add: moves_def window_ordered_def)
  ultimately show ?case using Cons.IH by (simp add: q split: res.split)
qed simp

lemma packet_not_Panic: "peer_safe X p \<Longrightarrow> snd (process_command_packet X rnd p d t) \<noteq> Panic"
  using open_not_Panic [of X]
  by (auto simp: peer_safe_def process_command_packet_def Let_def commands_not_Panic peer_defs split: res.split)

lemma process_packet_total: "peer_safe X p \<Longrightarrow> \<exists>q acts. process_packet X env p d t = Ok (q, acts)"
proof -
  assume safe: "peer_safe X p"
  let ?p = "peer_record_bytes_received (fst (peer_update_bandwidth_window p t)) (of_nat (length d))"
  have "peer_steps X p (fst (peer_update_bandwidth_window p t))" using on_bandwidth by (rule r_into_rtranclp)
  then have "peer_steps X p ?p" using on_bytes_received by (rule rtranclp.rtrancl_into_rtrancl)
  then have "snd (process_command_packet X (se_peer_id env) ?p d t) \<noteq> Panic"
    using safe by (intro packet_not_Panic) (rule steps_safe)
  then show ?thesis by (auto simp: process_packet_def Let_def split_beta split: prod.split res.split)
qed

lemma process_event_total: "peer_safe X p \<Longrightarrow> \<exists>q acts. process_event X p ev t = Ok (q, acts)"
proof -
  assume "peer_safe X p"
  moreover obtain q where "enqueue_event (fst (record_send p)) ev = Ok q" using event_steps [of _ ev X] by blast
  ultimately show ?thesis using flush_total [of X q] by (auto simp: process_event_def split_beta Let_def peer_safe_def)
qed

lemma update_total: "peer_safe X p \<Longrightarrow> \<exists>q acts. session_update X env p t = Ok (q, acts)"
proof -
  assume safe: "peer_safe X p"
  let ?p = "heartbeat env (fst (peer_update_bandwidth_window p t)) t"
  obtain q a where f: "flush_commands X ?p [] = Ok (q, a)" using flush_total [of X ?p "[]"] safe by (auto simp: peer_safe_def)
  have "peer_steps X p q" using on_bandwidth [of X p t] heartbeat_steps flush_steps [OF f]
    by (meson converse_rtranclp_into_rtranclp rtranclp_trans)
  then have "rtt_initial (p_acknowledge_handler q)" using safe peer_steps_inv by (auto simp: peer_safe_def peer_inv_def)
  then have "\<exists>q'. peer_handle_pmtu q t (se_token env) (se_fill env) = Ok q'"
    by (auto simp: peer_handle_pmtu_def rto_initial split: prod.split option.split)
  then show ?thesis by (auto simp: session_update_def Let_def f)
qed

section \<open>Sending does not establish a session\<close>

lemma bounded_state: "p_state (fst (encode_queued_commands_bounded X p m)) = p_state p"
proof -
  have "p_state (fst (emit_datagram X (enqueue_all (fst (drain_commands p)) cs) cs')) = p_state p" for cs cs'
    by (simp add: emit_datagram_keeps) (simp add: drain_commands_def split_beta)
  then show ?thesis
    by (auto simp: encode_queued_commands_bounded_def Let_def split_beta enqueue_all_def split: res.split)
qed

lemma flush_state: "flush_commands X p a = Ok (q, b) \<Longrightarrow> p_state q = p_state p"
proof (induction X p a rule: flush_commands.induct)
  case (1 X p a)
  obtain p' r where b: "encode_queued_commands_bounded X p (fragment_datagram_cap p) = (p', r)" by fastforce
  then have st: "p_state p' = p_state p" using bounded_state [of X p] by (metis fst_conv)
  have "p_state (peer_record_bytes_sent p' n) = p_state p" for n using st by (simp add: peer_defs)
  then show ?case
    using "1.IH" [OF _ b [symmetric]] "1.prems" b st
    by (auto simp: flush_commands.simps [of X p] split: if_splits res.splits option.splits)
qed

lemma unsequenced_state: "unsequenced_loop ch base budget p offset = Ok q \<Longrightarrow> p_state q = p_state p"
proof (induction ch base budget p offset rule: unsequenced_loop.induct)
  case (1 ch base budget p offset)
  then show ?case
    by (auto simp: unsequenced_loop.simps [of ch base budget p offset] Let_def split_beta res_bind_Ok_iff peer_defs
        enqueue_command_result split: if_splits)
qed

lemma enqueue_event_state: "enqueue_event p ev = Ok q \<Longrightarrow> p_state q = p_state p"
  by (cases "pk_delivery ev"; cases "pk_ordering ev")
     (auto simp: enqueue_event_def Let_def res_bind_Ok_iff enqueue_reliable_offered enqueue_unreliable_offered
       dest: unsequenced_state)

lemma process_event_established: "process_event X p ev t = Ok (q, acts) \<Longrightarrow> is_established q \<Longrightarrow> is_established p"
proof -
  assume ev: "process_event X p ev t = Ok (q, acts)" and est: "is_established q"
  then obtain r where "enqueue_event (fst (record_send p)) ev = Ok r" and "\<exists>a. flush_commands X r a = Ok (q, acts)"
    by (auto simp: process_event_def split_beta Let_def res_bind_Ok_iff)
  then have "p_state q = p_state (fst (record_send p))" using enqueue_event_state flush_state by metis
  then show ?thesis using est record_send_flag [of p] by (auto simp: is_established_def record_send_def Let_def)
qed

section \<open>The peer satisfies the contract\<close>

interpretation peer_contract: session_contract "peer_ops X" "peer_safe X" peer_dying "peer_cfg_ok X config" fills
proof (unfold_locales, unfold peer_ops_def session_ops.simps, goal_cases)
  case (1 c addr t env)
  then show ?case by (auto simp: peer_cfg_ok_def peer_safe_def create_session_def peer_inv_new) (simp add: peer_new_def)
next
  case (2 s)
  then show ?case by (auto simp: peer_dying_def is_established_def is_disconnecting_def state_is_established_def)
next
  case 3 then show ?case by (rule process_packet_total)
next
  case 4 then show ?case using process_packet_steps steps_safe by blast
next
  case 5 then show ?case using process_packet_steps steps_dying by blast
next
  case 6 then show ?case using process_packet_steps steps_established by blast
next
  case 7 then show ?case by (rule process_event_total)
next
  case 8 then show ?case using process_event_steps steps_safe by blast
next
  case 9 then show ?case by (rule process_event_established)
next
  case 10 then show ?case by (rule update_total)
next
  case 11 then show ?case using session_update_steps steps_safe unfolding fills_def by blast
next
  case 12 then show ?case using session_update_steps steps_dying unfolding fills_def by blast
next
  case 13 then show ?case using session_update_steps steps_established unfolding fills_def by blast
qed

section \<open>Properties\<close>

text \<open>
  C36: With the handshake enabled, the side that connects is never told: no datagram that reaches a connecting peer produces a connection event, and neither does any
  send, because the peer counts as established from the moment the answer is processed.
\<close>

theorem client_never_told:
  assumes "use_connection_handshake (p_config p)" and "p_state p = Connecting"
    and "process_packet X env p d t = Ok (q, acts)" and "process_event X p' ev t' = Ok (q', acts')"
  shows "Emit (EvConnect addr) \<notin> set acts \<and> Emit (EvConnect addr) \<notin> set acts'"
proof
  let ?p = "peer_record_bytes_received (fst (peer_update_bandwidth_window p t)) (of_nat (length d))"
  obtain p1 r where r: "process_command_packet X (se_peer_id env) ?p d t = (p1, r)" by fastforce
  have "moves p ?p" using moves_small(3,5) by (metis moves_trans)
  then have m: "moves p p1" using moves_packet [of ?p X "se_peer_id env" d t] r by (metis fst_conv moves_trans)
  then have st: "p_state p1 \<in> {Connecting, ConnectionSucceeded, Connected, Disconnecting, Zombie}"
    and hs: "use_connection_handshake (p_config p1)"
    using assms(1,2) path_from_connecting [of "p_state p1"] by (simp_all add: moves_def)
  then have "\<not> snd (record_recv p1)"
    by (auto simp: record_recv_def Let_def is_established_def state_is_established_def)
  then show "Emit (EvConnect addr) \<notin> set acts"
    using assms(3) r by (auto simp: process_packet_def Let_def split_beta split: if_splits res.splits)
  show "Emit (EvConnect addr) \<notin> set acts'"
    using assms(4) record_send_flag [of p']
    by (auto simp: process_event_def Let_def split_beta res_bind_Ok_iff dest!: flush_no_event)
qed

theorem client_never_told_witness:
  "\<exists>q acts q' acts'. process_packet sample_ext sample_env (sample_peer\<lparr>p_state := Connecting\<rparr>) sample_connect 0 = Ok (q, acts) \<and>
     process_event sample_ext sample_peer (packet_unreliable \<lparr>sa_ip = V4 0, sa_port = 1\<rparr> [1, 2]) 0 = Ok (q', acts') \<and>
     Emit (EvConnect \<lparr>sa_ip = V4 0, sa_port = 1\<rparr>) \<notin> set acts \<and> Emit (EvConnect \<lparr>sa_ip = V4 0, sa_port = 1\<rparr>) \<notin> set acts'"
proof -
  let ?p = "sample_peer\<lparr>p_state := Connecting\<rparr>"
  have hs: "use_connection_handshake (p_config ?p)" "p_state ?p = Connecting" by (simp_all add: default_config_def)
  have "peer_inv sample_peer" unfolding sample_peer_def by (rule peer_inv_new)
  then have safe: "peer_safe sample_ext ?p" "peer_safe sample_ext sample_peer"
    by (simp_all add: peer_safe_def sample_ext_report window_ordered_def) (simp_all add: default_config_def)
  obtain q acts where p: "process_packet sample_ext sample_env ?p sample_connect 0 = Ok (q, acts)"
    using process_packet_total [OF safe(1)] by blast
  obtain q' acts' where e: "process_event sample_ext sample_peer (packet_unreliable \<lparr>sa_ip = V4 0, sa_port = 1\<rparr> [1, 2]) 0 = Ok (q', acts')"
    using process_event_total [OF safe(2)] by blast
  show ?thesis using client_never_told [OF hs p e] p e by blast
qed

end
