(* ===== verification/Session_Manager.thy ===== *)
theory Session_Manager
  imports Session_Interface
begin

text \<open>
  The session manager (\<^verbatim>\<open>bitfold-host/src/session_manager.rs\<close>): it owns one session per remote address, hands datagrams and
  application packets to them, and limits how many unestablished sessions and how many sessions per IP address there are.

  Like the source it is generic in the session; what it relies on is the locale \<open>session_contract\<close>.

  What is outside: the socket delivers a list of received datagrams, and the datagrams given to it are recorded in order. The interceptor of the application is a
  parameter. The n-th call of a session operation draws its random values from \<open>envs n\<close>. A hash map is iterated in the order of its list.
\<close>

section \<open>Interceptors\<close>

record 'i interceptor =
  ic_on_receive :: "'i \<Rightarrow> socket_addr \<Rightarrow> bytes \<Rightarrow> 'i \<times> bytes \<times> bool"
  ic_on_send :: "'i \<Rightarrow> socket_addr \<Rightarrow> bytes \<Rightarrow> 'i \<times> bytes \<times> bool"

definition no_op_interceptor :: "unit interceptor" where
  "no_op_interceptor = \<lparr>ic_on_receive = (\<lambda>i addr d. (i, d, True)), ic_on_send = (\<lambda>i addr d. (i, d, True))\<rparr>"

section \<open>State\<close>

record ('s, 'e, 'r, 'i) session_manager =
  sm_sessions :: "(socket_addr, 's) hmap"
  sm_receive_buffer :: bytes
  sm_user_events :: "'e list"
  sm_config :: config
  sm_pending_sends :: "(socket_addr \<times> bytes) list"
  sm_pending_events :: "'r list"
  sm_interceptor :: 'i
  sm_send_pool :: packet_allocator
  sm_sent :: "(socket_addr \<times> bytes) list"
  sm_events :: "'r list"
  sm_max_unestablished :: u16
  sm_duplicate_peer_count :: "(ip_addr, nat) hmap"
  sm_max_duplicate_peers :: u16
  sm_draws :: nat

definition sm_new :: "config \<Rightarrow> 'i \<Rightarrow> ('s, 'e, 'r, 'i) session_manager" where
  "sm_new config interceptor = \<lparr>sm_sessions = hm_empty,
     sm_receive_buffer = replicate (receive_buffer_max_size config) 0, sm_user_events = [], sm_config = config,
     sm_pending_sends = [], sm_pending_events = [], sm_interceptor = interceptor,
     sm_send_pool = pa_new (max_packet_size config) 256, sm_sent = [], sm_events = [],
     sm_max_unestablished = max_unestablished_connections config, sm_duplicate_peer_count = hm_empty,
     sm_max_duplicate_peers = max_duplicate_peers config, sm_draws = 0\<rparr>"

section \<open>The messenger\<close>

primrec handle_action :: "socket_addr \<Rightarrow> ('s, 'e, 'r, 'i) session_manager \<Rightarrow> 'r action \<Rightarrow> ('s, 'e, 'r, 'i) session_manager" where
  "handle_action addr m (Send bytes) = m\<lparr>sm_pending_sends := sm_pending_sends m @ [(addr, bytes)]\<rparr>"
| "handle_action addr m (Emit ev) = m\<lparr>sm_pending_events := sm_pending_events m @ [ev]\<rparr>"

definition handle_actions ::
  "('s, 'e, 'r, 'i) session_manager \<Rightarrow> socket_addr \<Rightarrow> 'r action list \<Rightarrow> ('s, 'e, 'r, 'i) session_manager" where
  "handle_actions m addr actions = foldl (handle_action addr) m actions"

definition flush_send ::
  "'i interceptor \<Rightarrow> ('s, 'e, 'r, 'i) session_manager \<Rightarrow> socket_addr \<times> bytes \<Rightarrow> ('s, 'e, 'r, 'i) session_manager" where
  "flush_send ic m = (\<lambda>(addr, payload).
     (let (i, payload, keep) = ic_on_send ic (sm_interceptor m) addr payload;
          m = m\<lparr>sm_interceptor := i\<rparr>;
          buffer = \<lparr>vb_data = payload, vb_capacity = length payload\<rparr>
      in if \<not> keep then m\<lparr>sm_send_pool := pa_deallocate (sm_send_pool m) buffer\<rparr>
         else m\<lparr>sm_sent := sm_sent m @ [(addr, payload)], sm_send_pool := pa_deallocate (sm_send_pool m) buffer\<rparr>))"

definition messenger_flush ::
  "'i interceptor \<Rightarrow> ('s, 'e, 'r, 'i) session_manager \<Rightarrow> ('s, 'e, 'r, 'i) session_manager" where
  "messenger_flush ic m =
     (let m = foldl (flush_send ic) (m\<lparr>sm_pending_sends := []\<rparr>) (sm_pending_sends m)
      in m\<lparr>sm_events := sm_events m @ sm_pending_events m, sm_pending_events := []\<rparr>)"

section \<open>Sessions per address\<close>

definition count_of :: "('s, 'e, 'r, 'i) session_manager \<Rightarrow> ip_addr \<Rightarrow> nat" where
  "count_of m ip = (case hm_get (sm_duplicate_peer_count m) ip of Some n \<Rightarrow> n | None \<Rightarrow> 0)"

definition duplicate_peer_count :: "('s, 'e, 'r, 'i) session_manager \<Rightarrow> socket_addr \<Rightarrow> nat" where
  "duplicate_peer_count m addr = count_of m (sa_ip addr)"

definition can_accept_duplicate :: "('s, 'e, 'r, 'i) session_manager \<Rightarrow> socket_addr \<Rightarrow> bool" where
  "can_accept_duplicate m addr =
     (if sm_max_duplicate_peers m = 0 then True
      else count_of m (sa_ip addr) < unat (sm_max_duplicate_peers m))"

definition increment_duplicate_count ::
  "('s, 'e, 'r, 'i) session_manager \<Rightarrow> socket_addr \<Rightarrow> ('s, 'e, 'r, 'i) session_manager" where
  "increment_duplicate_count m addr =
     (let ip = sa_ip addr
      in m\<lparr>sm_duplicate_peer_count := hm_insert ip (hm_entry ip 0 (sm_duplicate_peer_count m) + 1) (sm_duplicate_peer_count m)\<rparr>)"

definition decrement_duplicate_count ::
  "('s, 'e, 'r, 'i) session_manager \<Rightarrow> socket_addr \<Rightarrow> (error_kind, ('s, 'e, 'r, 'i) session_manager) res" where
  "decrement_duplicate_count m addr =
     (let ip = sa_ip addr
      in case hm_get (sm_duplicate_peer_count m) ip of
           Some count \<Rightarrow>
             if count = 0 then Panic
             else let count = count - 1
                  in if count = 0
                     then Ok (m\<lparr>sm_duplicate_peer_count := hm_delete ip (sm_duplicate_peer_count m)\<rparr>)
                     else Ok (m\<lparr>sm_duplicate_peer_count := hm_insert ip count (sm_duplicate_peer_count m)\<rparr>)
         | None \<Rightarrow> Ok m)"

definition unestablished_session_count :: "('s, 'e, 'r) session_ops \<Rightarrow> ('s, 'e, 'r, 'i) session_manager \<Rightarrow> nat" where
  "unestablished_session_count ops m = length (filter (\<lambda>(a, s). \<not> so_established ops s) (sm_sessions m))"

definition sessions_count :: "('s, 'e, 'r, 'i) session_manager \<Rightarrow> nat" where
  "sessions_count m = hm_len (sm_sessions m)"

definition established_sessions :: "('s, 'e, 'r) session_ops \<Rightarrow> ('s, 'e, 'r, 'i) session_manager \<Rightarrow> socket_addr list" where
  "established_sessions ops m = map fst (filter (\<lambda>(a, s). so_established ops s) (sm_sessions m))"

definition established_sessions_count :: "('s, 'e, 'r) session_ops \<Rightarrow> ('s, 'e, 'r, 'i) session_manager \<Rightarrow> nat" where
  "established_sessions_count ops m = length (filter (\<lambda>(a, s). so_established ops s) (sm_sessions m))"

section \<open>Polling\<close>

datatype received = Received bytes socket_addr | ReceiveError

text \<open>
  What a session makes of a payload. A session is created for an unknown address and kept when the limits allow it.
\<close>

definition packet_to_session ::
  "('s, 'e, 'r) session_ops \<Rightarrow> (nat \<Rightarrow> session_env) \<Rightarrow> instant \<Rightarrow> ('s, 'e, 'r, 'i) session_manager \<Rightarrow> nat \<Rightarrow>
     bytes \<Rightarrow> socket_addr \<Rightarrow> (error_kind, ('s, 'e, 'r, 'i) session_manager \<times> nat) res" where
  "packet_to_session ops envs time m unestablished payload address =
     (let env = envs (sm_draws m); m = m\<lparr>sm_draws := sm_draws m + 1\<rparr>
      in case hm_get (sm_sessions m) address of
           Some session \<Rightarrow>
             res_bind (so_process_packet ops env session payload time) (\<lambda>(session', actions).
               let m = m\<lparr>sm_sessions := hm_insert address session' (sm_sessions m)\<rparr>;
                   m = handle_actions m address actions
               in if \<not> so_established ops session \<and> so_established ops session'
                  then (if unestablished = 0 then Panic else Ok (m, unestablished - 1))
                  else Ok (m, unestablished))
         | None \<Rightarrow>
             res_bind (so_process_packet ops env (so_create ops (sm_config m) address time env) payload time) (\<lambda>(session, actions).
               let m = handle_actions m address actions
               in if unestablished < unat (sm_max_unestablished m) \<and> can_accept_duplicate m address
                  then let m = m\<lparr>sm_sessions := hm_insert address session (sm_sessions m)\<rparr>;
                           m = increment_duplicate_count m address
                       in Ok (m, unestablished + 1)
                  else Ok (m, unestablished)))"

text \<open>
  One received datagram: it fills the front of the receive buffer, which the interceptor may rewrite in place. The flag tells whether it was
  processed; a datagram the interceptor dropped skips the rest of the loop body.
\<close>

definition receive_one ::
  "('s, 'e, 'r) session_ops \<Rightarrow> 'i interceptor \<Rightarrow> (nat \<Rightarrow> session_env) \<Rightarrow> instant \<Rightarrow> ('s, 'e, 'r, 'i) session_manager \<Rightarrow> nat \<Rightarrow>
     bytes \<Rightarrow> socket_addr \<Rightarrow> (error_kind, ('s, 'e, 'r, 'i) session_manager \<times> nat \<times> bool) res" where
  "receive_one ops ic envs time m unestablished payload address =
     (let payload = take (length (sm_receive_buffer m)) payload;
          payload_len = length payload;
          m = m\<lparr>sm_receive_buffer := payload @ drop payload_len (sm_receive_buffer m)\<rparr>;
          (i, data, should_process) = ic_on_receive ic (sm_interceptor m) address (take payload_len (sm_receive_buffer m));
          m = m\<lparr>sm_interceptor := i, sm_receive_buffer := take payload_len data @ drop payload_len (sm_receive_buffer m)\<rparr>
      in if \<not> should_process then Ok (m, unestablished, False)
         else res_bind (packet_to_session ops envs time m unestablished (take payload_len (sm_receive_buffer m)) address)
                (\<lambda>(m, unestablished). Ok (m, unestablished, True)))"

fun receive_loop ::
  "('s, 'e, 'r) session_ops \<Rightarrow> 'i interceptor \<Rightarrow> (nat \<Rightarrow> session_env) \<Rightarrow> bool \<Rightarrow> instant \<Rightarrow> ('s, 'e, 'r, 'i) session_manager \<Rightarrow> nat \<Rightarrow>
     received list \<Rightarrow> (error_kind, ('s, 'e, 'r, 'i) session_manager \<times> nat) res" where
  "receive_loop ops ic envs blocking time m unestablished [] = Ok (m, unestablished)"
| "receive_loop ops ic envs blocking time m unestablished (ReceiveError # inputs) = Ok (m, unestablished)"
| "receive_loop ops ic envs blocking time m unestablished (Received payload address # inputs) =
     res_bind (receive_one ops ic envs time m unestablished payload address) (\<lambda>(m, unestablished, processed).
       if processed \<and> blocking then Ok (m, unestablished)
       else receive_loop ops ic envs blocking time m unestablished inputs)"

definition user_event ::
  "('s, 'e, 'r) session_ops \<Rightarrow> (nat \<Rightarrow> session_env) \<Rightarrow> instant \<Rightarrow> ('s, 'e, 'r, 'i) session_manager \<Rightarrow> nat \<Rightarrow> 'e \<Rightarrow>
     (error_kind, ('s, 'e, 'r, 'i) session_manager \<times> nat) res" where
  "user_event ops envs time m unestablished event =
     (let addr = so_address ops event;
          is_new_session = (hm_get (sm_sessions m) addr = None);
          can_create = (\<not> is_new_session \<or> can_accept_duplicate m addr)
      in if is_new_session \<and> \<not> can_create then Ok (m, unestablished)
         else
           let env = envs (sm_draws m); m = m\<lparr>sm_draws := sm_draws m + 1\<rparr>
           in case hm_get (sm_sessions m) addr of
                Some session \<Rightarrow>
                  res_bind (so_process_event ops session event time) (\<lambda>(session', actions).
                    let m = m\<lparr>sm_sessions := hm_insert addr session' (sm_sessions m)\<rparr>;
                        m = handle_actions m addr actions
                    in if \<not> so_established ops session \<and> so_established ops session'
                       then (if unestablished = 0 then Panic else Ok (m, unestablished - 1))
                       else Ok (m, unestablished))
              | None \<Rightarrow>
                  res_bind (so_process_event ops (so_create ops (sm_config m) addr time env) event time) (\<lambda>(session, actions).
                    let m = m\<lparr>sm_sessions := hm_insert addr session (sm_sessions m)\<rparr>;
                        m = handle_actions m addr actions;
                        m = increment_duplicate_count m addr
                    in Ok (m, unestablished)))"

fun user_loop ::
  "('s, 'e, 'r) session_ops \<Rightarrow> (nat \<Rightarrow> session_env) \<Rightarrow> instant \<Rightarrow> ('s, 'e, 'r, 'i) session_manager \<Rightarrow> nat \<Rightarrow> 'e list \<Rightarrow>
     (error_kind, ('s, 'e, 'r, 'i) session_manager \<times> nat) res" where
  "user_loop ops envs time m unestablished [] = Ok (m, unestablished)"
| "user_loop ops envs time m unestablished (event # events) =
     res_bind (user_event ops envs time m unestablished event) (\<lambda>(m, unestablished).
       user_loop ops envs time m unestablished events)"

fun update_loop ::
  "('s, 'e, 'r) session_ops \<Rightarrow> (nat \<Rightarrow> session_env) \<Rightarrow> instant \<Rightarrow> ('s, 'e, 'r, 'i) session_manager \<Rightarrow> socket_addr list \<Rightarrow>
     (error_kind, ('s, 'e, 'r, 'i) session_manager) res" where
  "update_loop ops envs time m [] = Ok m"
| "update_loop ops envs time m (addr # addrs) =
     (case hm_get (sm_sessions m) addr of
        Some session \<Rightarrow>
          (let env = envs (sm_draws m); m = m\<lparr>sm_draws := sm_draws m + 1\<rparr>
           in res_bind (so_update ops env session time) (\<lambda>(session, actions).
                let m = m\<lparr>sm_sessions := hm_insert addr session (sm_sessions m)\<rparr>
                in update_loop ops envs time (handle_actions m addr actions) addrs))
      | None \<Rightarrow> update_loop ops envs time m addrs)"

definition collect_drop ::
  "('s, 'e, 'r) session_ops \<Rightarrow> instant \<Rightarrow> ('s, 'e, 'r, 'i) session_manager \<times> socket_addr list \<Rightarrow> socket_addr \<times> 's \<Rightarrow>
     ('s, 'e, 'r, 'i) session_manager \<times> socket_addr list" where
  "collect_drop ops time = (\<lambda>(m, to_drop) (addr, session).
     (let (dropped, actions) = so_should_drop ops session time;
          m = handle_actions m addr actions
      in (m, if dropped then to_drop @ [addr] else to_drop)))"

fun remove_loop ::
  "('s, 'e, 'r, 'i) session_manager \<Rightarrow> socket_addr list \<Rightarrow> (error_kind, ('s, 'e, 'r, 'i) session_manager) res" where
  "remove_loop m [] = Ok m"
| "remove_loop m (addr # addrs) =
     (let m = m\<lparr>sm_sessions := hm_delete addr (sm_sessions m)\<rparr>
      in res_bind (decrement_duplicate_count m addr) (\<lambda>m. remove_loop m addrs))"

definition sm_manual_poll ::
  "('s, 'e, 'r) session_ops \<Rightarrow> 'i interceptor \<Rightarrow> (nat \<Rightarrow> session_env) \<Rightarrow> bool \<Rightarrow> ('s, 'e, 'r, 'i) session_manager \<Rightarrow>
     received list \<Rightarrow> instant \<Rightarrow> (error_kind, ('s, 'e, 'r, 'i) session_manager) res" where
  "sm_manual_poll ops ic envs blocking m inputs time =
     (let unestablished = unestablished_session_count ops m
      in res_bind (receive_loop ops ic envs blocking time m unestablished inputs) (\<lambda>(m, unestablished).
         res_bind (user_loop ops envs time (m\<lparr>sm_user_events := []\<rparr>) unestablished (sm_user_events m)) (\<lambda>(m, unestablished).
         res_bind (update_loop ops envs time m (hm_keys (sm_sessions m))) (\<lambda>m.
         let (m, to_drop) = foldl (collect_drop ops time) (m, []) (sm_sessions m)
         in res_bind (remove_loop m to_drop) (\<lambda>m. Ok (messenger_flush ic m))))))"

section \<open>The invariant\<close>

text \<open>
  The counters equal the number of sessions of each IP address and no counter is zero; a limit on the sessions per address is kept;
  every session is in its own invariant.
\<close>

definition sessions_from :: "('s, 'e, 'r, 'i) session_manager \<Rightarrow> ip_addr \<Rightarrow> socket_addr set" where
  "sessions_from m ip = {a \<in> dom (hm_get (sm_sessions m)). sa_ip a = ip}"

definition counts_inv :: "('s, 'e, 'r, 'i) session_manager \<Rightarrow> bool" where
  "counts_inv m \<longleftrightarrow> hm_wf (sm_sessions m) \<and> (\<forall>ip. count_of m ip = card (sessions_from m ip)) \<and>
     (\<forall>ip. hm_get (sm_duplicate_peer_count m) ip \<noteq> Some 0) \<and>
     sm_max_duplicate_peers m = max_duplicate_peers (sm_config m) \<and>
     (sm_max_duplicate_peers m \<noteq> 0 \<longrightarrow> (\<forall>ip. count_of m ip \<le> unat (sm_max_duplicate_peers m)))"

definition sm_inv :: "(config \<Rightarrow> bool) \<Rightarrow> ('s \<Rightarrow> bool) \<Rightarrow> ('s, 'e, 'r, 'i) session_manager \<Rightarrow> bool" where
  "sm_inv cfg_ok good m \<longleftrightarrow> counts_inv m \<and> cfg_ok (sm_config m) \<and> (\<forall>a s. hm_get (sm_sessions m) a = Some s \<longrightarrow> good s)"

lemma finite_from [simp]: "finite (sessions_from m ip)"
  by (simp add: sessions_from_def hm.dom_finite)

lemma sm_inv_cong:
  "sm_sessions m' = sm_sessions m \<Longrightarrow> sm_duplicate_peer_count m' = sm_duplicate_peer_count m \<Longrightarrow>
   sm_max_duplicate_peers m' = sm_max_duplicate_peers m \<Longrightarrow> sm_config m' = sm_config m \<Longrightarrow>
   sm_inv cfg_ok good m' = sm_inv cfg_ok good m"
  by (simp add: sm_inv_def counts_inv_def sessions_from_def count_of_def)

lemma sm_inv_new: "cfg_ok c \<Longrightarrow> sm_inv cfg_ok good (sm_new c i)"
  by (simp add: sm_inv_def counts_inv_def sm_new_def sessions_from_def count_of_def)

definition sends_of :: "socket_addr \<Rightarrow> 'r action list \<Rightarrow> (socket_addr \<times> bytes) list" where
  "sends_of addr acts = concat (map (\<lambda>a. case a of Send d \<Rightarrow> [(addr, d)] | Emit ev \<Rightarrow> []) acts)"

definition emits_of :: "'r action list \<Rightarrow> 'r list" where
  "emits_of acts = concat (map (\<lambda>a. case a of Send d \<Rightarrow> [] | Emit ev \<Rightarrow> [ev]) acts)"

lemma handle_actions_result:
  "handle_actions m addr acts = m\<lparr>sm_pending_sends := sm_pending_sends m @ sends_of addr acts,
     sm_pending_events := sm_pending_events m @ emits_of acts\<rparr>"
  unfolding handle_actions_def
proof (induction acts arbitrary: m)
  case (Cons a acts)
  then show ?case by (cases a) (simp_all add: sends_of_def emits_of_def)
qed (simp add: sends_of_def emits_of_def)

lemma handle_actions_frame [simp]:
  "sm_sessions (handle_actions m addr acts) = sm_sessions m"
  "sm_duplicate_peer_count (handle_actions m addr acts) = sm_duplicate_peer_count m"
  "sm_max_duplicate_peers (handle_actions m addr acts) = sm_max_duplicate_peers m"
  "sm_max_unestablished (handle_actions m addr acts) = sm_max_unestablished m"
  "sm_config (handle_actions m addr acts) = sm_config m"
  "sm_draws (handle_actions m addr acts) = sm_draws m"
  by (simp_all add: handle_actions_result)

lemma sm_inv_actions [simp]: "sm_inv cfg_ok good (handle_actions m addr acts) = sm_inv cfg_ok good m"
  by (rule sm_inv_cong) simp_all

lemma sm_inv_other [simp]:
  "sm_inv cfg_ok good (m\<lparr>sm_receive_buffer := b\<rparr>) = sm_inv cfg_ok good m"
  "sm_inv cfg_ok good (m\<lparr>sm_interceptor := i\<rparr>) = sm_inv cfg_ok good m"
  "sm_inv cfg_ok good (m\<lparr>sm_draws := n\<rparr>) = sm_inv cfg_ok good m"
  "sm_inv cfg_ok good (m\<lparr>sm_user_events := es\<rparr>) = sm_inv cfg_ok good m"
  by (rule sm_inv_cong; simp)+

text \<open>The three ways the table of sessions changes.\<close>

lemma sm_inv_replace:
  assumes "sm_inv cfg_ok good m" "hm_get (sm_sessions m) a = Some s" "good s'"
  shows "sm_inv cfg_ok good (m\<lparr>sm_sessions := hm_insert a s' (sm_sessions m)\<rparr>)"
proof -
  have "insert a (dom (hm_get (sm_sessions m))) = dom (hm_get (sm_sessions m))" using assms(2) by blast
  then show ?thesis
    using assms by (auto simp: sm_inv_def counts_inv_def sessions_from_def count_of_def split: if_splits)
qed

lemma count_increment:
  "count_of (increment_duplicate_count m a) ip = count_of m ip + (if ip = sa_ip a then 1 else 0)"
  by (simp add: count_of_def increment_duplicate_count_def Let_def hm_entry_def split: option.split)

lemma from_insert:
  "sessions_from (m\<lparr>sm_sessions := hm_insert a s (sm_sessions m)\<rparr>) ip =
     (if ip = sa_ip a then insert a (sessions_from m ip) else sessions_from m ip)"
  by (auto simp: sessions_from_def)

lemma sm_inv_add:
  assumes "sm_inv cfg_ok good m" "hm_get (sm_sessions m) a = None" "can_accept_duplicate m a" "good s"
  shows "sm_inv cfg_ok good (increment_duplicate_count (m\<lparr>sm_sessions := hm_insert a s (sm_sessions m)\<rparr>) a)"
proof -
  let ?m = "m\<lparr>sm_sessions := hm_insert a s (sm_sessions m)\<rparr>"
  let ?n = "increment_duplicate_count ?m a"
  have frame: "sm_sessions ?n = sm_sessions ?m" "sm_max_duplicate_peers ?n = sm_max_duplicate_peers m"
    "sm_config ?n = sm_config m" by (simp_all add: increment_duplicate_count_def Let_def)
  have new: "a \<notin> sessions_from m ip" for ip using assms(2) by (auto simp: sessions_from_def)
  have cnt: "count_of ?n ip = count_of m ip + (if ip = sa_ip a then 1 else 0)" for ip
    by (simp add: count_increment) (simp add: count_of_def)
  have "sessions_from ?n = sessions_from ?m" by (simp add: sessions_from_def frame fun_eq_iff)
  then have "count_of ?n ip = card (sessions_from ?n ip)" for ip
    using assms(1) card_insert_disjoint [OF finite_from new [of ip]]
    by (auto simp: cnt from_insert sm_inv_def counts_inv_def)
  moreover have "hm_get (sm_duplicate_peer_count ?n) ip \<noteq> Some 0" for ip
    using assms(1) by (simp add: increment_duplicate_count_def Let_def sm_inv_def counts_inv_def)
  moreover have "count_of ?n ip \<le> unat (sm_max_duplicate_peers m)" if "sm_max_duplicate_peers m \<noteq> 0" for ip
    using assms(1,3) that by (auto simp: cnt can_accept_duplicate_def sm_inv_def counts_inv_def)
  ultimately show ?thesis
    using assms(1,4) by (auto simp: sm_inv_def counts_inv_def frame split: if_splits)
qed

lemma from_delete:
  "sessions_from (m\<lparr>sm_sessions := hm_delete a (sm_sessions m)\<rparr>) ip = sessions_from m ip - {a}"
  by (auto simp: sessions_from_def)

lemma sm_inv_remove:
  assumes "sm_inv cfg_ok good m" "hm_get (sm_sessions m) a = Some s"
  defines "m' \<equiv> m\<lparr>sm_sessions := hm_delete a (sm_sessions m)\<rparr>"
  shows "\<exists>n. decrement_duplicate_count m' a = Ok n \<and> sm_inv cfg_ok good n \<and> sm_sessions n = sm_sessions m'"
proof -
  let ?ip = "sa_ip a"
  have a: "a \<in> sessions_from m ip \<longleftrightarrow> ip = ?ip" for ip using assms(2) by (auto simp: sessions_from_def)
  have cnt: "count_of m ip = card (sessions_from m ip)" for ip using assms(1) by (simp add: sm_inv_def counts_inv_def)
  have "0 < count_of m ?ip" using a [of ?ip] by (auto simp: cnt card_gt_0_iff)
  then obtain c where c: "hm_get (sm_duplicate_peer_count m) ?ip = Some c" "0 < c" "count_of m ?ip = c"
    by (auto simp: count_of_def split: option.splits)
  define counts where "counts = (if c = 1 then hm_delete ?ip (sm_duplicate_peer_count m)
      else hm_insert ?ip (c - 1) (sm_duplicate_peer_count m))"
  let ?n = "m'\<lparr>sm_duplicate_peer_count := counts\<rparr>"
  have dec: "decrement_duplicate_count m' a = Ok ?n"
    using c by (auto simp: decrement_duplicate_count_def m'_def counts_def Let_def)
  have get: "count_of ?n ip = (if ip = ?ip then c - 1 else count_of m ip)" for ip
    using c by (simp add: count_of_def counts_def)
  have "sessions_from ?n = sessions_from m'" by (simp add: sessions_from_def fun_eq_iff)
  then have "count_of ?n ip = card (sessions_from ?n ip)" for ip
    using a [of ip] c(3) cnt [of ip] get [of ip] card_Diff_singleton_if [of "sessions_from m ip" a]
    by (auto simp: m'_def from_delete)
  moreover have "hm_get counts ip \<noteq> Some 0" for ip
    using assms(1) c by (auto simp: counts_def sm_inv_def counts_inv_def)
  moreover have "count_of ?n ip \<le> count_of m ip" for ip using c by (simp add: get)
  then have "count_of ?n ip \<le> unat (sm_max_duplicate_peers m)" if "sm_max_duplicate_peers m \<noteq> 0" for ip
    using assms(1) that by (metis counts_inv_def le_trans sm_inv_def)
  ultimately have "sm_inv cfg_ok good ?n"
    using assms(1) by (auto simp: sm_inv_def counts_inv_def m'_def)
  then show ?thesis using dec by auto
qed

section \<open>Polling never panics\<close>

text \<open>The sessions that can still become established. Their number bounds the counter of the receive loop from below, so that it never underflows.\<close>

definition waiting_sessions ::
  "('s, 'e, 'r) session_ops \<Rightarrow> ('s \<Rightarrow> bool) \<Rightarrow> ('s, 'e, 'r, 'i) session_manager \<Rightarrow> socket_addr set" where
  "waiting_sessions ops dying m =
     {a. \<exists>s. hm_get (sm_sessions m) a = Some s \<and> \<not> so_established ops s \<and> \<not> dying s}"

lemma finite_waiting [simp]: "finite (waiting_sessions ops dying m)"
  by (rule finite_subset [OF _ hm.dom_finite [of "sm_sessions m"]]) (auto simp: waiting_sessions_def)

lemma waiting_cong: "sm_sessions m' = sm_sessions m \<Longrightarrow> waiting_sessions ops dying m' = waiting_sessions ops dying m"
  by (simp add: waiting_sessions_def)

lemma waiting_other [simp]:
  "waiting_sessions ops dying (m\<lparr>sm_interceptor := i\<rparr>) = waiting_sessions ops dying m"
  "waiting_sessions ops dying (m\<lparr>sm_receive_buffer := b\<rparr>) = waiting_sessions ops dying m"
  by (rule waiting_cong; simp)+

lemma waiting_counted:
  "hm_wf (sm_sessions m) \<Longrightarrow> card (waiting_sessions ops dying m) \<le> unestablished_session_count ops m"
proof -
  assume wf: "hm_wf (sm_sessions m)"
  let ?f = "filter (\<lambda>(a, s). \<not> so_established ops s) (sm_sessions m)"
  have "distinct (map fst ?f)" using wf by (auto simp: hm_wf_def distinct_map_filter)
  then have "card (set (map fst ?f)) = length ?f" by (metis distinct_card length_map)
  moreover have "waiting_sessions ops dying m \<subseteq> set (map fst ?f)"
    by (force simp: waiting_sessions_def hm_get_def dest: map_of_SomeD)
  ultimately show ?thesis
    unfolding unestablished_session_count_def by (metis card_mono List.finite_set)
qed

lemma waiting_replace:
  assumes "hm_get (sm_sessions m) a = Some s" "dying s \<longrightarrow> dying s'"
    "so_established ops s \<longrightarrow> so_established ops s' \<or> dying s'" "\<forall>s. dying s \<longrightarrow> \<not> so_established ops s"
    "card (waiting_sessions ops dying m) \<le> n"
  defines "m' \<equiv> m\<lparr>sm_sessions := hm_insert a s' (sm_sessions m)\<rparr>"
  shows "if \<not> so_established ops s \<and> so_established ops s'
    then 0 < n \<and> card (waiting_sessions ops dying m') \<le> n - 1 else card (waiting_sessions ops dying m') \<le> n"
proof -
  let ?w = "waiting_sessions ops dying"
  show ?thesis
  proof (cases "\<not> so_established ops s \<and> so_established ops s'")
    case True
    then have a: "a \<in> ?w m" and sub: "?w m' \<subseteq> ?w m - {a}"
      using assms by (auto simp: waiting_sessions_def m'_def split: if_splits)
    have "0 < card (?w m)" using a by (auto simp: card_gt_0_iff)
    moreover have "card (?w m') \<le> card (?w m) - 1" using card_mono [OF _ sub] a by simp
    ultimately show ?thesis using True assms(5) by simp
  next
    case False
    then have "?w m' \<subseteq> ?w m" using assms by (auto simp: waiting_sessions_def m'_def split: if_splits)
    then have "card (?w m') \<le> card (?w m)" by (simp add: card_mono)
    then show ?thesis using False assms(5) by auto
  qed
qed

lemma waiting_insert: "card (waiting_sessions ops dying (m\<lparr>sm_sessions := hm_insert a s (sm_sessions m)\<rparr>))
    \<le> Suc (card (waiting_sessions ops dying m))"
proof -
  have "waiting_sessions ops dying (m\<lparr>sm_sessions := hm_insert a s (sm_sessions m)\<rparr>)
      \<subseteq> insert a (waiting_sessions ops dying m)"
    by (auto simp: waiting_sessions_def split: if_splits)
  then have "card (waiting_sessions ops dying (m\<lparr>sm_sessions := hm_insert a s (sm_sessions m)\<rparr>))
      \<le> card (insert a (waiting_sessions ops dying m))" by (intro card_mono) simp_all
  also have "\<dots> \<le> Suc (card (waiting_sessions ops dying m))" by (rule card_insert_le_m1) simp_all
  finally show ?thesis .
qed

section \<open>Dropping sessions\<close>

definition drop_list :: "('s, 'e, 'r) session_ops \<Rightarrow> instant \<Rightarrow> (socket_addr, 's) hmap \<Rightarrow> socket_addr list" where
  "drop_list ops t sessions = map fst (filter (\<lambda>(a, s). fst (so_should_drop ops s t)) sessions)"

lemma collect_drop_result:
  "snd (foldl (collect_drop ops t) (m, ds) xs) = ds @ drop_list ops t xs"
  "sm_inv cfg_ok good (fst (foldl (collect_drop ops t) (m, ds) xs)) = sm_inv cfg_ok good m"
  "sm_sessions (fst (foldl (collect_drop ops t) (m, ds) xs)) = sm_sessions m"
  by (induction xs arbitrary: m ds) (auto simp: collect_drop_def drop_list_def Let_def split: prod.splits)

lemma drop_list_dropped:
  assumes "hm_wf sessions"
  shows "distinct (drop_list ops t sessions)"
    and "a \<in> set (drop_list ops t sessions) \<longleftrightarrow> (\<exists>s. hm_get sessions a = Some s \<and> fst (so_should_drop ops s t))"
proof -
  show "distinct (drop_list ops t sessions)"
    using assms unfolding drop_list_def hm_wf_def by (rule distinct_map_filter)
  have "hm_get sessions a = Some s \<longleftrightarrow> (a, s) \<in> set sessions" for s
    using assms by (simp add: hm_get_def hm_wf_def)
  then show "a \<in> set (drop_list ops t sessions) \<longleftrightarrow> (\<exists>s. hm_get sessions a = Some s \<and> fst (so_should_drop ops s t))"
    by (force simp: drop_list_def)
qed

lemma remove_loop_total:
  assumes "sm_inv cfg_ok good m" "distinct ds" "\<forall>a \<in> set ds. hm_get (sm_sessions m) a \<noteq> None"
  shows "\<exists>m'. remove_loop m ds = Ok m' \<and> sm_inv cfg_ok good m' \<and>
    (\<forall>a. hm_get (sm_sessions m') a = (if a \<in> set ds then None else hm_get (sm_sessions m) a))"
  using assms
proof (induction ds arbitrary: m)
  case (Cons d ds)
  let ?m = "m\<lparr>sm_sessions := hm_delete d (sm_sessions m)\<rparr>"
  obtain s where "hm_get (sm_sessions m) d = Some s" using Cons.prems(3) by auto
  from sm_inv_remove [OF Cons.prems(1) this] obtain n where
    n: "decrement_duplicate_count ?m d = Ok n" "sm_inv cfg_ok good n" "sm_sessions n = sm_sessions ?m" by blast
  have "\<forall>a \<in> set ds. hm_get (sm_sessions n) a \<noteq> None" using Cons.prems(2,3) n(3) by auto
  from Cons.IH [OF n(2) _ this] Cons.prems(2) obtain m' where "remove_loop n ds = Ok m'" "sm_inv cfg_ok good m'"
    "\<forall>a. hm_get (sm_sessions m') a = (if a \<in> set ds then None else hm_get (sm_sessions n) a)" by auto
  then show ?case using n by (simp add: Let_def)
qed simp

section \<open>Flushing\<close>

lemma flush_send_frame [simp]:
  "sm_sessions (foldl (flush_send ic) m xs) = sm_sessions m"
  "sm_duplicate_peer_count (foldl (flush_send ic) m xs) = sm_duplicate_peer_count m"
  "sm_max_duplicate_peers (foldl (flush_send ic) m xs) = sm_max_duplicate_peers m"
  "sm_config (foldl (flush_send ic) m xs) = sm_config m"
  "sm_pending_sends (foldl (flush_send ic) m xs) = sm_pending_sends m"
  "sm_pending_events (foldl (flush_send ic) m xs) = sm_pending_events m"
  "sm_events (foldl (flush_send ic) m xs) = sm_events m"
  by (induction xs arbitrary: m) (simp_all add: flush_send_def Let_def split_beta)

lemma messenger_flush_frame [simp]:
  "sm_sessions (messenger_flush ic m) = sm_sessions m"
  "sm_inv cfg_ok good (messenger_flush ic m) = sm_inv cfg_ok good m"
proof -
  show "sm_sessions (messenger_flush ic m) = sm_sessions m" by (simp add: messenger_flush_def Let_def)
  show "sm_inv cfg_ok good (messenger_flush ic m) = sm_inv cfg_ok good m"
    by (rule sm_inv_cong) (simp_all add: messenger_flush_def Let_def)
qed

context session_contract
begin

lemma packet_to_session_total:
  assumes "sm_inv cfg_ok good m" "card (waiting_sessions ops dying m) \<le> n"
  shows "\<exists>m' n'. packet_to_session ops envs t m n d addr = Ok (m', n') \<and> sm_inv cfg_ok good m' \<and>
    card (waiting_sessions ops dying m') \<le> n'"
proof (cases "hm_get (sm_sessions m) addr")
  case (Some s)
  let ?m = "m\<lparr>sm_draws := sm_draws m + 1\<rparr>"
  have s: "good s" using assms(1) Some by (auto simp: sm_inv_def)
  then obtain s' acts where p: "so_process_packet ops (envs (sm_draws m)) s d t = Ok (s', acts)" using packet_total by blast
  let ?m' = "?m\<lparr>sm_sessions := hm_insert addr s' (sm_sessions ?m)\<rparr>"
  have "sm_inv cfg_ok good ?m'" using sm_inv_replace [of cfg_ok good ?m addr s s'] assms(1) Some packet_inv [OF s p] by simp
  moreover have "card (waiting_sessions ops dying ?m) \<le> n" using assms(2) waiting_cong [of ?m m ops dying] by simp
  then have "if \<not> so_established ops s \<and> so_established ops s'
      then 0 < n \<and> card (waiting_sessions ops dying ?m') \<le> n - 1 else card (waiting_sessions ops dying ?m') \<le> n"
    using waiting_replace [of ?m addr s dying s' ops n] Some packet_dying [OF p] packet_established [OF p]
      dying_not_established by simp
  ultimately show ?thesis
    using waiting_cong [of "handle_actions ?m' addr acts" ?m' ops dying]
    by (auto simp: packet_to_session_def Let_def Some p)
next
  case None
  let ?m = "m\<lparr>sm_draws := sm_draws m + 1\<rparr>" and ?s = "so_create ops (sm_config m) addr t (envs (sm_draws m))"
  have s: "good ?s" using assms(1) by (intro create_inv) (simp add: sm_inv_def)
  then obtain s' acts where p: "so_process_packet ops (envs (sm_draws m)) ?s d t = Ok (s', acts)" using packet_total by blast
  let ?h = "handle_actions ?m addr acts"
  let ?a = "increment_duplicate_count (?h\<lparr>sm_sessions := hm_insert addr s' (sm_sessions m)\<rparr>) addr"
  have w: "waiting_sessions ops dying ?h = waiting_sessions ops dying m" by (rule waiting_cong) simp
  have a: "sm_inv cfg_ok good ?a" if "can_accept_duplicate ?h addr"
    using sm_inv_add [of cfg_ok good ?h addr s'] assms(1) None that packet_inv [OF s p] by simp
  have "waiting_sessions ops dying ?a = waiting_sessions ops dying (?h\<lparr>sm_sessions := hm_insert addr s' (sm_sessions m)\<rparr>)"
    by (rule waiting_cong) (simp add: increment_duplicate_count_def Let_def)
  then have "card (waiting_sessions ops dying ?a) \<le> Suc n"
    using waiting_insert [where ops = ops and dying = dying and m = ?h and a = addr and s = s'] w assms(2) by simp
  then show ?thesis using a assms w by (auto simp: packet_to_session_def Let_def None p)
qed

lemma receive_one_total:
  assumes "sm_inv cfg_ok good m" "card (waiting_sessions ops dying m) \<le> n"
  shows "\<exists>m' n' b. receive_one ops ic envs t m n d addr = Ok (m', n', b) \<and> sm_inv cfg_ok good m' \<and>
    card (waiting_sessions ops dying m') \<le> n'"
proof -
  have p: "\<exists>m'' n'. (\<exists>b. res_bind (packet_to_session ops envs t m' n x addr) (\<lambda>(m, n). Ok (m, n, True)) = Ok (m'', n', b)) \<and>
      sm_inv cfg_ok good m'' \<and> card (waiting_sessions ops dying m'') \<le> n'"
    if "sm_inv cfg_ok good m'" "card (waiting_sessions ops dying m') \<le> n" for m' x
    using packet_to_session_total [OF that, of envs t x addr] by force
  show ?thesis using assms by (auto simp: receive_one_def Let_def split: prod.split intro!: p)
qed

lemma receive_loop_total:
  assumes "sm_inv cfg_ok good m" "card (waiting_sessions ops dying m) \<le> n"
  shows "\<exists>m' n'. receive_loop ops ic envs bl t m n inputs = Ok (m', n') \<and> sm_inv cfg_ok good m' \<and>
    card (waiting_sessions ops dying m') \<le> n'"
  using assms
proof (induction inputs arbitrary: m n)
  case (Cons x inputs)
  show ?case
  proof (cases x)
    case (Received d addr)
    obtain m' n' b where r: "receive_one ops ic envs t m n d addr = Ok (m', n', b)" "sm_inv cfg_ok good m'"
      "card (waiting_sessions ops dying m') \<le> n'" using receive_one_total [OF Cons.prems] by blast
    then show ?thesis using Cons.IH [OF r(2,3)] by (auto simp: Received)
  qed (use Cons.prems in simp)
qed simp

lemma user_event_total:
  assumes "sm_inv cfg_ok good m"
  shows "\<exists>m'. user_event ops envs t m n ev = Ok (m', n) \<and> sm_inv cfg_ok good m'"
proof (cases "hm_get (sm_sessions m) (so_address ops ev)")
  case (Some s)
  let ?m = "m\<lparr>sm_draws := sm_draws m + 1\<rparr>"
  have s: "good s" using assms Some by (auto simp: sm_inv_def)
  then obtain s' acts where p: "so_process_event ops s ev t = Ok (s', acts)" using event_total by blast
  have "sm_inv cfg_ok good (?m\<lparr>sm_sessions := hm_insert (so_address ops ev) s' (sm_sessions ?m)\<rparr>)"
    using sm_inv_replace [of cfg_ok good ?m "so_address ops ev" s s'] assms Some event_inv [OF s p] by simp
  then show ?thesis using event_established [OF p] by (auto simp: user_event_def Let_def Some p)
next
  case None
  let ?m = "m\<lparr>sm_draws := sm_draws m + 1\<rparr>" and ?a = "so_address ops ev"
  let ?s = "so_create ops (sm_config m) ?a t (envs (sm_draws m))"
  have s: "good ?s" using assms by (intro create_inv) (simp add: sm_inv_def)
  then obtain s' acts where p: "so_process_event ops ?s ev t = Ok (s', acts)" using event_total by blast
  let ?i = "?m\<lparr>sm_sessions := hm_insert ?a s' (sm_sessions ?m)\<rparr>"
  have "sm_inv cfg_ok good (increment_duplicate_count (handle_actions ?i ?a acts) ?a)" if "can_accept_duplicate m ?a"
  proof -
    have eq: "handle_actions ?i ?a acts = (handle_actions ?m ?a acts)\<lparr>sm_sessions :=
        hm_insert ?a s' (sm_sessions (handle_actions ?m ?a acts))\<rparr>"
      by (simp add: handle_actions_result)
    have "can_accept_duplicate (handle_actions ?m ?a acts) ?a"
      using that by (auto simp: can_accept_duplicate_def count_of_def split: if_splits)
    then show ?thesis unfolding eq by (intro sm_inv_add) (use assms None event_inv [OF s p] in simp_all)
  qed
  then show ?thesis using assms by (auto simp: user_event_def Let_def None p)
qed

lemma user_loop_total:
  "sm_inv cfg_ok good m \<Longrightarrow> \<exists>m'. user_loop ops envs t m n evs = Ok (m', n) \<and> sm_inv cfg_ok good m'"
proof (induction evs arbitrary: m)
  case (Cons ev evs)
  then show ?case using user_event_total [OF Cons.prems, of envs t n ev] by force
qed simp

lemma update_loop_total:
  assumes "\<forall>n. env_ok (envs n)" "sm_inv cfg_ok good m"
  shows "\<exists>m'. update_loop ops envs t m addrs = Ok m' \<and> sm_inv cfg_ok good m' \<and>
    dom (hm_get (sm_sessions m')) = dom (hm_get (sm_sessions m))"
  using assms(2)
proof (induction addrs arbitrary: m)
  case (Cons a addrs)
  show ?case
  proof (cases "hm_get (sm_sessions m) a")
    case (Some s)
    let ?m = "m\<lparr>sm_draws := sm_draws m + 1\<rparr>"
    have s: "good s" using Cons.prems Some by (auto simp: sm_inv_def)
    then obtain s' acts where p: "so_update ops (envs (sm_draws m)) s t = Ok (s', acts)" using update_total by blast
    let ?i = "handle_actions (?m\<lparr>sm_sessions := hm_insert a s' (sm_sessions ?m)\<rparr>) a acts"
    have "good s'" using update_inv [OF s _ p] assms(1) by blast
    then have "sm_inv cfg_ok good ?i" using sm_inv_replace [of cfg_ok good ?m a s s'] Cons.prems Some by simp
    from Cons.IH [OF this] obtain m' where m': "update_loop ops envs t ?i addrs = Ok m'" "sm_inv cfg_ok good m'"
      and dom: "dom (hm_get (sm_sessions m')) = dom (hm_get (sm_sessions ?i))" by blast
    note dom
    also have "\<dots> = dom (hm_get (sm_sessions m))" using Some by (auto split: if_splits)
    finally show ?thesis using m' Some by (simp add: Let_def p)
  qed (use Cons in simp)
qed simp

lemma poll_total:
  assumes "\<forall>n. env_ok (envs n)" "sm_inv cfg_ok good m"
  shows "\<exists>m'. sm_manual_poll ops ic envs bl m inputs t = Ok m' \<and> sm_inv cfg_ok good m' \<and>
    (\<forall>a s. hm_get (sm_sessions m') a = Some s \<longrightarrow> \<not> fst (so_should_drop ops s t))"
proof -
  have "card (waiting_sessions ops dying m) \<le> unestablished_session_count ops m"
    using assms(2) by (intro waiting_counted) (simp add: sm_inv_def counts_inv_def)
  then obtain m1 n1 where m1: "receive_loop ops ic envs bl t m (unestablished_session_count ops m) inputs = Ok (m1, n1)"
    "sm_inv cfg_ok good m1" using receive_loop_total [OF assms(2)] by blast
  obtain m2 where m2: "user_loop ops envs t (m1\<lparr>sm_user_events := []\<rparr>) n1 (sm_user_events m1) = Ok (m2, n1)"
    "sm_inv cfg_ok good m2" using user_loop_total [of "m1\<lparr>sm_user_events := []\<rparr>" envs t n1 "sm_user_events m1"] m1(2) by auto
  obtain m3 where m3: "update_loop ops envs t m2 (hm_keys (sm_sessions m2)) = Ok m3" "sm_inv cfg_ok good m3"
    using update_loop_total [OF assms(1) m2(2)] by blast
  obtain m4 drops where m4: "foldl (collect_drop ops t) (m3, []) (sm_sessions m3) = (m4, drops)" by fastforce
  from collect_drop_result [where ops = ops and t = t and m = m3 and ds = "[]" and xs = "sm_sessions m3"] m4 have d: "drops = drop_list ops t (sm_sessions m3)"
    and m4': "sm_inv cfg_ok good m4" "sm_sessions m4 = sm_sessions m3" using m3(2) by simp_all
  have "hm_wf (sm_sessions m3)" using m3(2) by (simp add: sm_inv_def counts_inv_def)
  note ds = drop_list_dropped [OF this, where ops = ops and t = t, folded d]
  obtain m5 where m5: "remove_loop m4 drops = Ok m5" "sm_inv cfg_ok good m5"
    "\<forall>a. hm_get (sm_sessions m5) a = (if a \<in> set drops then None else hm_get (sm_sessions m4) a)"
    using remove_loop_total [OF m4'(1) ds(1)] ds(2) m4'(2) by auto
  have "\<not> fst (so_should_drop ops s t)" if "hm_get (sm_sessions m5) a = Some s" for a s
    using that m5(3) ds(2) m4'(2) by (auto split: if_splits)
  then show ?thesis using m5(2) by (simp add: sm_manual_poll_def Let_def m1 m2 m3 m4 m5(1))
qed

end

section \<open>The limit on unestablished sessions\<close>

lemma packet_to_session_limit:
  assumes "packet_to_session ops envs t m n d addr = Ok (m', n')"
  shows "sm_max_unestablished m' = sm_max_unestablished m \<and> n' \<le> max n (unat (sm_max_unestablished m))"
  using assms
  by (cases "hm_get (sm_sessions m) addr")
     (auto simp: packet_to_session_def Let_def res_bind_Ok_iff increment_duplicate_count_def split: if_splits)

lemma receive_one_limit:
  assumes "receive_one ops ic envs t m n d addr = Ok (m', n', b)"
  shows "sm_max_unestablished m' = sm_max_unestablished m \<and> n' \<le> max n (unat (sm_max_unestablished m))"
  using assms
  by (auto simp: receive_one_def Let_def res_bind_Ok_iff split: prod.splits if_splits dest!: packet_to_session_limit)

lemma receive_loop_limit:
  assumes "receive_loop ops ic envs bl t m n inputs = Ok (m', n')"
  shows "n' \<le> max n (unat (sm_max_unestablished m))"
  using assms
proof (induction inputs arbitrary: m n)
  case (Cons x inputs)
  show ?case
  proof (cases x)
    case (Received d addr)
    with Cons.prems obtain m1 n1 b where r: "receive_one ops ic envs t m n d addr = Ok (m1, n1, b)"
      and k: "(if b \<and> bl then Ok (m1, n1) else receive_loop ops ic envs bl t m1 n1 inputs) = Ok (m', n')"
      by (auto simp: res_bind_Ok_iff)
    have lim: "sm_max_unestablished m1 = sm_max_unestablished m" "n1 \<le> max n (unat (sm_max_unestablished m))"
      using receive_one_limit [OF r] by simp_all
    show ?thesis
    proof (cases "b \<and> bl")
      case False
      then have "n' \<le> max n1 (unat (sm_max_unestablished m1))" using Cons.IH [of m1 n1] k by (auto split: if_splits)
      then show ?thesis using lim by simp
    qed (use k lim in simp)
  qed (use Cons.prems in simp)
qed simp

subsection \<open>The rest of a poll\<close>

lemma poll_parts:
  assumes "sm_manual_poll ops ic envs bl m inputs t = Ok m'"
  obtains m1 n1 m2 n2 m3 m4 drops m5 where
    "receive_loop ops ic envs bl t m (unestablished_session_count ops m) inputs = Ok (m1, n1)"
    "user_loop ops envs t (m1\<lparr>sm_user_events := []\<rparr>) n1 (sm_user_events m1) = Ok (m2, n2)"
    "update_loop ops envs t m2 (hm_keys (sm_sessions m2)) = Ok m3"
    "foldl (collect_drop ops t) (m3, []) (sm_sessions m3) = (m4, drops)"
    "remove_loop m4 drops = Ok m5" "m' = messenger_flush ic m5"
  using assms that by (auto simp: sm_manual_poll_def Let_def res_bind_Ok_iff split_beta) (metis prod.collapse)

lemma receive_one_user_events:
  "receive_one ops ic envs t m n d addr = Ok (m', n', b) \<Longrightarrow> sm_user_events m' = sm_user_events m"
  by (auto simp: receive_one_def packet_to_session_def handle_actions_result increment_duplicate_count_def Let_def res_bind_Ok_iff
      split: prod.splits if_splits option.splits)

lemma receive_loop_user_events:
  "receive_loop ops ic envs bl t m n inputs = Ok (m', n') \<Longrightarrow> sm_user_events m' = sm_user_events m"
proof (induction inputs arbitrary: m n)
  case (Cons x inputs)
  then show ?case by (cases x) (fastforce simp: res_bind_Ok_iff split: if_splits dest: receive_one_user_events)+
qed simp

lemma decrement_frame:
  "decrement_duplicate_count m a = Ok m' \<Longrightarrow> sm_sessions m' = sm_sessions m \<and> sm_pending_sends m' = sm_pending_sends m \<and>
     sm_pending_events m' = sm_pending_events m \<and> sm_sent m' = sm_sent m \<and> sm_events m' = sm_events m"
  by (auto simp: decrement_duplicate_count_def Let_def split: option.splits if_splits)

lemma remove_loop_frame:
  "remove_loop m ds = Ok m' \<Longrightarrow> (\<forall>a s. hm_get (sm_sessions m') a = Some s \<longrightarrow> hm_get (sm_sessions m) a = Some s) \<and>
     sm_pending_sends m' = sm_pending_sends m \<and> sm_pending_events m' = sm_pending_events m \<and> sm_sent m' = sm_sent m \<and>
     sm_events m' = sm_events m"
proof (induction ds arbitrary: m)
  case (Cons d ds)
  then obtain n where "decrement_duplicate_count (m\<lparr>sm_sessions := hm_delete d (sm_sessions m)\<rparr>) d = Ok n" "remove_loop n ds = Ok m'"
    by (auto simp: Let_def res_bind_Ok_iff)
  then show ?case using Cons.IH [of n] decrement_frame [of _ d n] by (fastforce split: if_splits)
qed simp

lemma waiting_subset:
  "\<forall>a s. hm_get (sm_sessions m') a = Some s \<longrightarrow> hm_get (sm_sessions m) a = Some s \<Longrightarrow>
     waiting_sessions ops dying m' \<subseteq> waiting_sessions ops dying m"
  by (auto simp: waiting_sessions_def)

lemma user_event_waiting:
  "user_event ops envs t m n ev = Ok (m', n') \<Longrightarrow>
     waiting_sessions ops dying m' \<subseteq> insert (so_address ops ev) (waiting_sessions ops dying m)"
  by (auto simp: user_event_def waiting_sessions_def increment_duplicate_count_def Let_def res_bind_Ok_iff
      split: if_splits option.splits)

lemma user_loop_waiting:
  "user_loop ops envs t m n evs = Ok (m', n') \<Longrightarrow>
     waiting_sessions ops dying m' \<subseteq> so_address ops ` set evs \<union> waiting_sessions ops dying m"
proof (induction evs arbitrary: m n)
  case (Cons ev evs)
  then obtain m1 n1 where "user_event ops envs t m n ev = Ok (m1, n1)" "user_loop ops envs t m1 n1 evs = Ok (m', n')"
    by (auto simp: res_bind_Ok_iff)
  then show ?case using Cons.IH [of m1 n1] user_event_waiting [of ops envs t m n ev m1 n1 dying] by auto
qed simp

context session_contract
begin

lemma update_loop_waiting:
  assumes "\<forall>n. env_ok (envs n)" "update_loop ops envs t m addrs = Ok m'"
  shows "waiting_sessions ops dying m' \<subseteq> waiting_sessions ops dying m"
  using assms(2)
proof (induction addrs arbitrary: m)
  case (Cons a addrs)
  show ?case
  proof (cases "hm_get (sm_sessions m) a")
    case (Some s)
    let ?m = "m\<lparr>sm_draws := sm_draws m + 1\<rparr>"
    obtain s' acts where p: "so_update ops (envs (sm_draws m)) s t = Ok (s', acts)"
      and k: "update_loop ops envs t (handle_actions (?m\<lparr>sm_sessions := hm_insert a s' (sm_sessions m)\<rparr>) a acts) addrs = Ok m'"
      using Cons.prems Some by (auto simp: Let_def res_bind_Ok_iff)
    have "waiting_sessions ops dying (handle_actions (?m\<lparr>sm_sessions := hm_insert a s' (sm_sessions m)\<rparr>) a acts)
        \<subseteq> waiting_sessions ops dying m"
      using update_dying [OF _ p] update_established [OF _ p] assms(1) Some by (auto simp: waiting_sessions_def split: if_splits)
    then show ?thesis using Cons.IH [OF k] by blast
  qed (use Cons in simp)
qed simp

lemma poll_limit:
  assumes "\<forall>n. env_ok (envs n)" "sm_inv cfg_ok good m"
  shows "\<exists>m'. sm_manual_poll ops ic envs bl m inputs t = Ok m' \<and>
    card (waiting_sessions ops dying m' - so_address ops ` set (sm_user_events m)) \<le>
      max (unestablished_session_count ops m) (unat (sm_max_unestablished m))"
proof -
  obtain m' where m': "sm_manual_poll ops ic envs bl m inputs t = Ok m'" using poll_total [OF assms] by blast
  then obtain m1 n1 m2 n2 m3 m4 ds m5 where
    m1: "receive_loop ops ic envs bl t m (unestablished_session_count ops m) inputs = Ok (m1, n1)"
    and m2: "user_loop ops envs t (m1\<lparr>sm_user_events := []\<rparr>) n1 (sm_user_events m1) = Ok (m2, n2)"
    and m3: "update_loop ops envs t m2 (hm_keys (sm_sessions m2)) = Ok m3"
    and m4: "foldl (collect_drop ops t) (m3, []) (sm_sessions m3) = (m4, ds)"
    and m5: "remove_loop m4 ds = Ok m5" "m' = messenger_flush ic m5" by (rule poll_parts)
  let ?w = "waiting_sessions ops dying"
  have "card (?w m) \<le> unestablished_session_count ops m"
    using assms(2) by (intro waiting_counted) (simp add: sm_inv_def counts_inv_def)
  from receive_loop_total [OF assms(2) this, of ic envs bl t inputs] m1 have "card (?w m1) \<le> n1" by auto
  then have c1: "card (?w m1) \<le> max (unestablished_session_count ops m) (unat (sm_max_unestablished m))"
    using receive_loop_limit [OF m1] by simp
  have "?w m' = ?w m5" unfolding m5(2) by (rule waiting_cong) simp
  also have "\<dots> \<subseteq> ?w m4" using remove_loop_frame [OF m5(1)] by (intro waiting_subset) simp
  also have "?w m4 = ?w m3" using collect_drop_result(3) [of ops t m3 "[]" "sm_sessions m3"] m4 by (intro waiting_cong) simp
  also have "\<dots> \<subseteq> ?w m2" by (rule update_loop_waiting [OF assms(1) m3])
  also have "\<dots> \<subseteq> so_address ops ` set (sm_user_events m1) \<union> ?w (m1\<lparr>sm_user_events := []\<rparr>)" by (rule user_loop_waiting [OF m2])
  also have "\<dots> = so_address ops ` set (sm_user_events m) \<union> ?w m1"
    using receive_loop_user_events [OF m1] waiting_cong [of "m1\<lparr>sm_user_events := []\<rparr>" m1 ops dying] by simp
  finally have "?w m' - so_address ops ` set (sm_user_events m) \<subseteq> ?w m1" by blast
  then have "card (?w m' - so_address ops ` set (sm_user_events m)) \<le> card (?w m1)" by (intro card_mono) simp_all
  then show ?thesis using m' c1 by auto
qed

end

subsection \<open>What a poll does for a session that is not kept\<close>

text \<open>From \<open>m\<close> to \<open>m'\<close> no session of address \<open>a\<close> came up and nothing was queued for it; events were only added.\<close>

definition leaves_out :: "socket_addr \<Rightarrow> ('s, 'e, 'r, 'i) session_manager \<Rightarrow> ('s, 'e, 'r, 'i) session_manager \<Rightarrow> bool" where
  "leaves_out a m m' \<longleftrightarrow> (hm_get (sm_sessions m) a = None \<longrightarrow> hm_get (sm_sessions m') a = None) \<and>
     (\<exists>xs. sm_pending_sends m' = sm_pending_sends m @ xs \<and> a \<notin> fst ` set xs) \<and>
     (\<exists>es. sm_pending_events m' = sm_pending_events m @ es) \<and> sm_sent m' = sm_sent m \<and> sm_events m' = sm_events m"

lemma leaves_out_refl [simp]: "leaves_out a m m"
  by (simp add: leaves_out_def)

lemma leaves_out_trans: "leaves_out a m1 m2 \<Longrightarrow> leaves_out a m2 m3 \<Longrightarrow> leaves_out a m1 m3"
  by (fastforce simp: leaves_out_def)

lemma sends_of_addr: "fst ` set (sends_of b acts) \<subseteq> {b}"
  by (auto simp: sends_of_def split: action.splits)

lemma leaves_out_session:
  assumes "a \<noteq> b"
  shows "leaves_out a m (handle_actions (m\<lparr>sm_draws := k, sm_sessions := hm_insert b s (sm_sessions m)\<rparr>) b acts)"
    "leaves_out a m (increment_duplicate_count (handle_actions (m\<lparr>sm_draws := k, sm_sessions := hm_insert b s (sm_sessions m)\<rparr>) b acts) b)"
    "leaves_out a m (handle_actions m b acts)"
  using assms sends_of_addr [of b acts] by (auto simp: leaves_out_def handle_actions_result increment_duplicate_count_def Let_def)

lemma user_loop_leaves_out:
  "user_loop ops envs t m n evs = Ok (m', n') \<Longrightarrow> a \<notin> so_address ops ` set evs \<Longrightarrow> leaves_out a m m'"
proof (induction evs arbitrary: m n)
  case (Cons ev evs)
  then obtain m1 n1 where e: "user_event ops envs t m n ev = Ok (m1, n1)" and k: "user_loop ops envs t m1 n1 evs = Ok (m', n')"
    by (auto simp: res_bind_Ok_iff)
  have "a \<noteq> so_address ops ev" using Cons.prems(2) by auto
  note l = leaves_out_session(1,2) [OF this, where m = m and k = "sm_draws m + 1"]
  from e have "leaves_out a m m1"
    by (auto simp: user_event_def Let_def res_bind_Ok_iff l [simplified] split: if_splits option.splits)
  then show ?case using Cons.IH [OF k] Cons.prems(2) by (auto intro: leaves_out_trans)
qed simp

lemma update_loop_leaves_out:
  "update_loop ops envs t m addrs = Ok m' \<Longrightarrow> hm_get (sm_sessions m) a = None \<Longrightarrow> leaves_out a m m'"
proof (induction addrs arbitrary: m)
  case (Cons b addrs)
  show ?case
  proof (cases "hm_get (sm_sessions m) b")
    case (Some s)
    then have "a \<noteq> b" using Cons.prems(2) by auto
    note l = leaves_out_session(1) [OF this, where m = m and k = "sm_draws m + 1"]
    obtain s' acts where
      "update_loop ops envs t (handle_actions (m\<lparr>sm_draws := sm_draws m + 1, sm_sessions := hm_insert b s' (sm_sessions m)\<rparr>) b acts) addrs = Ok m'"
      using Cons.prems Some by (auto simp: Let_def res_bind_Ok_iff)
    from Cons.IH [OF this] l [where s = s' and acts = acts] Cons.prems(2) show ?thesis by (auto simp: leaves_out_def intro: leaves_out_trans)
  qed (use Cons in simp)
qed simp

lemma collect_drop_leaves_out:
  "foldl (collect_drop ops t) (m, ds) xs = (m', ds') \<Longrightarrow> a \<notin> fst ` set xs \<Longrightarrow> leaves_out a m m'"
proof (induction xs arbitrary: m ds)
  case (Cons x xs)
  obtain b s where x: "x = (b, s)" by fastforce
  then have "a \<noteq> b" using Cons.prems(2) by auto
  note l = leaves_out_session(3) [OF this, of m "snd (so_should_drop ops s t)"]
  obtain ds1 where "collect_drop ops t (m, ds) x = (handle_actions m b (snd (so_should_drop ops s t)), ds1)"
    by (simp add: collect_drop_def x split_beta Let_def)
  then show ?case using Cons.IH [of _ ds1] Cons.prems l by (auto intro: leaves_out_trans)
qed simp

lemma no_op_flush:
  "sm_sent (messenger_flush no_op_interceptor m) = sm_sent m @ sm_pending_sends m"
  "sm_events (messenger_flush no_op_interceptor m) = sm_events m @ sm_pending_events m"
  "sm_pending_sends (messenger_flush no_op_interceptor m) = []" "sm_pending_events (messenger_flush no_op_interceptor m) = []"
proof -
  have "sm_sent (foldl (flush_send no_op_interceptor) m xs) = sm_sent m @ xs" for m :: "('a, 'b, 'c, unit) session_manager" and xs
    by (induction xs arbitrary: m) (simp_all add: flush_send_def no_op_interceptor_def split_beta Let_def)
  then show "sm_sent (messenger_flush no_op_interceptor m) = sm_sent m @ sm_pending_sends m"
    "sm_events (messenger_flush no_op_interceptor m) = sm_events m @ sm_pending_events m"
    "sm_pending_sends (messenger_flush no_op_interceptor m) = []" "sm_pending_events (messenger_flush no_op_interceptor m) = []"
    by (simp_all add: messenger_flush_def Let_def)
qed

text \<open>The poll after the receive loop sends nothing to an address that has no session and that the application does not send to.\<close>

lemma rest_leaves_out:
  assumes "user_loop ops envs t (m1\<lparr>sm_user_events := []\<rparr>) n1 (sm_user_events m1) = Ok (m2, n2)"
    "update_loop ops envs t m2 (hm_keys (sm_sessions m2)) = Ok m3"
    "foldl (collect_drop ops t) (m3, []) (sm_sessions m3) = (m4, drops)" "remove_loop m4 drops = Ok m5"
    and a: "hm_get (sm_sessions m1) a = None" "a \<notin> so_address ops ` set (sm_user_events m1)"
  shows "leaves_out a m1 m5 \<and> hm_get (sm_sessions m5) a = None"
proof -
  have s0: "leaves_out a m1 (m1\<lparr>sm_user_events := []\<rparr>)" by (simp add: leaves_out_def)
  have s2: "leaves_out a m1 m2" using leaves_out_trans [OF s0 user_loop_leaves_out [OF assms(1) a(2)]] .
  then have n2: "hm_get (sm_sessions m2) a = None" using a(1) by (simp add: leaves_out_def)
  have s3: "leaves_out a m1 m3" using leaves_out_trans [OF s2 update_loop_leaves_out [OF assms(2) n2]] .
  then have n3: "hm_get (sm_sessions m3) a = None" using a(1) by (simp add: leaves_out_def)
  then have "a \<notin> fst ` set (sm_sessions m3)" by (simp add: hm_get_def map_of_eq_None_iff)
  then have s4: "leaves_out a m1 m4" using leaves_out_trans [OF s3 collect_drop_leaves_out [OF assms(3)]] by blast
  have "leaves_out a m4 m5" using remove_loop_frame [OF assms(4)] by (auto simp: leaves_out_def) (metis not_None_eq)
  then have "leaves_out a m1 m5" by (rule leaves_out_trans [OF s4])
  then show ?thesis using a(1) by (simp add: leaves_out_def)
qed

text \<open>A peer answers a datagram only later: processing one queues the answer and sends nothing.\<close>

lemma packet_sends_nothing: "process_packet X env p d t = Ok (q, acts) \<Longrightarrow> sends_of a acts = []"
  by (auto simp: process_packet_def Let_def split_beta sends_of_def split: if_splits res.splits)

lemma refused_packet:
  assumes "hm_get (sm_sessions m) a = None" "unat (sm_max_unestablished m) \<le> n \<or> \<not> can_accept_duplicate m a"
    and "process_packet X (envs (sm_draws m)) (create_session (sm_config m) a t (envs (sm_draws m))) d t = Ok (s, acts)"
  shows "\<exists>m'. packet_to_session (peer_ops X) envs t m n d a = Ok (m', n) \<and> sm_sessions m' = sm_sessions m \<and>
    sm_pending_sends m' = sm_pending_sends m \<and> sm_pending_events m' = sm_pending_events m @ emits_of acts \<and>
    sm_sent m' = sm_sent m \<and> sm_events m' = sm_events m \<and> sm_user_events m' = sm_user_events m"
proof -
  have "can_accept_duplicate (handle_actions (m\<lparr>sm_draws := sm_draws m + 1\<rparr>) a acts) a = can_accept_duplicate m a"
    by (simp add: can_accept_duplicate_def count_of_def)
  then show ?thesis
    using assms packet_sends_nothing [OF assms(3), of a] by (auto simp: packet_to_session_def peer_ops_def Let_def handle_actions_result)
qed

lemma refused_receive:
  assumes "hm_get (sm_sessions m) a = None" "unat (sm_max_unestablished m) \<le> n \<or> \<not> can_accept_duplicate m a"
    and "process_packet X (envs (sm_draws m)) (create_session (sm_config m) a t (envs (sm_draws m))) d t = Ok (s, acts)"
    and "length d \<le> length (sm_receive_buffer m)"
  shows "\<exists>m'. receive_loop (peer_ops X) no_op_interceptor envs bl t m n [Received d a] = Ok (m', n) \<and> sm_sessions m' = sm_sessions m \<and>
    sm_pending_sends m' = sm_pending_sends m \<and> sm_pending_events m' = sm_pending_events m @ emits_of acts \<and>
    sm_sent m' = sm_sent m \<and> sm_events m' = sm_events m \<and> sm_user_events m' = sm_user_events m"
proof -
  let ?m = "m\<lparr>sm_receive_buffer := d @ drop (length d) (sm_receive_buffer m), sm_interceptor := ()\<rparr>"
  have "can_accept_duplicate ?m a = can_accept_duplicate m a" by (simp add: can_accept_duplicate_def count_of_def)
  then have pre: "hm_get (sm_sessions ?m) a = None" "unat (sm_max_unestablished ?m) \<le> n \<or> \<not> can_accept_duplicate ?m a"
    "process_packet X (envs (sm_draws ?m)) (create_session (sm_config ?m) a t (envs (sm_draws ?m))) d t = Ok (s, acts)"
    using assms(1-3) by simp_all
  from refused_packet [of ?m a n X envs, OF pre] obtain m' where
    "packet_to_session (peer_ops X) envs t ?m n d a = Ok (m', n)" "sm_sessions m' = sm_sessions m"
    "sm_pending_sends m' = sm_pending_sends m" "sm_pending_events m' = sm_pending_events m @ emits_of acts"
    "sm_sent m' = sm_sent m" "sm_events m' = sm_events m" "sm_user_events m' = sm_user_events m" by auto
  moreover have "receive_one (peer_ops X) no_op_interceptor envs t m n d a =
      res_bind (packet_to_session (peer_ops X) envs t ?m n d a) (\<lambda>(m, n). Ok (m, n, True))"
    using assms(4) by (simp add: receive_one_def no_op_interceptor_def Let_def)
  ultimately show ?thesis by auto
qed

section \<open>Properties\<close>

text \<open>
  C24: However many datagrams from unknown addresses a poll receives, the sessions it leaves that can still become established do not exceed the configured limit, or the number of unestablished sessions there
  was before when that is larger. This leaves out the addresses the application itself has sent to since the last poll: their sessions are made without a look at the limit.
\<close>

theorem unestablished_limit:
  assumes "sm_inv (peer_cfg_ok X config) (peer_safe X) m" and "\<forall>n. fills (envs n)"
  shows "\<exists>m'. sm_manual_poll (peer_ops X) ic envs bl m inputs t = Ok m' \<and>
    card (waiting_sessions (peer_ops X) peer_dying m' - packet_address ` set (sm_user_events m)) \<le>
      max (unestablished_session_count (peer_ops X) m) (unat (sm_max_unestablished m))"
  using peer_contract.poll_limit [OF assms(2,1), of ic bl inputs t] by (simp add: peer_ops_def)

text \<open>A manager that keeps at most one unestablished session, and a poll with three datagrams that open nothing.\<close>

definition sample_strict :: config where
  "sample_strict = default_config\<lparr>max_unestablished_connections := 1\<rparr>"

lemma sample_manager_inv:
  assumes "peer_cfg_ok sample_ext config config"
  shows "sm_inv (peer_cfg_ok sample_ext config) (peer_safe sample_ext) (sm_new config ())"
    "unestablished_session_count (peer_ops sample_ext) (sm_new config () :: (peer, packet, socket_event, unit) session_manager) = 0"
  using assms by (simp_all add: sm_inv_new unestablished_session_count_def) (simp add: sm_new_def hm_empty_def)

lemma sample_fills: "fills sample_env"
  by (simp add: fills_def sample_env_def)

theorem unestablished_limit_witness:
  "\<exists>m'. sm_manual_poll (peer_ops sample_ext) no_op_interceptor (\<lambda>n. sample_env) False (sm_new sample_strict ())
       (map (\<lambda>k. Received [1, 2, 3] \<lparr>sa_ip = V4 0, sa_port = k\<rparr>) [1, 2, 3]) 0 = Ok m' \<and>
     card (waiting_sessions (peer_ops sample_ext) peer_dying m') \<le> 1"
proof -
  let ?m = "sm_new sample_strict () :: (peer, packet, socket_event, unit) session_manager"
  have "peer_cfg_ok sample_ext sample_strict sample_strict"
    by (simp add: peer_cfg_ok_def sample_ext_report window_ordered_def sample_strict_def default_config_def)
  note m = sample_manager_inv [OF this]
  have lim: "unat (sm_max_unestablished ?m) = 1" "sm_user_events ?m = []" by (simp_all add: sm_new_def sample_strict_def)
  show ?thesis
    using unestablished_limit [OF m(1), of "\<lambda>n. sample_env" no_op_interceptor False _ 0] sample_fills
    by (simp only: lim m(2) list.set image_empty Diff_empty max_0L simp_thms)
qed

text \<open>
  With the interceptor that changes nothing, a flush hands every pending datagram to the socket and every pending event to the application, in
  order and once.
\<close>

theorem messenger_flush_in_order:
  "sm_sent (messenger_flush no_op_interceptor m) = sm_sent m @ sm_pending_sends m \<and>
   sm_events (messenger_flush no_op_interceptor m) = sm_events m @ sm_pending_events m \<and>
   sm_pending_sends (messenger_flush no_op_interceptor m) = [] \<and> sm_pending_events (messenger_flush no_op_interceptor m) = []"
  by (simp add: no_op_flush)

text \<open>
  C39: The limits are looked at only after the session of an unknown address has processed its first datagram. When they refuse the session, the poll still reports everything the session
  reported, its connection and its packets, to the application, but keeps no session of that address and sends nothing to it: the application hears of a connection whose client never gets an answer.
\<close>

theorem refused_session_reports:
  assumes "sm_inv (peer_cfg_ok X config) (peer_safe X) m" and "\<forall>n. fills (envs n)"
    and "sm_pending_sends m = []" and "sm_pending_events m = []" and "a \<notin> packet_address ` set (sm_user_events m)"
    and "hm_get (sm_sessions m) a = None" and "length d \<le> length (sm_receive_buffer m)"
    and "unat (sm_max_unestablished m) \<le> unestablished_session_count (peer_ops X) m \<or> \<not> can_accept_duplicate m a"
    and "process_packet X (envs (sm_draws m)) (create_session (sm_config m) a t (envs (sm_draws m))) d t = Ok (s, acts)"
  shows "\<exists>m' es sent. sm_manual_poll (peer_ops X) no_op_interceptor envs bl m [Received d a] t = Ok m' \<and>
    hm_get (sm_sessions m') a = None \<and> sm_events m' = sm_events m @ emits_of acts @ es \<and>
    sm_sent m' = sm_sent m @ sent \<and> a \<notin> fst ` set sent"
proof -
  obtain m' where m': "sm_manual_poll (peer_ops X) no_op_interceptor envs bl m [Received d a] t = Ok m'"
    using peer_contract.poll_total [OF assms(2,1)] by blast
  then obtain m1 n1 m2 n2 m3 m4 ds m5 where
    m1: "receive_loop (peer_ops X) no_op_interceptor envs bl t m (unestablished_session_count (peer_ops X) m) [Received d a] = Ok (m1, n1)"
    and rest: "user_loop (peer_ops X) envs t (m1\<lparr>sm_user_events := []\<rparr>) n1 (sm_user_events m1) = Ok (m2, n2)"
      "update_loop (peer_ops X) envs t m2 (hm_keys (sm_sessions m2)) = Ok m3"
      "foldl (collect_drop (peer_ops X) t) (m3, []) (sm_sessions m3) = (m4, ds)" "remove_loop m4 ds = Ok m5"
    and m5: "m' = messenger_flush no_op_interceptor m5" by (rule poll_parts)
  from refused_receive [of m a _ X envs, OF assms(6,8,9,7), of bl] m1 have r: "sm_sessions m1 = sm_sessions m" "sm_pending_sends m1 = []"
    "sm_pending_events m1 = emits_of acts" "sm_sent m1 = sm_sent m" "sm_events m1 = sm_events m" "sm_user_events m1 = sm_user_events m"
    using assms(3,4) by auto
  have a: "hm_get (sm_sessions m1) a = None" "a \<notin> so_address (peer_ops X) ` set (sm_user_events m1)"
    using assms(5,6) r(1,6) by (simp_all add: peer_ops_def)
  have "leaves_out a m1 m5" "hm_get (sm_sessions m5) a = None" using rest_leaves_out [OF rest a] by simp_all
  then show ?thesis using m' unfolding m5 by (auto simp: leaves_out_def no_op_flush r)
qed

text \<open>A manager that keeps no unestablished session at all.\<close>

definition sample_closed :: config where
  "sample_closed = default_config\<lparr>max_unestablished_connections := 0\<rparr>"

theorem refused_session_reports_witness:
  "\<exists>m' es sent. sm_manual_poll (peer_ops sample_ext) no_op_interceptor (\<lambda>n. sample_env) False (sm_new sample_closed ())
       [Received sample_connect \<lparr>sa_ip = V4 0, sa_port = 1\<rparr>] 0 = Ok m' \<and>
     hm_get (sm_sessions m') \<lparr>sa_ip = V4 0, sa_port = 1\<rparr> = None \<and> sm_events m' = EvConnect \<lparr>sa_ip = V4 0, sa_port = 1\<rparr> # es \<and>
     sm_sent m' = sent \<and> \<lparr>sa_ip = V4 0, sa_port = 1\<rparr> \<notin> fst ` set sent"
proof -
  let ?a = "\<lparr>sa_ip = V4 0, sa_port = 1\<rparr>" and ?m = "sm_new sample_closed () :: (peer, packet, socket_event, unit) session_manager"
  let ?p = "create_session sample_closed ?a 0 sample_env"
  have cfg: "peer_cfg_ok sample_ext sample_closed sample_closed"
    by (simp add: peer_cfg_ok_def sample_ext_report window_ordered_def sample_closed_def default_config_def)
  note inv = sample_manager_inv [OF cfg]
  have new: "sm_pending_sends ?m = []" "sm_pending_events ?m = []" "sm_user_events ?m = []" "hm_get (sm_sessions ?m) ?a = None"
    "sm_config ?m = sample_closed" "sm_sent ?m = []" "sm_events ?m = []" "sm_max_unestablished ?m = 0"
    by (simp_all add: sm_new_def sample_closed_def)
  have len: "length sample_connect \<le> length (sm_receive_buffer ?m)"
    by (simp add: sm_new_def sample_connect_def sample_closed_def default_config_def DEFAULT_MTU_def)
  have op: "open_datagram sample_ext (p_config ?p) sample_connect = Ok [Connect 1 1400 1 5 6]"
    using sample_connect_opens by (simp add: open_datagram_def create_session_def peer_new_def sample_closed_def)
  have rec: "peer_can_receive_within_bandwidth (fst (peer_update_bandwidth_window ?p 0))"
    by (simp add: create_session_def peer_new_def peer_can_receive_within_bandwidth_def peer_update_bandwidth_window_def
        can_receive_within_bandwidth_def update_bandwidth_window_def bt_new_def sample_closed_def default_config_def duration_since_def
        BANDWIDTH_WINDOW_def from_secs_def)
  have st: "p_state ?p = Idle" "p_remote_address ?p = ?a" by (simp_all add: create_session_def peer_new_def)
  obtain q where "process_packet sample_ext sample_env ?p sample_connect 0 = Ok (q, [Emit (EvConnect ?a)])"
    using connect_at_once [OF st(1) sample_connect_nonempty rec op, of sample_env] st(2) by auto
  from refused_session_reports [OF inv(1) _ new(1,2) _ new(4) len, of "\<lambda>n. sample_env" 0 q "[Emit (EvConnect ?a)]" False] this
  show ?thesis by (simp add: new sample_fills emits_of_def)
qed

end
