(* ===== verification/Host.thy ===== *)
theory Host
  imports Session_Manager
begin

text \<open>
  The host (\<^verbatim>\<open>bitfold-host/src/socket.rs\<close>), the interface of the application: it owns the session manager, queues packets for the next poll, and hands out the
  events of earlier polls. Here a host is made from its configuration and its interceptor, and a poll is given the datagrams it finds; the
  socket itself is the matter of \<open>Transport\<close>.

  A run of the application is a list of operations. \<open>host_run\<close> executes it; each poll brings the datagrams the socket delivers to it and its time. The
  polling loop of the source is a run of polls.
\<close>

section \<open>Operations\<close>

record 'i host =
  h_handler :: "(peer, packet, socket_event, 'i) session_manager"
  h_blocking_mode :: bool

definition host_bind :: "config \<Rightarrow> 'i \<Rightarrow> 'i host" where
  "host_bind config interceptor = \<lparr>h_handler = sm_new config interceptor, h_blocking_mode = blocking_mode config\<rparr>"

definition host_send :: "'i host \<Rightarrow> packet \<Rightarrow> 'i host" where
  "host_send h packet = h\<lparr>h_handler := (h_handler h)\<lparr>sm_user_events := sm_user_events (h_handler h) @ [packet]\<rparr>\<rparr>"

definition host_recv :: "'i host \<Rightarrow> 'i host \<times> socket_event option" where
  "host_recv h =
     (case sm_events (h_handler h) of
        [] \<Rightarrow> (h, None)
      | ev # evs \<Rightarrow> (h\<lparr>h_handler := (h_handler h)\<lparr>sm_events := evs\<rparr>\<rparr>, Some ev))"

definition host_manual_poll ::
  "ext \<Rightarrow> 'i interceptor \<Rightarrow> (nat \<Rightarrow> session_env) \<Rightarrow> 'i host \<Rightarrow> received list \<Rightarrow> instant \<Rightarrow> (error_kind, 'i host) res" where
  "host_manual_poll X ic envs h inputs time =
     res_bind (sm_manual_poll (peer_ops X) ic envs (h_blocking_mode h) (h_handler h) inputs time) (\<lambda>m.
       Ok (h\<lparr>h_handler := m\<rparr>))"

fun start_polling ::
  "ext \<Rightarrow> 'i interceptor \<Rightarrow> (nat \<Rightarrow> session_env) \<Rightarrow> 'i host \<Rightarrow> (received list \<times> instant) list \<Rightarrow> (error_kind, 'i host) res" where
  "start_polling X ic envs h [] = Ok h"
| "start_polling X ic envs h ((inputs, now) # polls) =
     res_bind (host_manual_poll X ic envs h inputs now) (\<lambda>h. start_polling X ic envs h polls)"

definition host_disconnect :: "'i host \<Rightarrow> socket_addr \<Rightarrow> 'i host" where
  "host_disconnect h addr =
     (case hm_get (sm_sessions (h_handler h)) addr of
        Some session \<Rightarrow> h\<lparr>h_handler := (h_handler h)\<lparr>sm_sessions := hm_insert addr (disconnect session) (sm_sessions (h_handler h))\<rparr>\<rparr>
      | None \<Rightarrow> h)"

definition broadcast :: "ext \<Rightarrow> 'i host \<Rightarrow> u8 \<Rightarrow> bytes \<Rightarrow> delivery_guarantee \<Rightarrow> ordering_guarantee \<Rightarrow> 'i host \<times> nat" where
  "broadcast X h channel_id data delivery order =
     (let addresses = established_sessions (peer_ops X) (h_handler h);
          count = length addresses
      in (foldl (\<lambda>h addr. host_send h (packet_new addr data delivery order channel_id)) h addresses, count))"

definition broadcast_reliable :: "ext \<Rightarrow> 'i host \<Rightarrow> u8 \<Rightarrow> bytes \<Rightarrow> 'i host \<times> nat" where
  "broadcast_reliable X h channel_id data = broadcast X h channel_id data Reliable (Ordered None)"

definition broadcast_unreliable :: "ext \<Rightarrow> 'i host \<Rightarrow> u8 \<Rightarrow> bytes \<Rightarrow> 'i host \<times> nat" where
  "broadcast_unreliable X h channel_id data = broadcast X h channel_id data Unreliable NoOrdering"

definition established_connections_count :: "ext \<Rightarrow> 'i host \<Rightarrow> nat" where
  "established_connections_count X h = established_sessions_count (peer_ops X) (h_handler h)"

section \<open>Runs of an application\<close>

datatype host_op =
    OpSend packet
  | OpBroadcast u8 bytes delivery_guarantee ordering_guarantee
  | OpRecv
  | OpDisconnect socket_addr
  | OpPoll "received list" instant

fun host_apply ::
  "ext \<Rightarrow> 'i interceptor \<Rightarrow> (nat \<Rightarrow> session_env) \<Rightarrow> 'i host \<Rightarrow> host_op \<Rightarrow> (error_kind, 'i host) res" where
  "host_apply X ic envs h (OpSend packet) = Ok (host_send h packet)"
| "host_apply X ic envs h (OpBroadcast channel_id data delivery order) = Ok (fst (broadcast X h channel_id data delivery order))"
| "host_apply X ic envs h OpRecv = Ok (fst (host_recv h))"
| "host_apply X ic envs h (OpDisconnect addr) = Ok (host_disconnect h addr)"
| "host_apply X ic envs h (OpPoll inputs time) = host_manual_poll X ic envs h inputs time"

fun host_run ::
  "ext \<Rightarrow> 'i interceptor \<Rightarrow> (nat \<Rightarrow> session_env) \<Rightarrow> 'i host \<Rightarrow> host_op list \<Rightarrow> (error_kind, 'i host) res" where
  "host_run X ic envs h [] = Ok h"
| "host_run X ic envs h (x # xs) = res_bind (host_apply X ic envs h x) (\<lambda>h. host_run X ic envs h xs)"

lemma start_polling_run: "start_polling X ic envs h polls = host_run X ic envs h (map (\<lambda>(i, t). OpPoll i t) polls)"
  by (induction X ic envs h polls rule: start_polling.induct) (auto intro!: res_bind_cong)

section \<open>The invariant\<close>

abbreviation host_inv :: "ext \<Rightarrow> config \<Rightarrow> 'i host \<Rightarrow> bool" where
  "host_inv X config h \<equiv> sm_inv (peer_cfg_ok X config) (peer_safe X) (h_handler h)"

lemma sm_inv_channels [simp]:
  "sm_inv cfg_ok good (m\<lparr>sm_events := es\<rparr>) = sm_inv cfg_ok good m"
  by (rule sm_inv_cong) simp_all

lemma host_send_inv [simp]: "host_inv X config (host_send h packet) = host_inv X config h"
  by (simp add: host_send_def)

lemma broadcast_result:
  "h_handler (fst (broadcast X h ch data del ord)) = (h_handler h)\<lparr>sm_user_events := sm_user_events (h_handler h) @
     map (\<lambda>a. packet_new a data del ord ch) (established_sessions (peer_ops X) (h_handler h))\<rparr>"
proof -
  have "h_handler (foldl (\<lambda>h a. host_send h (packet_new a data del ord ch)) h as) =
      (h_handler h)\<lparr>sm_user_events := sm_user_events (h_handler h) @ map (\<lambda>a. packet_new a data del ord ch) as\<rparr>" for as
    by (induction as arbitrary: h) (simp_all add: host_send_def)
  then show ?thesis by (simp add: broadcast_def Let_def)
qed

lemma host_disconnect_inv: "host_inv X config h \<Longrightarrow> host_inv X config (host_disconnect h addr)"
proof (cases "hm_get (sm_sessions (h_handler h)) addr")
  case (Some p)
  assume inv: "host_inv X config h"
  then have "peer_safe X p" using Some by (auto simp: sm_inv_def)
  then have "peer_safe X (disconnect p)" by (rule steps_safe [OF r_into_rtranclp [of "peer_step X", OF on_disconnect]])
  then show ?thesis using sm_inv_replace [OF inv Some] by (simp add: host_disconnect_def Some)
qed (simp add: host_disconnect_def)

lemma host_apply_total:
  assumes "\<forall>n. fills (envs n)" "host_inv X config h"
  shows "\<exists>h'. host_apply X ic envs h x = Ok h' \<and> host_inv X config h'"
proof (cases x)
  case (OpPoll inputs t)
  obtain m where "sm_manual_poll (peer_ops X) ic envs (h_blocking_mode h) (h_handler h) inputs t = Ok m"
    "sm_inv (peer_cfg_ok X config) (peer_safe X) m" using peer_contract.poll_total [OF assms] by blast
  then show ?thesis by (simp add: OpPoll host_manual_poll_def)
next
  case (OpDisconnect addr)
  then show ?thesis using host_disconnect_inv [OF assms(2)] by simp
qed (use assms(2) in \<open>simp_all add: host_recv_def broadcast_result split: list.split\<close>)

lemma host_run_total:
  assumes "\<forall>n. fills (envs n)" "host_inv X config h"
  shows "\<exists>h'. host_run X ic envs h xs = Ok h' \<and> host_inv X config h'"
  using assms(2)
proof (induction xs arbitrary: h)
  case (Cons x xs)
  then show ?case using host_apply_total [OF assms(1) Cons.prems, of ic x] by force
qed simp

lemma host_run_snoc: "host_run X ic envs h (xs @ [x]) = res_bind (host_run X ic envs h xs) (\<lambda>h. host_apply X ic envs h x)"
proof (induction xs arbitrary: h)
  case Nil
  show ?case by (cases "host_apply X ic envs h x") simp_all
qed (simp add: res_bind_assoc)

section \<open>Properties\<close>

text \<open>
  C3: No run of a host panics, whatever datagrams arrive, whatever the application does and whatever the interceptor does: if the compressors report
  failures as errors and the bounds of the window are ordered, every run returns. At its end the counter of each IP address equals the number of
  its sessions and respects a configured limit, and every peer is in its invariant.
\<close>

theorem host_never_panics:
  assumes "compressors_report X" and "window_ordered config" and "\<forall>n. fills (envs n)"
  shows "\<exists>h. host_run X ic envs (host_bind config i) xs = Ok h \<and>
    (\<forall>ip. count_of (h_handler h) ip = card (sessions_from (h_handler h) ip)) \<and>
    (max_duplicate_peers config = 0 \<or> (\<forall>ip. card (sessions_from (h_handler h) ip) \<le> unat (max_duplicate_peers config))) \<and>
    (\<forall>(a, p) \<in> set (sm_sessions (h_handler h)). peer_inv p)"
proof -
  have "host_inv X config (host_bind config i)" using assms(1,2) by (simp add: host_bind_def sm_inv_new peer_cfg_ok_def)
  then obtain h where run: "host_run X ic envs (host_bind config i) xs = Ok h" and inv: "host_inv X config h"
    using host_run_total [OF assms(3)] by blast
  have cfg: "sm_max_duplicate_peers (h_handler h) = max_duplicate_peers config"
    using inv by (simp add: sm_inv_def counts_inv_def peer_cfg_ok_def)
  have "peer_inv p" if "(a, p) \<in> set (sm_sessions (h_handler h))" for a p
    using that inv by (simp add: sm_inv_def counts_inv_def hm_wf_def hm_get_def peer_safe_def)
  moreover have "card (sessions_from (h_handler h) ip) \<le> unat (max_duplicate_peers config)" if "max_duplicate_peers config \<noteq> 0" for ip
    using that inv cfg by (metis sm_inv_def counts_inv_def)
  ultimately show ?thesis using run inv by (auto simp: sm_inv_def counts_inv_def)
qed

theorem host_never_panics_witness:
  "\<exists>h. host_run sample_ext no_op_interceptor (\<lambda>n. sample_env) (host_bind default_config ())
      [OpSend (packet_unreliable \<lparr>sa_ip = V4 0, sa_port = 2\<rparr> [1, 2, 3]),
       OpPoll [Received sample_connect \<lparr>sa_ip = V4 0, sa_port = 1\<rparr>] 5, OpRecv] = Ok h \<and>
    (\<forall>(a, p) \<in> set (sm_sessions (h_handler h)). peer_inv p)"
  using host_never_panics [OF sample_ext_report, of default_config "\<lambda>n. sample_env" no_op_interceptor "()"]
  by (fastforce simp: window_ordered_def default_config_def fills_def sample_env_def)

text \<open>
  C25: A poll removes what is over: whatever happened before, after a poll no session is left that was closed by the other side or was silent for the
  configured time.
\<close>

theorem poll_drops_sessions:
  assumes "compressors_report X" and "window_ordered config" and "\<forall>n. fills (envs n)"
    and "host_run X ic envs (host_bind config i) (xs @ [OpPoll inputs t]) = Ok h"
  shows "\<forall>(a, p) \<in> set (sm_sessions (h_handler h)). \<not> fst (should_drop p t) \<and> p_state p \<noteq> Zombie \<and>
    peer_last_heard p t < idle_connection_timeout (p_config p)"
proof -
  have "host_inv X config (host_bind config i)" using assms(1,2) by (simp add: host_bind_def sm_inv_new peer_cfg_ok_def)
  then obtain h0 where h0: "host_run X ic envs (host_bind config i) xs = Ok h0" "host_inv X config h0"
    using host_run_total [OF assms(3)] by blast
  obtain m where m: "sm_manual_poll (peer_ops X) ic envs (h_blocking_mode h0) (h_handler h0) inputs t = Ok m" "h = h0\<lparr>h_handler := m\<rparr>"
    using assms(4) h0(1) by (auto simp: host_run_snoc host_manual_poll_def res_bind_Ok_iff)
  have wf: "hm_wf (sm_sessions m)" and over: "hm_get (sm_sessions m) a = Some p \<Longrightarrow> \<not> fst (so_should_drop (peer_ops X) p t)" for a p
    using peer_contract.poll_total [OF assms(3) h0(2), of ic "h_blocking_mode h0" inputs t] m(1)
    by (auto simp: sm_inv_def counts_inv_def)
  have "\<not> fst (should_drop p t)" if "(a, p) \<in> set (sm_sessions m)" for a p
    using over [of a p] that wf by (simp add: peer_ops_def hm_get_def hm_wf_def)
  then show ?thesis by (fastforce simp: m(2) should_drop_def Let_def split: if_splits)
qed

theorem poll_drops_sessions_witness:
  "\<exists>h. host_run sample_ext no_op_interceptor (\<lambda>n. sample_env) (host_bind default_config ())
      ([] @ [OpPoll [Received sample_connect \<lparr>sa_ip = V4 0, sa_port = 1\<rparr>] 5]) = Ok h \<and>
    (\<forall>(a, p) \<in> set (sm_sessions (h_handler h)). p_state p \<noteq> Zombie)"
proof -
  have ok: "window_ordered default_config" "\<forall>n. fills ((\<lambda>n :: nat. sample_env) n)"
    by (simp_all add: window_ordered_def default_config_def fills_def sample_env_def)
  have "host_inv sample_ext default_config (host_bind default_config ())"
    using sample_ext_report ok(1) by (simp add: host_bind_def sm_inv_new peer_cfg_ok_def)
  from host_run_total [OF ok(2) this] obtain h where
    "host_run sample_ext no_op_interceptor (\<lambda>n. sample_env) (host_bind default_config ())
      ([] @ [OpPoll [Received sample_connect \<lparr>sa_ip = V4 0, sa_port = 1\<rparr>] 5]) = Ok h" by blast
  from this poll_drops_sessions [OF sample_ext_report ok this] show ?thesis by fast
qed

text \<open>
  A broadcast queues the payload once for every established session, in their order and behind what is already queued, returns their number,
  and changes nothing else.
\<close>

theorem broadcast_reaches_established:
  fixes h :: "'i host"
  assumes "hm_wf (sm_sessions (h_handler h))"
  shows "snd (broadcast X h ch data del ord) = established_connections_count X h \<and>
    (\<exists>as. distinct as \<and> set as = {a. \<exists>p. hm_get (sm_sessions (h_handler h)) a = Some p \<and> is_established p} \<and>
      h_handler (fst (broadcast X h ch data del ord)) = (h_handler h)\<lparr>sm_user_events :=
        sm_user_events (h_handler h) @ map (\<lambda>a. packet_new a data del ord ch) as\<rparr>)"
proof
  let ?as = "established_sessions (peer_ops X) (h_handler h)"
  show "snd (broadcast X h ch data del ord) = established_connections_count X h"
    by (simp add: broadcast_def Let_def established_connections_count_def established_sessions_def
        established_sessions_count_def)
  have wf: "distinct (map fst (sm_sessions (h_handler h)))" using assms by (simp add: hm_wf_def)
  then have "distinct ?as" unfolding established_sessions_def by (rule distinct_map_filter)
  moreover have "set ?as = {a. \<exists>p. hm_get (sm_sessions (h_handler h)) a = Some p \<and> is_established p}"
    using wf by (force simp: established_sessions_def peer_ops_def hm_get_def)
  ultimately show "\<exists>as. distinct as \<and> set as = {a. \<exists>p. hm_get (sm_sessions (h_handler h)) a = Some p \<and> is_established p} \<and>
      h_handler (fst (broadcast X h ch data del ord)) = (h_handler h)\<lparr>sm_user_events :=
        sm_user_events (h_handler h) @ map (\<lambda>a. packet_new a data del ord ch) as\<rparr>"
    using broadcast_result by blast
qed

theorem broadcast_reaches_established_witness:
  "sm_user_events (h_handler (fst (broadcast sample_ext
      ((host_bind default_config ())\<lparr>h_handler := (sm_new default_config ())\<lparr>sm_sessions :=
         [(\<lparr>sa_ip = V4 0, sa_port = 1\<rparr>, sample_peer\<lparr>p_state := Connected\<rparr>), (\<lparr>sa_ip = V4 0, sa_port = 2\<rparr>, sample_peer)]\<rparr>\<rparr>)
      2 [1, 2] Reliable NoOrdering))) = [packet_new \<lparr>sa_ip = V4 0, sa_port = 1\<rparr> [1, 2] Reliable NoOrdering 2]"
proof -
  let ?h = "(host_bind default_config ())\<lparr>h_handler := (sm_new default_config ())\<lparr>sm_sessions :=
         [(\<lparr>sa_ip = V4 0, sa_port = 1\<rparr>, sample_peer\<lparr>p_state := Connected\<rparr>), (\<lparr>sa_ip = V4 0, sa_port = 2\<rparr>, sample_peer)]\<rparr>\<rparr>"
  have wf: "hm_wf (sm_sessions (h_handler ?h))" by (simp add: hm_wf_def)
  from broadcast_reaches_established [OF wf, of sample_ext 2 "[1, 2]" Reliable NoOrdering] obtain as where
    as: "distinct as" "set as = {a. \<exists>p. hm_get (sm_sessions (h_handler ?h)) a = Some p \<and> is_established p}"
    "h_handler (fst (broadcast sample_ext ?h 2 [1, 2] Reliable NoOrdering)) =
      (h_handler ?h)\<lparr>sm_user_events := sm_user_events (h_handler ?h) @ map (\<lambda>a. packet_new a [1, 2] Reliable NoOrdering 2) as\<rparr>"
    by blast
  have set: "set as = {\<lparr>sa_ip = V4 0, sa_port = 1\<rparr>}"
    by (auto simp: as(2) hm_get_def is_established_def state_is_established_def split: if_splits)
  then have "length as = 1" using distinct_card [OF as(1)] by simp
  then obtain y where "as = [y]" by (metis One_nat_def length_0_conv length_Suc_conv)
  with set have "as = [\<lparr>sa_ip = V4 0, sa_port = 1\<rparr>]" by simp
  then show ?thesis unfolding as(3) by (simp add: sm_new_def)
qed

end
