(* ===== verification/End_To_End.thy ===== *)
theory End_To_End
  imports Peer_Session "HOL-Library.Multiset"
begin

text \<open>
  From the sender's application to the receiver's: a reliable payload is queued, cut into fragments, packed into datagrams by the flush, and the
  datagrams, in whatever order they arrive, make the receiver deliver exactly this payload once.
\<close>

section \<open>The flush empties the queue\<close>

lemma enqueue_all_frame [simp]:
  "p_pmtu (enqueue_all q cs) = p_pmtu q" "p_bandwidth_throttle (enqueue_all q cs) = p_bandwidth_throttle q"
  unfolding enqueue_all_def
  by (induction cs arbitrary: q) (simp_all add: enqueue_command_def queue_command_def Let_def split_beta)

lemma bounded_frame:
  "p_pmtu (fst (encode_queued_commands_bounded X p m)) = p_pmtu p"
  "p_config (fst (encode_queued_commands_bounded X p m)) = p_config p"
  "p_bandwidth_throttle (fst (encode_queued_commands_bounded X p m)) = p_bandwidth_throttle p"
proof -
  have "p_pmtu (fst (emit_datagram X q cs)) = p_pmtu q" "p_bandwidth_throttle (fst (emit_datagram X q cs)) = p_bandwidth_throttle q"
    "p_config (fst (emit_datagram X q cs)) = p_config q" for q cs
    by (simp_all add: emit_datagram_def Let_def split_beta peer_defs split: res.split)
  moreover have "p_pmtu (fst (drain_commands p)) = p_pmtu p" "p_bandwidth_throttle (fst (drain_commands p)) = p_bandwidth_throttle p"
    "p_config (fst (drain_commands p)) = p_config p" by (simp_all add: drain_commands_def split_beta)
  ultimately show "p_pmtu (fst (encode_queued_commands_bounded X p m)) = p_pmtu p"
    "p_config (fst (encode_queued_commands_bounded X p m)) = p_config p"
    "p_bandwidth_throttle (fst (encode_queued_commands_bounded X p m)) = p_bandwidth_throttle p"
    by (auto simp: encode_queued_commands_bounded_def Let_def split_beta enqueue_all_frame [unfolded enqueue_all_def]
        enqueue_all_keeps [unfolded enqueue_all_def] split: res.split)
qed

lemma flush_frame:
  "flush_commands X p a = Ok (q, b) \<Longrightarrow> p_pmtu q = p_pmtu p \<and> p_config q = p_config p \<and>
     bt_outgoing_limit (p_bandwidth_throttle q) = bt_outgoing_limit (p_bandwidth_throttle p)"
proof (induction X p a rule: flush_commands.induct)
  case (1 X p a)
  obtain p' r where b: "encode_queued_commands_bounded X p (fragment_datagram_cap p) = (p', r)" by fastforce
  then have fr: "p_pmtu p' = p_pmtu p" "p_config p' = p_config p" "p_bandwidth_throttle p' = p_bandwidth_throttle p"
    using bounded_frame [of X p] by (metis fst_conv)+
  then have "p_pmtu (peer_record_bytes_sent p' n) = p_pmtu p" "p_config (peer_record_bytes_sent p' n) = p_config p"
    "bt_outgoing_limit (p_bandwidth_throttle (peer_record_bytes_sent p' n)) = bt_outgoing_limit (p_bandwidth_throttle p)" for n
    by (simp_all add: peer_record_bytes_sent_def record_bytes_sent_def)
  then show ?case
    using "1.IH" [OF _ b [symmetric]] "1.prems" b fr
    by (auto simp: flush_commands.simps [of X p] split: if_splits res.splits option.splits)
qed

lemma encode_owned: "command_wf c \<Longrightarrow> encode_command X (owned c) = encode_command X c"
  by (cases c) (simp_all add: encode_command_def command_wf_def sb_owned_def)

lemma is_probe_owned [simp]: "is_pmtu_probe (owned c) = is_pmtu_probe c"
  by (cases c) simp_all

lemma flush_all:
  assumes "flush_done X q" "peer_can_send_within_bandwidth q" "peer_inv q" "\<forall>c \<in> set (queue_of p). command_wf c"
    and "set (map owned (queue_of q)) \<subseteq> set (map owned (queue_of p))" "p_config q = p_config p" "p_pmtu q = p_pmtu p"
    and "\<forall>c \<in> set (queue_of p). datagram_size X (p_config p) c \<le> fragment_datagram_cap p \<and> \<not> is_pmtu_probe c"
  shows "queue_of q = []"
proof (rule ccontr)
  assume ne: "queue_of q \<noteq> []"
  then obtain c cs where q: "queue_of q = c # cs" by (cases "queue_of q") auto
  then obtain c' where c': "c' \<in> set (queue_of p)" "owned c = owned c'" using assms(5) by auto
  have "encode_command X c = encode_command X c'"
    using encode_owned [of c X] encode_owned [of c' X] assms(3,4) c' q by (simp add: peer_inv_def)
  then have "datagram_size X (p_config q) c \<le> fragment_datagram_cap q"
    using assms(6-8) c'(1) by (simp add: datagram_size_def fragment_datagram_cap_def peer_current_fragment_size_def)
  moreover have "effective_max q (fragment_datagram_cap q) = fragment_datagram_cap q"
    using assms(8) c' is_probe_owned [of c] is_probe_owned [of c'] by (simp add: effective_max_def q)
  ultimately show False
    using assms(1,2) ne q by (simp add: flush_done_def)
qed

section \<open>Datagrams at the receiver\<close>

text \<open>The packets a peer delivers while it processes datagrams one after another.\<close>

fun receive_datagrams :: "ext \<Rightarrow> u16 \<Rightarrow> peer \<Rightarrow> bytes list \<Rightarrow> instant \<Rightarrow> peer \<times> packet list" where
  "receive_datagrams X rnd p [] t = (p, [])"
| "receive_datagrams X rnd p (d # ds) t =
     (let (p, r) = process_command_packet X rnd p d t;
          (p', out) = receive_datagrams X rnd p ds t
      in (p', (case r of Ok z \<Rightarrow> map fst (zom_collect z) | _ \<Rightarrow> []) @ out))"

fun plain_data :: "protocol_command \<Rightarrow> bool" where
  "plain_data (SendReliable _ _ _ _) = True"
| "plain_data (SendFragment _ _ _ _ _ _) = True"
| "plain_data (SendUnreliable _ _) = True"
| "plain_data (SendUnreliableFragment _ _ _ _ _) = True"
| "plain_data _ = False"

lemma data_ok: "plain_data c \<Longrightarrow> \<exists>z. snd (process_command rnd p c t) = Ok z"
  using proc_ok by (cases c) (auto simp: process_command_def)

text \<open>
  What a peer delivers depends on its fragment buffers, its channels and the address of its peer alone. Two peers that agree in these deliver the same packets
  from the same data and agree afterwards, whatever their queues, windows, statistics and connection states are.
\<close>

definition delivery_view :: "peer \<Rightarrow> (u16, command_fragment_buffer) hmap \<times> (u8, channel_state) hmap \<times> socket_addr" where
  "delivery_view p = (p_command_fragments p, p_channel_states p, p_remote_address p)"

lemma ack_view [simp]:
  "delivery_view (enqueue_ack_command p s) = delivery_view p"
  "delivery_view (peer_process_incoming p n m t) = delivery_view p"
  "delivery_view (p\<lparr>p_last_heard := t\<rparr>) = delivery_view p"
  by (simp_all add: delivery_view_def enqueue_ack_command_def enqueue_command_def queue_command_def Let_def split_beta
      peer_process_incoming_def)

lemma user_packet_view: "delivery_view p = delivery_view q \<Longrightarrow> user_packet p = user_packet q"
  by (simp add: delivery_view_def user_packet_def fun_eq_iff)

lemma store_view:
  assumes "delivery_view p = delivery_view q"
  shows "snd (store_fragment p s b i d) = snd (store_fragment q s b i d) \<and>
    delivery_view (fst (store_fragment p s b i d)) = delivery_view (fst (store_fragment q s b i d))"
  using assms by (simp add: store_fragment_def delivery_view_def Let_def split: option.split)

lemma channel_view:
  assumes "delivery_view p = delivery_view q"
  shows "p_channel_states p = p_channel_states q"
    "delivery_view (p\<lparr>p_channel_states := h\<rparr>) = delivery_view (q\<lparr>p_channel_states := h\<rparr>)"
  using assms by (simp_all add: delivery_view_def)

lemma reliable_view:
  assumes "delivery_view p = delivery_view q"
  shows "snd (proc_send_reliable p c s o_flag d t) = snd (proc_send_reliable q c s o_flag d t) \<and>
    delivery_view (fst (proc_send_reliable p c s o_flag d t)) = delivery_view (fst (proc_send_reliable q c s o_flag d t))"
proof -
  let ?p = "enqueue_ack_command (peer_process_incoming p s 0 t) None" and ?q = "enqueue_ack_command (peer_process_incoming q s 0 t) None"
  have v: "delivery_view ?p = delivery_view ?q" using assms by simp
  have u: "user_packet (?p\<lparr>p_channel_states := h\<rparr>) = user_packet (?q\<lparr>p_channel_states := h\<rparr>)" for h
    by (rule user_packet_view [OF channel_view(2) [OF v]])
  show ?thesis
    unfolding proc_send_reliable_def Let_def
    by (simp add: split_beta channel_view(1) [OF assms] channel_view(2) [OF v] user_packet_view [OF v] u v del: ack_view)
qed

lemma fragment_view:
  assumes "delivery_view p = delivery_view q"
  shows "snd (proc_send_fragment p c s o_flag i n d t) = snd (proc_send_fragment q c s o_flag i n d t) \<and>
    delivery_view (fst (proc_send_fragment p c s o_flag i n d t)) = delivery_view (fst (proc_send_fragment q c s o_flag i n d t))"
proof -
  let ?f = "\<lambda>p. store_fragment (peer_process_incoming p s 0 t) s (fb_new c n o_flag t) i d"
  obtain p' r where p': "?f p = (p', r)" by fastforce
  have "delivery_view (peer_process_incoming p s 0 t) = delivery_view (peer_process_incoming q s 0 t)" using assms by simp
  then obtain q' where q': "?f q = (q', r)" and v: "delivery_view p' = delivery_view q'"
    using store_view [of "peer_process_incoming p s 0 t"] p' by (metis fst_conv snd_conv prod.collapse)
  let ?p = "enqueue_ack_command p' None" and ?q = "enqueue_ack_command q' None"
  have w: "delivery_view ?p = delivery_view ?q" using v by simp
  have u: "user_packet (?p\<lparr>p_channel_states := h\<rparr>) = user_packet (?q\<lparr>p_channel_states := h\<rparr>)" for h
    by (rule user_packet_view [OF channel_view(2) [OF w]])
  show ?thesis
    unfolding proc_send_fragment_def Let_def p' q'
    by (simp add: split_beta nothing_def channel_view(1) [OF v] channel_view(2) [OF w] user_packet_view [OF w] u w v del: ack_view
        split: option.split list.split)
qed

lemma unreliable_fragment_view:
  assumes "delivery_view p = delivery_view q"
  shows "snd (proc_send_unreliable_fragment p c s i n d t) = snd (proc_send_unreliable_fragment q c s i n d t) \<and>
    delivery_view (fst (proc_send_unreliable_fragment p c s i n d t)) = delivery_view (fst (proc_send_unreliable_fragment q c s i n d t))"
proof -
  obtain p' r where p': "store_fragment p s (fb_new c n False t) i d = (p', r)" by fastforce
  then obtain q' where q': "store_fragment q s (fb_new c n False t) i d = (q', r)" and v: "delivery_view p' = delivery_view q'"
    using store_view [OF assms] by (metis fst_conv snd_conv prod.collapse)
  show ?thesis
    unfolding proc_send_unreliable_fragment_def p' q' by (simp add: nothing_def v user_packet_view [OF v] split: option.split)
qed

lemma command_view:
  assumes "plain_data c" "delivery_view p = delivery_view q"
  shows "snd (process_command rnd p c t) = snd (process_command rnd' q c t) \<and>
    delivery_view (fst (process_command rnd p c t)) = delivery_view (fst (process_command rnd' q c t))"
proof -
  have "delivery_view (p\<lparr>p_last_heard := t\<rparr>) = delivery_view (q\<lparr>p_last_heard := t\<rparr>)" using assms(2) by simp
  note v = reliable_view [OF this] fragment_view [OF this] unreliable_fragment_view [OF this] user_packet_view [OF this] this
  show ?thesis
    using assms(1) v by (cases c) (simp_all add: process_command_def proc_send_unreliable_def Let_def)
qed

text \<open>What else a sender may put into the same datagrams: the request for a connection and heartbeats. They deliver nothing.\<close>

fun harmless :: "protocol_command \<Rightarrow> bool" where
  "harmless (Connect _ _ _ _ _) = True"
| "harmless (Ping _) = True"
| "harmless _ = False"

definition quiet :: "protocol_command \<Rightarrow> bool" where
  "quiet c \<longleftrightarrow> plain_data c \<or> harmless c"

abbreviation settings :: "peer \<Rightarrow> config \<times> bandwidth_throttle" where
  "settings p \<equiv> (p_config p, p_bandwidth_throttle p)"

lemma harmless_command:
  "harmless c \<Longrightarrow> snd (process_command rnd p c t) = Ok zom_zero \<and> delivery_view (fst (process_command rnd p c t)) = delivery_view p \<and>
     settings (fst (process_command rnd p c t)) = settings p"
  by (cases c) (simp_all add: process_command_def proc_connect_def nothing_def delivery_view_def enqueue_pong_command_def
      enqueue_command_def queue_command_def Let_def split_beta)

lemma fragment_settings: "settings (fst (proc_send_fragment p c s o_flag i n d t)) = settings p"
proof -
  obtain q r where q: "store_fragment (peer_process_incoming p s 0 t) s (fb_new c n o_flag t) i d = (q, r)" by fastforce
  have "settings (fst (store_fragment (peer_process_incoming p s 0 t) s (fb_new c n o_flag t) i d)) = settings p"
    by (simp add: store_fragment_def Let_def peer_process_incoming_def split: option.split)
  then have "settings q = settings p" by (simp add: q)
  then show ?thesis
    by (simp add: proc_send_fragment_def q nothing_def Let_def split_beta enqueue_ack_command_def enqueue_command_def queue_command_def
        split: option.split list.split)
qed

lemma unreliable_fragment_settings: "settings (fst (proc_send_unreliable_fragment p c s i n d t)) = settings p"
proof -
  have "settings (fst (store_fragment p s (fb_new c n False t) i d)) = settings p"
    by (simp add: store_fragment_def Let_def split: option.split)
  then show ?thesis by (auto simp: proc_send_unreliable_fragment_def nothing_def split: prod.split option.split)
qed

lemma data_settings: "plain_data c \<Longrightarrow> settings (fst (process_command rnd p c t)) = settings p"
  using fragment_settings unreliable_fragment_settings
  by (cases c) (simp_all add: process_command_def proc_send_unreliable_def proc_send_reliable_def Let_def split_beta enqueue_ack_command_def
      enqueue_command_def queue_command_def peer_process_incoming_def)

lemma quiet_commands:
  assumes "\<forall>c \<in> set cs. quiet c" "delivery_view p = delivery_view r"
  shows "\<exists>q. process_commands rnd p cs t out = (q, Ok (zom_many (out @ snd (arrivals rnd' r (map (\<lambda>c. (c, t)) (filter plain_data cs)))))) \<and>
    delivery_view q = delivery_view (fst (arrivals rnd' r (map (\<lambda>c. (c, t)) (filter plain_data cs)))) \<and> settings q = settings p"
  using assms
proof (induction cs arbitrary: p r out)
  case (Cons c cs)
  obtain p' x where p': "process_command rnd p c t = (p', x)" by fastforce
  show ?case
  proof (cases "plain_data c")
    case True
    obtain r' where r': "process_command rnd' r c t = (r', x)" "delivery_view p' = delivery_view r'"
      using command_view [OF True Cons.prems(2), of rnd t rnd'] p' by (metis fst_conv snd_conv prod.collapse)
    obtain z where "x = Ok z" using data_ok [OF True, of rnd p t] p' by auto
    with r' p' True show ?thesis
      using Cons.IH [OF _ r'(2), of "out @ zom_collect z"] Cons.prems(1) data_settings [OF True, of rnd p t]
      by (auto simp: Let_def split_beta)
  next
    case False
    then have "harmless c" using Cons.prems(1) by (simp add: quiet_def)
    from harmless_command [OF this, of rnd p t] have "x = Ok zom_zero" "delivery_view p' = delivery_view r" "settings p' = settings p"
      using p' Cons.prems(2) by simp_all
    then show ?thesis using Cons.IH [of p' r "out @ []"] Cons.prems(1) False p' by auto
  qed
qed simp

lemma record_received_view [simp]:
  "delivery_view (record_packet_received p) = delivery_view p" "delivery_view (record_data_received p n) = delivery_view p"
  "settings (record_packet_received p) = settings p" "settings (record_data_received p n) = settings p"
  by (simp_all add: delivery_view_def record_packet_received_def record_data_received_def)

lemma quiet_datagram:
  assumes "open_datagram X (p_config p) d = Ok cs" "\<forall>c \<in> set cs. quiet c" "delivery_view p = delivery_view r"
  shows "\<exists>q. process_command_packet X rnd p d t = (q, Ok (zom_many (snd (arrivals rnd' r (map (\<lambda>c. (c, t)) (filter plain_data cs)))))) \<and>
    delivery_view q = delivery_view (fst (arrivals rnd' r (map (\<lambda>c. (c, t)) (filter plain_data cs)))) \<and> settings q = settings p"
proof -
  let ?p = "record_packet_received (record_data_received p (length d))"
  have "p_config (record_data_received p (length d)) = p_config p" using record_received_view(4) [of p] by (metis fst_conv)
  moreover have "settings ?p = settings p" by (simp only: record_received_view)
  ultimately show ?thesis
    using quiet_commands [OF assms(2), of ?p r rnd t "[]" rnd'] assms(1,3) by (simp add: process_command_packet_def Let_def)
qed

lemma datagrams_arrivals:
  assumes "list_all2 (\<lambda>d cs. open_datagram X config d = Ok cs) ds css" "\<forall>c \<in> set (concat css). quiet c"
    "p_config p = config" "delivery_view p = delivery_view r"
  shows "snd (receive_datagrams X rnd p ds t) = map fst (snd (arrivals rnd' r (map (\<lambda>c. (c, t)) (filter plain_data (concat css)))))"
  using assms
proof (induction ds css arbitrary: p r rule: list_all2_induct)
  case (Cons d ds cs css)
  obtain r' out where r': "arrivals rnd' r (map (\<lambda>c. (c, t)) (filter plain_data cs)) = (r', out)" by fastforce
  obtain q where q: "process_command_packet X rnd p d t = (q, Ok (zom_many out))" "delivery_view q = delivery_view r'" "p_config q = config"
    using quiet_datagram [of X p d cs r rnd t rnd'] Cons.hyps(1) Cons.prems r' by auto
  then show ?case using Cons.IH [of q r'] Cons.prems(1) by (simp add: Let_def split_beta arrivals_append r')
qed simp

section \<open>Permuted arrivals\<close>

lemma mset_map_preimage: "mset xs = mset (map f ys) \<Longrightarrow> \<exists>zs. mset zs = mset ys \<and> xs = map f zs"
proof (induction xs arbitrary: ys)
  case (Cons x xs)
  then have "x \<in> set (map f ys)" by (metis list.set_intros(1) set_mset_mset)
  then obtain y where y: "y \<in> set ys" "x = f y" by auto
  then have "mset xs = mset (map f (remove1 y ys))"
    using Cons.prems by (simp add: image_mset_Diff) (metis add_mset_remove_trivial)
  from Cons.IH [OF this] obtain zs where "mset zs = mset (remove1 y ys)" "xs = map f zs" by blast
  then show ?case using y by (intro exI [of _ "y # zs"]) simp
qed simp

lemma mset_concat_map: "mset ds' = mset ds \<Longrightarrow> mset (concat (map f ds')) = mset (concat (map f ds))"
  by (simp add: mset_concat comp_def flip: sum_mset_sum_list)

text \<open>The fragments of a packet, each once and in any order, deliver it.\<close>

lemma permuted_fragments_delivered:
  assumes "hm_get (p_command_fragments r) s = None" "0 < length ds" "length ds < 256" "\<forall>d \<in> set ds. sb_wf d"
    and "o_flag \<Longrightarrow> s = 0 \<and> hm_get (p_channel_states r) ch = None" "mset zs = mset [0..<length ds]" "o_flag \<Longrightarrow> del = Reliable"
  shows "map fst (snd (arrivals rnd r (fragment_arrivals del ch s o_flag ds (map (\<lambda>i. (i, t)) zs)))) =
    [packet_new (p_remote_address r) (concat (map sb_as_slice ds)) del NoOrdering ch]"
proof -
  have zs: "set zs = {..<length ds}" using mset_eq_setD [OF assms(6)] by (simp add: lessThan_atLeast0)
  have dist: "distinct zs" using mset_eq_imp_distinct_iff [OF assms(6)] by simp
  have "length zs = length ds" using mset_eq_length [OF assms(6)] by simp
  then have "zs \<noteq> []" using assms(2) by (cases zs) simp_all
  then obtain ks j where kj: "zs = ks @ [j]" by (metis append_butlast_last_id)
  have order: "set (map fst (map (\<lambda>i. (i, t)) ks)) \<union> {j} = {..<length ds}" "j \<notin> set (map fst (map (\<lambda>i. (i, t)) ks))"
    using zs dist by (auto simp: kj)
  show ?thesis using fragments_delivered [OF assms(1,3,4) order assms(5,7)] by (simp add: kj)
qed

text \<open>What the application gets to see of a packet, apart from the ordering it is labelled with.\<close>

abbreviation delivered_as :: "packet \<Rightarrow> socket_addr \<times> bytes \<times> delivery_guarantee \<times> u8" where
  "delivered_as k \<equiv> (pk_addr k, pk_payload k, pk_delivery k, pk_channel_id k)"

lemma single_delivered:
  assumes "o_flag \<Longrightarrow> s = 0 \<and> hm_get (p_channel_states r) ch = None" "sb_as_slice d = data" "sb_wf d"
  shows "map delivered_as
    (map fst (snd (arrivals rnd r [(data_command del ch s o_flag d, t)]))) = [(p_remote_address r, data, del, ch)]"
  using assms process_ordered_first [of "sb_from_arc (sb_to_arc d)"]
  by (cases del; cases o_flag)
     (simp_all add: process_command_def proc_send_reliable_def proc_send_unreliable_def Let_def split_beta user_packet_def packet_new_def)

text \<open>The commands that carry a payload as the first of its kind.\<close>

abbreviation carried :: "protocol_command list \<Rightarrow> delivery_guarantee \<Rightarrow> u8 \<Rightarrow> bool \<Rightarrow> bytes \<Rightarrow> bool" where
  "carried cs del ch o_flag data \<equiv> carries cs (data_command del ch 0 o_flag (sb_from_arc data)) (fragment_command del ch 0 o_flag) data"

lemma owned_commands [simp]:
  "owned (data_command del ch s o_flag d) = data_command del ch s o_flag (sb_owned d)"
  "owned (fragment_command del ch s o_flag i n d) = fragment_command del ch s o_flag i n (sb_owned d)"
  by (cases del; simp)+

lemma carried_delivered:
  assumes cs: "carried cs del ch o_flag data" and del: "o_flag \<Longrightarrow> del = Reliable"
    and got: "mset got = mset (map owned cs)"
    and r: "hm_get (p_command_fragments r) 0 = None" "o_flag \<Longrightarrow> hm_get (p_channel_states r) ch = None"
  shows "map delivered_as (map fst (snd (arrivals rnd r (map (\<lambda>c. (c, t)) got)))) =
    [(p_remote_address r, data, del, ch)]"
  using cs unfolding carries_def
proof (elim disjE exE conjE)
  assume "cs = [data_command del ch 0 o_flag (sb_from_arc data)]"
  then have "got = [data_command del ch 0 o_flag (sb_owned (sb_from_arc data))]" using got by simp
  then show ?thesis
    using single_delivered [of o_flag 0 r ch "sb_owned (sb_from_arc data)" data rnd del t] r(2) by (simp add: sb_owned_def)
next
  fix ds :: "shared_bytes list"
  assume c: "cs = map (\<lambda>i. fragment_command del ch 0 o_flag (of_nat i) (of_nat (length ds)) (ds ! i)) [0..<length ds]"
    and ds: "0 < length ds" "length ds < 256" "\<forall>d \<in> set ds. sb_wf d" "concat (map sb_as_slice ds) = data"
  let ?ds = "map sb_owned ds" and ?f = "\<lambda>i. fragment_command del ch 0 o_flag (of_nat i) (of_nat (length ds)) (sb_owned (ds ! i))"
  from got c have "mset got = mset (map ?f [0..<length ds])" by (simp add: comp_def)
  from mset_map_preimage [OF this] obtain zs where zs: "mset zs = mset [0..<length ds]" "got = map ?f zs" by blast
  have "i < length ds" if "i \<in> set zs" for i using that mset_eq_setD [OF zs(1)] by simp
  then have "map (\<lambda>c. (c, t)) got = fragment_arrivals del ch 0 o_flag ?ds (map (\<lambda>i. (i, t)) zs)"
    by (simp add: zs(2) fragment_arrivals_def)
  moreover have "map fst (snd (arrivals rnd r (fragment_arrivals del ch 0 o_flag ?ds (map (\<lambda>i. (i, t)) zs)))) =
      [packet_new (p_remote_address r) (concat (map sb_as_slice ?ds)) del NoOrdering ch]"
    using r zs(1) ds(1,2) del by (intro permuted_fragments_delivered) (simp_all add: sb_owned_def)
  moreover have "concat (map sb_as_slice ?ds) = data" by (simp add: comp_def sb_owned_def ds(4))
  ultimately show ?thesis by (simp add: packet_new_def)
qed

lemma data_plain [simp]:
  "plain_data (data_command del ch s o_flag d)" "plain_data (fragment_command del ch s o_flag i n d)"
  "\<not> is_pmtu_probe (data_command del ch s o_flag d)" "\<not> is_pmtu_probe (fragment_command del ch s o_flag i n d)"
  by (cases del; simp)+

lemma carries_plain:
  "carries cs (data_command del ch s o_flag d) (fragment_command del ch s o_flag) data \<Longrightarrow> c \<in> set cs \<Longrightarrow>
     plain_data c \<and> plain_data (owned c) \<and> \<not> is_pmtu_probe c"
  by (auto simp: carries_def)

lemma permuted_opened:
  assumes "list_all2 (\<lambda>d cs. open_datagram X config d = Ok cs) ds css" "mset ds' = mset ds"
  shows "\<exists>css'. list_all2 (\<lambda>d cs. open_datagram X config d = Ok cs) ds' css' \<and> mset (concat css') = mset (concat css)"
proof -
  define cmds where "cmds d = (case open_datagram X config d of Ok cs \<Rightarrow> cs | _ \<Rightarrow> [])" for d
  have css: "css = map cmds ds" "\<forall>d \<in> set ds. open_datagram X config d = Ok (cmds d)"
    using assms(1) by (induction ds css rule: list_all2_induct) (simp_all add: cmds_def)
  have "set ds' = set ds" by (rule mset_eq_setD [OF assms(2)])
  then have "list_all2 (\<lambda>d cs. open_datagram X config d = Ok cs) ds' (map cmds ds')"
    using css(2) by (simp add: list_all2_map2 list_all2_same)
  then show ?thesis using mset_concat_map [OF assms(2), of cmds] css(1) by blast
qed

text \<open>Datagrams that carry the commands of one payload, in any order, carry them for the receiver too.\<close>

lemma permuted_datagrams:
  assumes op: "list_all2 (\<lambda>d cs. open_datagram X config d = Ok cs) ds css" "filter plain_data (concat css) = map owned cs"
      "\<forall>c \<in> set (concat css). quiet c"
    and cs: "carried cs del ch o_flag data" "o_flag \<longrightarrow> del = Reliable"
    and r: "hm_get (p_command_fragments r) 0 = None" "o_flag \<longrightarrow> hm_get (p_channel_states r) ch = None"
    and perm: "mset ds' = mset ds"
  shows "\<exists>css'. list_all2 (\<lambda>d cs. open_datagram X config d = Ok cs) ds' css' \<and> (\<forall>c \<in> set (concat css'). quiet c) \<and>
    map delivered_as (map fst (snd (arrivals rnd r (map (\<lambda>c. (c, t)) (filter plain_data (concat css')))))) =
      [(p_remote_address r, data, del, ch)]"
proof -
  from permuted_opened [OF op(1) perm] obtain css' where
    css': "list_all2 (\<lambda>d cs. open_datagram X config d = Ok cs) ds' css'" "mset (concat css') = mset (concat css)" by blast
  then have "mset (filter plain_data (concat css')) = mset (filter plain_data (concat css))" by (simp only: mset_filter)
  then have got: "mset (filter plain_data (concat css')) = mset (map owned cs)" by (simp only: op(2))
  have "\<forall>c \<in> set (concat css'). quiet c" using op(3) mset_eq_setD [OF css'(2)] by (simp only:)
  then show ?thesis using css'(1) carried_delivered [OF cs(1) cs(2) [rule_format] got r(1) r(2) [rule_format]] by blast
qed

section \<open>The sender\<close>

lemma owned_harmless: "harmless c \<Longrightarrow> owned c = c \<and> command_wf c \<and> \<not> is_pmtu_probe c \<and> \<not> plain_data c"
  by (cases c) (simp_all add: command_wf_def)

text \<open>
  What the two operations that send data do to a queue with room: they append the commands that carry the data. Reliable data and the first unreliable data of a peer are numbered 0.
\<close>

definition queued_after :: "ext \<Rightarrow> peer \<Rightarrow> peer \<Rightarrow> protocol_command list \<Rightarrow> bool" where
  "queued_after X p p1 cs \<longleftrightarrow> peer_inv p1 \<and> queue_of p1 = queue_of p @ cs \<and> p_config p1 = p_config p \<and>
     p_bandwidth_throttle p1 = p_bandwidth_throttle p \<and> fragment_datagram_cap p1 = fragment_datagram_cap p \<and>
     (\<forall>c \<in> set cs. command_wf c \<and> datagram_size X (p_config p) c \<le> fragment_datagram_cap p \<and> \<not> is_pmtu_probe c)"

lemma reliable_queued:
  assumes "byteorder_be X" "peer_inv p" "0 < payload_budget p 9" "length data \<le> unat (max_fragments (p_config p)) * payload_budget p 9"
    and "room_for p (length data)"
  shows "\<exists>p1 cs. enqueue_reliable_data p ch data o_flag = Ok (p1, 0) \<and> queued_after X p p1 cs \<and> carried cs Reliable ch o_flag data"
proof -
  let ?single = "data_command Reliable ch 0 o_flag (sb_from_arc data)" and ?frag = "fragment_command Reliable ch 0 o_flag"
  define cs where "cs = offered p data 7 9 ?single ?frag"
  define p1 where "p1 = enqueue_all p cs"
  have frag: "?frag = SendFragment ch 0 o_flag" by (simp add: fun_eq_iff)
  have enq: "enqueue_reliable_data p ch data o_flag = Ok (p1, 0)"
    using assms(2) by (simp add: enqueue_reliable_offered peer_inv_def local_sequence_num_def p1_def cs_def frag)
  have carry: "carries cs ?single ?frag data" unfolding cs_def by (rule offered_carries [OF assms(3,4)]) simp
  have "data_size_of cs = length data" by (rule carries_size [OF carry]) simp_all
  then have queue: "queue_of p1 = queue_of p @ cs" using assms(5) by (simp add: p1_def enqueue_all_room)
  have p1: "p_config p1 = p_config p" "peer_inv p1" using peer_inv_send_reliable [OF assms(2) enq] by (simp_all add: p1_def)
  have "command_wf c \<and> datagram_size X (p_config p) c \<le> fragment_datagram_cap p" if "c \<in> set cs" for c
    using that reliable_offered_fits [OF assms(1)] unfolding cs_def frag by simp
  then have "queued_after X p p1 cs"
    using p1 queue carries_plain [OF carry] by (auto simp: queued_after_def p1_def fragment_datagram_cap_def peer_current_fragment_size_def)
  then show ?thesis using enq carry by blast
qed

lemma unreliable_queued:
  assumes "byteorder_be X" "peer_inv p" "0 < payload_budget p 9" "length data \<le> unat (max_fragments (p_config p)) * payload_budget p 9"
    and "room_for p (length data)" "p_next_unreliable_sequence p = 0"
  shows "\<exists>p1 cs. enqueue_unreliable_data p ch data = Ok (p1, 0) \<and> queued_after X p p1 cs \<and> carried cs Unreliable ch False data"
proof -
  let ?single = "data_command Unreliable ch 0 False (sb_from_arc data)" and ?frag = "fragment_command Unreliable ch 0 False"
  define q where "q = p\<lparr>p_next_unreliable_sequence := p_next_unreliable_sequence p + 1\<rparr>"
  define cs where "cs = offered q data 4 8 ?single ?frag"
  define p1 where "p1 = enqueue_all q cs"
  have frag: "?frag = SendUnreliableFragment ch 0" by (simp add: fun_eq_iff)
  have q: "payload_budget q 9 = payload_budget p 9" "p_config q = p_config p" "queue_of q = queue_of p" "room_for q n = room_for p n"
    "fragment_datagram_cap q = fragment_datagram_cap p" "p_bandwidth_throttle q = p_bandwidth_throttle p" "p_pmtu q = p_pmtu p" for n
    by (simp_all add: q_def payload_budget_def fragment_datagram_cap_def peer_current_fragment_size_def queue_of_def room_for_def)
  have le: "payload_budget p 9 \<le> payload_budget q 8" by (simp add: payload_budget_def q)
  have enq: "enqueue_unreliable_data p ch data = Ok (p1, 0)"
    by (simp add: enqueue_unreliable_offered p1_def cs_def frag q_def assms(6))
  have fits: "0 < payload_budget q 8" "length data \<le> unat (max_fragments (p_config q)) * payload_budget q 8"
    using assms(3,4) le by (auto simp: q intro: le_trans)
  have carry: "carries cs ?single ?frag data" unfolding cs_def by (rule offered_carries [OF fits]) simp
  have "data_size_of cs = length data" by (rule carries_size [OF carry]) simp_all
  then have queue: "queue_of p1 = queue_of p @ cs" using assms(5) by (simp add: p1_def enqueue_all_room q)
  have p1: "p_config p1 = p_config p" "peer_inv p1"
    using peer_steps_inv [OF r_into_rtranclp [of "peer_step X", OF on_unreliable [OF enq]] assms(2)] by (simp_all add: p1_def q)
  have "command_wf c \<and> datagram_size X (p_config p) c \<le> fragment_datagram_cap p" if "c \<in> set cs" for c
    using that unreliable_offered_fits [OF assms(1), of c q data ch 0] unfolding cs_def frag by (simp add: q)
  then have "queued_after X p p1 cs"
    using p1 queue carries_plain [OF carry] q(6,7) by (auto simp: queued_after_def p1_def fragment_datagram_cap_def peer_current_fragment_size_def)
  then show ?thesis using enq carry by blast
qed

text \<open>Commands behind harmless ones are sent by the flush, unless the bandwidth is used up.\<close>

lemma queued_sent:
  assumes X: "byteorder_be X" "compressors_lossless X" "never_fails X (p_config p)" "receive_buffer_max_size (p_config p) \<le> 1537"
    and p: "\<forall>c \<in> set (queue_of p). harmless c \<and> datagram_size X (p_config p) c \<le> fragment_datagram_cap p" "queued_after X p p1 cs"
    and config: "use_checksums config = use_checksums (p_config p)"
  shows "\<exists>q ds css. flush_commands X p1 a = Ok (q, a @ map Send ds) \<and>
    list_all2 (\<lambda>d cs. open_datagram X config d = Ok cs) ds css \<and>
    concat css @ map owned (queue_of q) = queue_of p @ map owned cs \<and>
    (peer_can_send_within_bandwidth q \<longrightarrow> queue_of q = []) \<and>
    (bt_outgoing_limit (p_bandwidth_throttle p) = 0 \<longrightarrow> peer_can_send_within_bandwidth q) \<and>
    (\<forall>d \<in> set ds. length d \<le> receive_buffer_max_size (p_config p))"
proof -
  have p1: "peer_inv p1" "queue_of p1 = queue_of p @ cs" "p_config p1 = p_config p" "p_bandwidth_throttle p1 = p_bandwidth_throttle p"
    "fragment_datagram_cap p1 = fragment_datagram_cap p" using p(2) by (simp_all add: queued_after_def)
  have prefix: "map owned (queue_of p) = queue_of p" using p(1) owned_harmless by (intro map_idI) blast
  have X1: "never_fails X (p_config p1)" "receive_buffer_max_size (p_config p1) \<le> 1537"
    "use_checksums config = use_checksums (p_config p1)" using X(3,4) config by (simp_all add: p1)
  obtain q ds css where fl: "flush_commands X p1 a = Ok (q, a @ map Send ds)" "flush_done X q"
    and op: "list_all2 (\<lambda>d cs. open_datagram X config d = Ok cs) ds css"
    and all: "concat css @ map owned (queue_of q) = queue_of p @ map owned cs"
    and len: "\<forall>d \<in> set ds. length d \<le> receive_buffer_max_size (p_config p)"
    using flush_result [OF X(1,2) X1 p1(1), of a] by (auto simp: p1 prefix)
  have size: "command_wf c \<and> datagram_size X (p_config p1) c \<le> fragment_datagram_cap p1 \<and> \<not> is_pmtu_probe c"
    if "c \<in> set (queue_of p1)" for c
    using that p owned_harmless [of c] by (auto simp: p1 queued_after_def)
  note fr = flush_frame [OF fl(1)]
  have sub: "set (map owned (queue_of q)) \<subseteq> set (map owned (queue_of p1))"
    using arg_cong [OF all, of set] by (auto simp: p1(2) prefix simp del: set_map)
  have "queue_of q = []" if "peer_can_send_within_bandwidth q"
    using that fl(2) peer_steps_inv [OF flush_steps [OF fl(1)] p1(1)] fr size sub by (intro flush_all [of X q p1]) simp_all
  moreover have "peer_can_send_within_bandwidth q" if "bt_outgoing_limit (p_bandwidth_throttle p) = 0"
    using fr that by (simp add: p1(4) peer_can_send_within_bandwidth_def can_send_within_bandwidth_def)
  ultimately show ?thesis using fl(1) op all len by blast
qed

lemma carried_quiet:
  assumes "concat css = xs @ map owned cs @ ys" "\<forall>c \<in> set xs \<union> set ys. harmless c"
    and "carries cs (data_command del ch s o_flag d) (fragment_command del ch s o_flag) data"
  shows "filter plain_data (concat css) = map owned cs" "\<forall>c \<in> set (concat css). quiet c"
proof -
  have "filter plain_data xs = []" "filter plain_data ys = []" using assms(2) owned_harmless by (auto simp: filter_empty_conv)
  moreover have "filter plain_data (map owned cs) = map owned cs" using carries_plain [OF assms(3)] by (auto simp: filter_id_conv)
  ultimately show "filter plain_data (concat css) = map owned cs" by (simp only: assms(1) filter_append append_Nil append_Nil2)
  show "\<forall>c \<in> set (concat css). quiet c"
    unfolding assms(1) using assms(2) carries_plain [OF assms(3)] by (auto simp: quiet_def)
qed

text \<open>The datagrams of a flush, in any order, deliver what the commands carry.\<close>

lemma sent_delivered:
  fixes rnd :: u16 and t :: instant
  assumes X: "byteorder_be X" "compressors_lossless X" "never_fails X (p_config p)" "receive_buffer_max_size (p_config p) \<le> 1537"
    and p: "queue_of p = []" "queued_after X p p1 cs" "carried cs del ch o_flag data" "o_flag \<longrightarrow> del = Reliable"
    and r: "use_checksums (p_config r) = use_checksums (p_config p)" "hm_get (p_command_fragments r) 0 = None"
      "o_flag \<longrightarrow> hm_get (p_channel_states r) ch = None"
  shows "\<exists>q ds. flush_commands X p1 [] = Ok (q, map Send ds) \<and>
    (queue_of q = [] \<or> \<not> peer_can_send_within_bandwidth q \<and> bt_outgoing_limit (p_bandwidth_throttle p) \<noteq> 0) \<and>
    (\<forall>ds'. queue_of q = [] \<and> mset ds' = mset ds \<longrightarrow>
      map delivered_as (snd (receive_datagrams X rnd r ds' t)) = [(p_remote_address r, data, del, ch)])"
proof -
  have none: "\<forall>c \<in> set (queue_of p). harmless c \<and> datagram_size X (p_config p) c \<le> fragment_datagram_cap p" by (simp add: p(1))
  from queued_sent [OF X none p(2) r(1), of "[]"] obtain q ds css where
    fl: "flush_commands X p1 [] = Ok (q, map Send ds)"
    and op: "list_all2 (\<lambda>d cs. open_datagram X (p_config r) d = Ok cs) ds css"
      "concat css @ map owned (queue_of q) = [] @ map owned cs"
    and sent: "queue_of q = [] \<or> \<not> peer_can_send_within_bandwidth q \<and> bt_outgoing_limit (p_bandwidth_throttle p) \<noteq> 0"
    by (auto simp: p(1))
  have "map delivered_as (snd (receive_datagrams X rnd r ds' t)) = [(p_remote_address r, data, del, ch)]"
    if "queue_of q = []" "mset ds' = mset ds" for ds'
  proof -
    have eq: "concat css = [] @ map owned cs @ []" using op(2) that(1) by simp
    have "\<forall>c \<in> set [] \<union> set []. harmless c" by simp
    note quiet = carried_quiet [OF eq this p(3)]
    from permuted_datagrams [OF op(1) quiet p(3,4) r(2,3) that(2), of rnd t] obtain css' where
      "list_all2 (\<lambda>d cs. open_datagram X (p_config r) d = Ok cs) ds' css'" "\<forall>c \<in> set (concat css'). quiet c"
      "map delivered_as (map fst (snd (arrivals rnd r (map (\<lambda>c. (c, t)) (filter plain_data (concat css')))))) =
        [(p_remote_address r, data, del, ch)]" by (elim exE conjE) (rule that)
    then show ?thesis using datagrams_arrivals [of X "p_config r" ds' css' r r rnd t rnd] by simp
  qed
  then show ?thesis using fl sent by blast
qed

text \<open>Reliable data of more fragments than are allowed is queued as its first fragment, labelled as the only one.\<close>

lemma oversized_queued:
  assumes "byteorder_be X" "peer_inv p" "0 < payload_budget p 9" "payload_budget p 7 < length data"
    and "unat (max_fragments (p_config p)) * payload_budget p 9 < length data" "length data \<le> 255 * payload_budget p 9"
    and "room_for p (payload_budget p 9)"
  shows "\<exists>p1 cs. enqueue_reliable_data p ch data o_flag = Ok (p1, 0) \<and> queued_after X p p1 cs \<and>
    carried cs Reliable ch o_flag (take (payload_budget p 9) data)"
proof -
  let ?s = "payload_budget p 9"
  define cs where "cs = [SendFragment ch 0 o_flag 0 1 (view data 0 ?s)]"
  define p1 where "p1 = enqueue_all p cs"
  have "?s \<le> payload_budget p 7" by (simp add: payload_budget_def)
  moreover have "unat (max_fragments (p_config p)) < div_ceil (length data) ?s" "div_ceil (length data) ?s \<le> 255"
    using assms(3,5,6) by (simp_all add: div_ceil_le_iff not_le [symmetric])
  ultimately have off: "offered p data 7 9 (SendReliable ch 0 o_flag (sb_from_arc data)) (SendFragment ch 0 o_flag) = cs"
    using assms(3,4) by (simp add: offered_def cs_def Let_def)
  then have enq: "enqueue_reliable_data p ch data o_flag = Ok (p1, 0)"
    using assms(2) by (simp add: enqueue_reliable_offered peer_inv_def local_sequence_num_def p1_def)
  have wf: "sb_wf (view data 0 ?s)" using assms(4) \<open>?s \<le> payload_budget p 7\<close> by (intro view_wf) simp
  then have carry: "carried cs Reliable ch o_flag (take ?s data)"
    unfolding carries_def by (intro disjI2 exI [of _ "[view data 0 ?s]"]) (simp add: cs_def view_def sb_as_slice_def)
  have "data_size_of cs = ?s" by (simp add: cs_def data_size_of_def view_def)
  then have queue: "queue_of p1 = queue_of p @ cs" using assms(7) by (simp add: p1_def enqueue_all_room)
  have p1: "p_config p1 = p_config p" "peer_inv p1" using peer_inv_send_reliable [OF assms(2) enq] by (simp_all add: p1_def)
  have "command_wf c \<and> datagram_size X (p_config p) c \<le> fragment_datagram_cap p" if "c \<in> set cs" for c
    using that reliable_offered_fits [OF assms(1)] unfolding off [symmetric] by simp
  then have "queued_after X p p1 cs"
    using p1 queue carries_plain [OF carry] by (auto simp: queued_after_def p1_def fragment_datagram_cap_def peer_current_fragment_size_def)
  then show ?thesis using enq carry by blast
qed

section \<open>Properties\<close>

text \<open>
  C2: Reliable data reaches the other application. A peer with an empty queue that is given data within its fragment limit sends it
  completely at the next flush unless its bandwidth is used up, which cannot happen without a limit. Then a receiver with the same checksum setting
  that gets the datagrams, in any order, delivers exactly these bytes, once, on the same channel.
\<close>

theorem reliable_end_to_end:
  fixes rnd :: u16 and t :: instant
  assumes X: "byteorder_be X" "compressors_lossless X" "never_fails X (p_config p)" "receive_buffer_max_size (p_config p) \<le> 1537"
    and p: "peer_steps X (peer_new addr config time now sid cid) p" "queue_of p = []"
    and fits: "0 < payload_budget p 9" "length data \<le> unat (max_fragments (p_config p)) * payload_budget p 9"
      "room_for p (length data)"
    and r: "use_checksums (p_config r) = use_checksums (p_config p)" "hm_get (p_command_fragments r) 0 = None"
      "is_ordered \<longrightarrow> hm_get (p_channel_states r) ch = None"
  shows "\<exists>p1 q ds. enqueue_reliable_data p ch data is_ordered = Ok (p1, 0) \<and> flush_commands X p1 [] = Ok (q, map Send ds) \<and>
    (queue_of q = [] \<or> \<not> peer_can_send_within_bandwidth q \<and> bt_outgoing_limit (p_bandwidth_throttle p) \<noteq> 0) \<and>
    (\<forall>ds'. queue_of q = [] \<and> mset ds' = mset ds \<longrightarrow>
      map delivered_as (snd (receive_datagrams X rnd r ds' t)) = [(p_remote_address r, data, Reliable, ch)])"
proof -
  have inv: "peer_inv p" by (rule peer_steps_inv [OF p(1) peer_inv_new])
  from reliable_queued [OF X(1) inv fits] obtain p1 cs where enq: "enqueue_reliable_data p ch data is_ordered = Ok (p1, 0)"
    and cs: "queued_after X p p1 cs" "carried cs Reliable ch is_ordered data" by blast
  from sent_delivered [OF X p(2) cs _ r, of rnd t] enq show ?thesis by blast
qed

text \<open>
  C31: Reliable data that is too large is delivered in part. When the data needs more fragments than the configuration allows, though no more than 255, the sender accepts it,
  and the receiver delivers the bytes of the first fragment as a complete reliable packet; neither side can tell that the rest is missing.
\<close>

theorem oversized_payload_cut:
  fixes rnd :: u16 and t :: instant
  assumes X: "byteorder_be X" "compressors_lossless X" "never_fails X (p_config p)" "receive_buffer_max_size (p_config p) \<le> 1537"
    and p: "peer_steps X (peer_new addr config time now sid cid) p" "queue_of p = []"
    and large: "0 < payload_budget p 9" "payload_budget p 7 < length data"
      "unat (max_fragments (p_config p)) * payload_budget p 9 < length data" "length data \<le> 255 * payload_budget p 9"
      "room_for p (payload_budget p 9)"
    and r: "use_checksums (p_config r) = use_checksums (p_config p)" "hm_get (p_command_fragments r) 0 = None"
      "is_ordered \<longrightarrow> hm_get (p_channel_states r) ch = None"
  shows "\<exists>p1 q ds. enqueue_reliable_data p ch data is_ordered = Ok (p1, 0) \<and> flush_commands X p1 [] = Ok (q, map Send ds) \<and>
    (queue_of q = [] \<or> \<not> peer_can_send_within_bandwidth q \<and> bt_outgoing_limit (p_bandwidth_throttle p) \<noteq> 0) \<and>
    (\<forall>ds'. queue_of q = [] \<and> mset ds' = mset ds \<longrightarrow>
      map delivered_as (snd (receive_datagrams X rnd r ds' t)) = [(p_remote_address r, take (payload_budget p 9) data, Reliable, ch)])"
proof -
  have inv: "peer_inv p" by (rule peer_steps_inv [OF p(1) peer_inv_new])
  from oversized_queued [OF X(1) inv large] obtain p1 cs where enq: "enqueue_reliable_data p ch data is_ordered = Ok (p1, 0)"
    and cs: "queued_after X p p1 cs" "carried cs Reliable ch is_ordered (take (payload_budget p 9) data)" by blast
  from sent_delivered [OF X p(2) cs _ r, of rnd t] enq show ?thesis by blast
qed

text \<open>A sender without a bandwidth limit, as the command \<open>BandwidthLimit\<close> leaves it.\<close>

definition sample_sender :: peer where
  "sample_sender = fst (process_command 0 sample_peer (BandwidthLimit 0 0) 0)"

lemma sample_sender_eq:
  "sample_sender = sample_peer\<lparr>p_last_heard := 0, p_config := default_config\<lparr>incoming_bandwidth_limit := 0, outgoing_bandwidth_limit := 0\<rparr>,
     p_bandwidth_throttle := (p_bandwidth_throttle sample_peer)\<lparr>bt_incoming_limit := 0, bt_outgoing_limit := 0\<rparr>\<rparr>"
  by (simp add: sample_sender_def process_command_def proc_bandwidth_limit_def nothing_def Let_def
      set_incoming_bandwidth_limit_def set_outgoing_bandwidth_limit_def)

lemma sample_sender_steps: "peer_steps sample_ext (peer_new \<lparr>sa_ip = V4 0, sa_port = 1\<rparr> default_config 0 0 7 8) sample_sender"
proof -
  have "process_command 0 sample_peer (BandwidthLimit 0 0) 0 = (sample_sender, Ok zom_zero)"
    by (simp add: sample_sender_def process_command_def proc_bandwidth_limit_def nothing_def)
  from on_command [OF this, of sample_ext] show ?thesis by (simp add: sample_peer_def)
qed

lemma sample_sender_budget: "payload_budget sample_sender 9 = 1007" "payload_budget sample_sender 7 = 1009"
proof -
  have "payload_budget sample_sender h = payload_budget sample_peer h" for h
    by (simp add: payload_budget_def fragment_datagram_cap_def peer_current_fragment_size_def sample_sender_eq
        per_packet_overhead_def compression_overhead_def checksum_overhead_def default_config_def)
  moreover have "payload_budget sample_peer 7 = 1009" using sample_budget by (simp add: payload_budget_def)
  ultimately show "payload_budget sample_sender 9 = 1007" "payload_budget sample_sender 7 = 1009" by (simp_all add: sample_budget)
qed

lemma sample_sender_ready:
  "queue_of sample_sender = []" "never_fails sample_ext (p_config sample_sender)" "receive_buffer_max_size (p_config sample_sender) \<le> 1537"
  "bt_outgoing_limit (p_bandwidth_throttle sample_sender) = 0" "n \<le> 33554432 \<Longrightarrow> room_for sample_sender n" "unat (max_fragments (p_config sample_sender)) = 16"
  "use_checksums (p_config sample_peer) = use_checksums (p_config sample_sender)"
  "hm_get (p_command_fragments sample_peer) 0 = None" "True \<longrightarrow> hm_get (p_channel_states sample_peer) 0 = None"
  using sample_peer_simps(2)
  by (simp_all add: sample_sender_eq queue_of_def never_fails_uncompressed room_for_def default_config_def MAX_FRAGMENTS_DEFAULT_def DEFAULT_MTU_def)

theorem reliable_end_to_end_witness:
  "\<exists>p1 q ds. enqueue_reliable_data sample_sender 0 (replicate 3000 1) True = Ok (p1, 0) \<and>
    flush_commands sample_ext p1 [] = Ok (q, map Send ds) \<and> queue_of q = [] \<and>
    map delivered_as (snd (receive_datagrams sample_ext 5 sample_peer (rev ds) 9)) =
      [(p_remote_address sample_peer, replicate 3000 1, Reliable, 0)]"
proof -
  note s = sample_sender_ready
  have fits: "0 < payload_budget sample_sender 9"
    "length (replicate 3000 (1 :: u8)) \<le> unat (max_fragments (p_config sample_sender)) * payload_budget sample_sender 9"
    and room: "room_for sample_sender (length (replicate 3000 (1 :: u8)))"
    unfolding length_replicate by (simp_all add: sample_sender_budget s(5,6))
  from reliable_end_to_end [OF sample_ext_byteorder sample_ext_lossless s(2,3) sample_sender_steps s(1) fits room s(7-9), of 5 9]
  obtain p1 q ds where run: "enqueue_reliable_data sample_sender 0 (replicate 3000 1) True = Ok (p1, 0)"
    "flush_commands sample_ext p1 [] = Ok (q, map Send ds)" "queue_of q = []"
    and got: "\<forall>ds'. queue_of q = [] \<and> mset ds' = mset ds \<longrightarrow> map delivered_as
        (snd (receive_datagrams sample_ext 5 sample_peer ds' 9)) = [(p_remote_address sample_peer, replicate 3000 1, Reliable, 0)]"
    using s(4) by blast
  show ?thesis using run got [rule_format, of "rev ds"] by (intro exI [of _ p1] exI [of _ q] exI [of _ ds] conjI) simp_all
qed

theorem oversized_payload_cut_witness:
  "\<exists>p1 q ds. enqueue_reliable_data sample_sender 0 (replicate 20000 1) True = Ok (p1, 0) \<and>
    flush_commands sample_ext p1 [] = Ok (q, map Send ds) \<and> queue_of q = [] \<and>
    map delivered_as (snd (receive_datagrams sample_ext 5 sample_peer ds 9)) =
      [(p_remote_address sample_peer, replicate 1007 1, Reliable, 0)]"
proof -
  note s = sample_sender_ready and b = sample_sender_budget
  let ?d = "replicate 20000 (1 :: u8)"
  have large: "0 < payload_budget sample_sender 9" "payload_budget sample_sender 7 < length ?d"
    "unat (max_fragments (p_config sample_sender)) * payload_budget sample_sender 9 < length ?d" "length ?d \<le> 255 * payload_budget sample_sender 9"
    and room: "room_for sample_sender (payload_budget sample_sender 9)"
    unfolding length_replicate by (simp_all add: b s(5,6))
  from oversized_payload_cut [OF sample_ext_byteorder sample_ext_lossless s(2,3) sample_sender_steps s(1) large room s(7-9), of 5 9]
  obtain p1 q ds where run: "enqueue_reliable_data sample_sender 0 ?d True = Ok (p1, 0)"
    "flush_commands sample_ext p1 [] = Ok (q, map Send ds)" "queue_of q = []"
    and got: "\<forall>ds'. queue_of q = [] \<and> mset ds' = mset ds \<longrightarrow> map delivered_as (snd (receive_datagrams sample_ext 5 sample_peer ds' 9)) =
        [(p_remote_address sample_peer, take 1007 ?d, Reliable, 0)]"
    unfolding b(1) using s(4) by blast
  show ?thesis using run got [rule_format, of ds] by (intro exI [of _ p1] exI [of _ q] exI [of _ ds] conjI) (simp_all add: take_replicate)
qed

end
