(* ===== verification/Host_Exchange.thy ===== *)
theory Host_Exchange
  imports Host End_To_End
begin

text \<open>
  Two hosts: what the application of one host sends, the application of the other receives. The theory follows a packet through the user events of
  the sending manager, the session and its flush, the datagrams on the network, and the receive loop and the session of the other manager.
\<close>

section \<open>Packets among the events\<close>

definition packet_events :: "socket_event list \<Rightarrow> packet list" where
  "packet_events es = concat (map (\<lambda>e. case e of EvPacket k \<Rightarrow> [k] | _ \<Rightarrow> []) es)"

lemma packet_events_simps [simp]:
  "packet_events [] = []" "packet_events (es @ es') = packet_events es @ packet_events es'"
  "packet_events (e # es) = (case e of EvPacket k \<Rightarrow> [k] | _ \<Rightarrow> []) @ packet_events es"
  by (simp_all add: packet_events_def)

lemma actions_simps [simp]:
  "emits_of [] = []" "emits_of (as @ bs) = emits_of as @ emits_of bs" "emits_of (map Send ds) = []"
  "sends_of a (map Send ds) = map (Pair a) ds"
  "emits_of (Emit e # as) = e # emits_of as" "emits_of (map (\<lambda>x. Emit (f x)) xs) = map f xs"
  "packet_events (map (\<lambda>x. EvPacket (g x)) xs) = map g xs"
  by (simp_all add: emits_of_def sends_of_def packet_events_def comp_def)

section \<open>The receiving session\<close>

lemma open_nonempty: "open_datagram X c d = Ok cs \<Longrightarrow> d \<noteq> []"
  by (auto simp: open_datagram_def validate_and_strip_checksum_def decompress_def split: if_splits)

lemma session_receives:
  assumes "open_datagram X (p_config p) d = Ok cs" "\<forall>c \<in> set cs. quiet c" "delivery_view p = delivery_view r"
    and "bt_incoming_limit (p_bandwidth_throttle p) = 0"
  shows "\<exists>q acts. process_packet X env p d t = Ok (q, acts) \<and>
    packet_events (emits_of acts) = map fst (snd (arrivals rnd r (map (\<lambda>c. (c, t)) (filter plain_data cs)))) \<and>
    delivery_view q = delivery_view (fst (arrivals rnd r (map (\<lambda>c. (c, t)) (filter plain_data cs)))) \<and>
    p_config q = p_config p \<and> bt_incoming_limit (p_bandwidth_throttle q) = 0"
proof -
  let ?p = "peer_record_bytes_received (fst (peer_update_bandwidth_window p t)) (of_nat (length d))"
  let ?r = "arrivals rnd r (map (\<lambda>c. (c, t)) (filter plain_data cs))"
  have p: "p_config ?p = p_config p" "delivery_view ?p = delivery_view p" "bt_incoming_limit (p_bandwidth_throttle ?p) = 0"
    "peer_can_receive_within_bandwidth (fst (peer_update_bandwidth_window p t))"
    using assms(4) by (simp_all add: peer_defs delivery_view_def split_beta Let_def update_bandwidth_window_def
        record_bytes_received_def peer_can_receive_within_bandwidth_def can_receive_within_bandwidth_def)
  obtain q where q: "process_command_packet X (se_peer_id env) ?p d t = (q, Ok (zom_many (snd ?r)))"
    "delivery_view q = delivery_view (fst ?r)" "p_config q = p_config p" "bt_incoming_limit (p_bandwidth_throttle q) = 0"
    using quiet_datagram [of X ?p d cs r "se_peer_id env" t rnd] assms(1-3) p by auto
  have rec: "delivery_view (fst (record_recv q)) = delivery_view q" "settings (fst (record_recv q)) = settings q"
    by (simp_all add: record_recv_def delivery_view_def Let_def split: peer_state.split)
  show ?thesis
    using open_nonempty [OF assms(1)] q rec p(4)
    by (auto simp: process_packet_def Let_def split_beta)
qed

section \<open>The receiving manager\<close>

text \<open>
  A manager that follows the receiver \<open>r\<close> at an address: its session there delivers what \<open>r\<close> delivers, or there is none yet, \<open>r\<close> is fresh and a new
  session will be accepted.
\<close>

definition follows ::
  "(peer, packet, socket_event, 'i) session_manager \<Rightarrow> nat \<Rightarrow> socket_addr \<Rightarrow> config \<Rightarrow> peer \<Rightarrow> bool" where
  "follows m unestablished a config r \<longleftrightarrow> sm_config m = config \<and>
     (case hm_get (sm_sessions m) a of
        Some p \<Rightarrow> delivery_view p = delivery_view r \<and> p_config p = config \<and> bt_incoming_limit (p_bandwidth_throttle p) = 0
      | None \<Rightarrow> delivery_view r = (hm_empty, hm_empty, a) \<and> incoming_bandwidth_limit config = 0 \<and>
          unestablished < unat (sm_max_unestablished m) \<and> can_accept_duplicate m a)"

lemma follows_buffer [simp]: "follows (m\<lparr>sm_receive_buffer := b\<rparr>) u a config r = follows m u a config r"
  by (simp add: follows_def can_accept_duplicate_def count_of_def split: option.split)

lemma new_session_view:
  "delivery_view (peer_new a config t now s c) = (hm_empty, hm_empty, a)" "p_config (peer_new a config t now s c) = config"
  "bt_incoming_limit (p_bandwidth_throttle (peer_new a config t now s c)) = incoming_bandwidth_limit config"
  by (simp_all add: delivery_view_def peer_new_def bt_new_def)

abbreviation channels_of :: "(peer, packet, socket_event, 'i) session_manager \<Rightarrow> bytes \<times> packet list \<times> socket_event list" where
  "channels_of m \<equiv> (sm_receive_buffer m, sm_user_events m, sm_events m)"

lemma session_follows:
  assumes run: "packet_to_session (peer_ops X) envs t m u d a = Ok (m', u')" and f: "follows m u a config r"
    and cs: "open_datagram X config d = Ok cs" "\<forall>c \<in> set cs. quiet c"
  shows "follows m' u' a config (fst (arrivals rnd r (map (\<lambda>c. (c, t)) (filter plain_data cs)))) \<and> channels_of m' = channels_of m \<and>
    packet_events (sm_pending_events m') =
      packet_events (sm_pending_events m) @ map fst (snd (arrivals rnd r (map (\<lambda>c. (c, t)) (filter plain_data cs))))"
proof (cases "hm_get (sm_sessions m) a")
  case (Some p)
  then have p: "delivery_view p = delivery_view r" "p_config p = config" "bt_incoming_limit (p_bandwidth_throttle p) = 0"
    "sm_config m = config" using f by (simp_all add: follows_def)
  from session_receives [of X p d cs r "envs (sm_draws m)" t rnd] cs p show ?thesis
    using run Some by (auto simp: packet_to_session_def Let_def peer_ops_def follows_def handle_actions_result split: if_splits)
next
  case None
  let ?p = "create_session (sm_config m) a t (envs (sm_draws m))"
  have p: "delivery_view ?p = delivery_view r" "p_config ?p = config" "bt_incoming_limit (p_bandwidth_throttle ?p) = 0"
    "sm_config m = config" "u < unat (sm_max_unestablished m)" "can_accept_duplicate m a"
    using f None by (simp_all add: follows_def create_session_def new_session_view)
  have acc: "can_accept_duplicate (handle_actions (m\<lparr>sm_draws := n\<rparr>) a acts) a" for n acts
    using p(6) by (simp add: can_accept_duplicate_def count_of_def split: if_splits)
  from session_receives [of X ?p d cs r "envs (sm_draws m)" t rnd] cs p(1-3) show ?thesis
    using run None acc p(4,5)
    by (auto simp: packet_to_session_def Let_def peer_ops_def follows_def increment_duplicate_count_def
        handle_actions_result split: if_splits)
qed

lemma receive_one_no_op:
  "length d \<le> length (sm_receive_buffer m) \<Longrightarrow> receive_one ops no_op_interceptor envs t m u d a =
     res_bind (packet_to_session ops envs t (m\<lparr>sm_receive_buffer := d @ drop (length d) (sm_receive_buffer m)\<rparr>) u d a)
       (\<lambda>(m, u). Ok (m, u, True))"
  by (cases m) (simp add: receive_one_def no_op_interceptor_def Let_def)

lemma receive_loop_follows:
  assumes "list_all2 (\<lambda>d cs. open_datagram X config d = Ok cs) ds css" "\<forall>c \<in> set (concat css). quiet c"
    and "receive_loop (peer_ops X) no_op_interceptor envs False t m u (map (\<lambda>d. Received d a) ds) = Ok (m', u')"
    and "follows m u a config r" "\<forall>d \<in> set ds. length d \<le> length (sm_receive_buffer m)"
  shows "sm_user_events m' = sm_user_events m \<and> sm_events m' = sm_events m \<and> packet_events (sm_pending_events m') =
      packet_events (sm_pending_events m) @ map fst (snd (arrivals rnd r (map (\<lambda>c. (c, t)) (filter plain_data (concat css)))))"
  using assms
proof (induction ds css arbitrary: m u r rule: list_all2_induct)
  case (Cons d ds cs css)
  let ?m = "m\<lparr>sm_receive_buffer := d @ drop (length d) (sm_receive_buffer m)\<rparr>"
  have one: "receive_one (peer_ops X) no_op_interceptor envs t m u d a =
      res_bind (packet_to_session (peer_ops X) envs t ?m u d a) (\<lambda>(m, u). Ok (m, u, True))"
    by (rule receive_one_no_op) (simp add: Cons.prems(4))
  with Cons.prems(2) obtain m1 u1 where m1: "packet_to_session (peer_ops X) envs t ?m u d a = Ok (m1, u1)"
    "receive_loop (peer_ops X) no_op_interceptor envs False t m1 u1 (map (\<lambda>d. Received d a) ds) = Ok (m', u')"
    by (auto simp: res_bind_Ok_iff)
  have "follows ?m u a config r" "\<forall>c \<in> set cs. quiet c" using Cons.prems(1,3) by simp_all
  note s = session_follows [OF m1(1) this(1) Cons.hyps(1) this(2), of rnd]
  have "length (sm_receive_buffer m1) = length (sm_receive_buffer m)" using s Cons.prems(4) by simp
  then show ?case
    using Cons.IH [OF _ m1(2) conjunct1 [OF s]] Cons.prems(1,4) s by (auto simp: arrivals_append Let_def split_beta)
qed simp

section \<open>The rest of a poll\<close>

text \<open>Updating and dropping sessions reports no packet, and dropping sends nothing.\<close>

lemma no_emits: "\<forall>e. Emit e \<notin> set as \<Longrightarrow> emits_of as = []"
  by (auto simp: emits_of_def split: action.split)

lemma update_emits: "session_update X env p t = Ok (q, acts) \<Longrightarrow> emits_of acts = []"
  by (auto simp: session_update_def Let_def res_bind_Ok_iff intro!: no_emits dest: flush_no_event)

lemma drop_actions: "packet_events (emits_of (snd (should_drop p t))) = []" "sends_of a (snd (should_drop p t)) = []"
  by (auto simp: should_drop_def Let_def emits_of_def sends_of_def)

lemma update_loop_packets:
  "update_loop (peer_ops X) envs t m as = Ok m' \<Longrightarrow> sm_events m' = sm_events m \<and> sm_pending_events m' = sm_pending_events m"
proof (induction as arbitrary: m)
  case (Cons a as)
  show ?case
  proof (cases "hm_get (sm_sessions m) a")
    case (Some p)
    with Cons.prems obtain q acts where q: "session_update X (envs (sm_draws m)) p t = Ok (q, acts)"
      "update_loop (peer_ops X) envs t (handle_actions (m\<lparr>sm_draws := sm_draws m + 1, sm_sessions := hm_insert a q (sm_sessions m)\<rparr>) a acts) as = Ok m'"
      by (auto simp: res_bind_Ok_iff peer_ops_def Let_def)
    then show ?thesis using Cons.IH [OF q(2)] update_emits [OF q(1)] by (simp add: handle_actions_result)
  qed (use Cons in simp)
qed simp

lemma collect_actions:
  "packet_events (sm_pending_events (fst (foldl (collect_drop (peer_ops X) t) (m, ds) xs))) = packet_events (sm_pending_events m) \<and>
   sm_pending_sends (fst (foldl (collect_drop (peer_ops X) t) (m, ds) xs)) = sm_pending_sends m \<and>
   sm_events (fst (foldl (collect_drop (peer_ops X) t) (m, ds) xs)) = sm_events m \<and>
   sm_sent (fst (foldl (collect_drop (peer_ops X) t) (m, ds) xs)) = sm_sent m"
  by (induction xs arbitrary: m ds)
     (auto simp: collect_drop_def Let_def split_beta peer_ops_def handle_actions_result drop_actions)

lemma remove_actions:
  "remove_loop m as = Ok m' \<Longrightarrow> sm_pending_events m' = sm_pending_events m \<and> sm_pending_sends m' = sm_pending_sends m \<and>
     sm_events m' = sm_events m \<and> sm_sent m' = sm_sent m"
proof (induction as arbitrary: m)
  case (Cons a as)
  then obtain m1 where m1: "decrement_duplicate_count (m\<lparr>sm_sessions := hm_delete a (sm_sessions m)\<rparr>) a = Ok m1" "remove_loop m1 as = Ok m'"
    by (auto simp: Let_def res_bind_Ok_iff)
  from m1(1) have "sm_pending_events m1 = sm_pending_events m \<and> sm_pending_sends m1 = sm_pending_sends m \<and>
      sm_events m1 = sm_events m \<and> sm_sent m1 = sm_sent m"
    by (auto simp: decrement_duplicate_count_def Let_def split: option.splits if_splits)
  then show ?case using Cons.IH [OF m1(2)] by simp
qed simp

lemma poll_stages:
  assumes "sm_manual_poll (peer_ops X) no_op_interceptor envs bl m inputs t = Ok m'"
  obtains m1 u1 m2 u2 m3 where "receive_loop (peer_ops X) no_op_interceptor envs bl t m (unestablished_session_count (peer_ops X) m) inputs = Ok (m1, u1)"
    "user_loop (peer_ops X) envs t (m1\<lparr>sm_user_events := []\<rparr>) u1 (sm_user_events m1) = Ok (m2, u2)"
    "update_loop (peer_ops X) envs t m2 (hm_keys (sm_sessions m2)) = Ok m3"
    "sm_sent m' = sm_sent m3 @ sm_pending_sends m3"
    "packet_events (sm_events m') = packet_events (sm_events m3) @ packet_events (sm_pending_events m3)"
proof -
  obtain m1 u1 m2 u2 m3 m5 where r: "receive_loop (peer_ops X) no_op_interceptor envs bl t m (unestablished_session_count (peer_ops X) m) inputs = Ok (m1, u1)"
    "user_loop (peer_ops X) envs t (m1\<lparr>sm_user_events := []\<rparr>) u1 (sm_user_events m1) = Ok (m2, u2)"
    "update_loop (peer_ops X) envs t m2 (hm_keys (sm_sessions m2)) = Ok m3"
    "remove_loop (fst (foldl (collect_drop (peer_ops X) t) (m3, []) (sm_sessions m3)))
      (snd (foldl (collect_drop (peer_ops X) t) (m3, []) (sm_sessions m3))) = Ok m5" "m' = messenger_flush no_op_interceptor m5"
    using assms by (auto simp: sm_manual_poll_def Let_def res_bind_Ok_iff split_beta)
  show thesis
    using remove_actions [OF r(4)] collect_actions [of X t m3 "[]" "sm_sessions m3"] messenger_flush_in_order [of m5]
    by (intro that [OF r(1-3)]) (simp_all add: r(5))
qed

section \<open>A host receives\<close>

lemma host_receives:
  assumes X: "compressors_report X" "window_ordered config" "\<forall>n. fills (envs n)"
    and config: "incoming_bandwidth_limit config = 0" "0 < max_unestablished_connections config" "\<not> blocking_mode config"
    and ds: "list_all2 (\<lambda>d cs. open_datagram X config d = Ok cs) ds css" "\<forall>c \<in> set (concat css). quiet c"
      "\<forall>d \<in> set ds. length d \<le> receive_buffer_max_size config"
  shows "\<exists>h. host_manual_poll X no_op_interceptor envs (host_bind config ()) (map (\<lambda>d. Received d a) ds) t = Ok h \<and>
    packet_events (sm_events (h_handler h)) =
      map fst (snd (arrivals rnd (peer_new a config t t 0 0) (map (\<lambda>c. (c, t)) (filter plain_data (concat css)))))"
proof -
  let ?m = "sm_new config () :: (peer, packet, socket_event, unit) session_manager" and ?r = "peer_new a config t t 0 0"
  have "sm_inv (peer_cfg_ok X config) (peer_safe X) ?m" using X(1,2) by (simp add: sm_inv_new peer_cfg_ok_def)
  from peer_contract.poll_total [OF X(3) this, of no_op_interceptor False "map (\<lambda>d. Received d a) ds" t] obtain m' where
    m': "sm_manual_poll (peer_ops X) no_op_interceptor envs False ?m (map (\<lambda>d. Received d a) ds) t = Ok m'" by blast
  have f: "follows ?m (unestablished_session_count (peer_ops X) ?m) a config ?r"
    using config(1,2) by (simp add: follows_def sm_new_def new_session_view can_accept_duplicate_def count_of_def
        unestablished_session_count_def hm_empty_def hm_get_def word_less_nat_alt word_neq_0_conv)
  obtain m1 u1 m2 u2 m3 where s: "receive_loop (peer_ops X) no_op_interceptor envs False t ?m (unestablished_session_count (peer_ops X) ?m)
      (map (\<lambda>d. Received d a) ds) = Ok (m1, u1)"
    "user_loop (peer_ops X) envs t (m1\<lparr>sm_user_events := []\<rparr>) u1 (sm_user_events m1) = Ok (m2, u2)"
    "update_loop (peer_ops X) envs t m2 (hm_keys (sm_sessions m2)) = Ok m3"
    "packet_events (sm_events m') = packet_events (sm_events m3) @ packet_events (sm_pending_events m3)"
    using m' by (rule poll_stages) (rule that)
  have "\<forall>d \<in> set ds. length d \<le> length (sm_receive_buffer ?m)" using ds(3) by (simp add: sm_new_def)
  from receive_loop_follows [OF ds(1,2) s(1) f this, of rnd] s(2) update_loop_packets [OF s(3)] s(4)
  have "packet_events (sm_events m') = map fst (snd (arrivals rnd ?r (map (\<lambda>c. (c, t)) (filter plain_data (concat css)))))"
    by (auto simp: sm_new_def)
  then show ?thesis using m' config(3) by (simp add: host_manual_poll_def host_bind_def)
qed

section \<open>A host sends\<close>

text \<open>The first packet of a session goes behind the request for a connection, if there is one.\<close>

lemma first_send:
  fixes b config t now s c
  defines "p \<equiv> fst (record_send (peer_new b config t now s c))" and "p0 \<equiv> peer_new b config 0 0 0 0"
  assumes "byteorder_be X" "3 \<le> payload_budget p0 9"
  shows "peer_inv p" "p_config p = config" "\<forall>c \<in> set (queue_of p). harmless c \<and> datagram_size X config c \<le> fragment_datagram_cap p"
    "payload_budget p h = payload_budget p0 h" "room_for p n = (max_waiting_data config = 0 \<or> n \<le> max_waiting_data config)"
    "bt_outgoing_limit (p_bandwidth_throttle p) = outgoing_bandwidth_limit config" "p_next_unreliable_sequence p = 0"
proof -
  let ?q = "peer_new b config t now s c"
  have q: "p_state ?q = Idle" "p_config ?q = config" "p_outgoing_session_id ?q = s" "p_connect_id ?q = c" by (simp_all add: peer_new_def)
  have cases: "p = ?q\<lparr>p_state := Connecting\<rparr> \<or>
      p = fst (queue_command (?q\<lparr>p_state := Connecting\<rparr>) (Connect (channel_count config) 1400 1 s c))"
    by (simp add: p_def record_send_def initiate_connect_def Let_def q)
  have "peer_steps X ?q p" unfolding p_def using on_send by (rule r_into_rtranclp)
  then show "peer_inv p" by (rule peer_steps_inv [OF _ peer_inv_new])
  show cfg: "p_config p = config" using cases by (auto simp: queue_command_def split_beta peer_new_def)
  have cap: "fragment_datagram_cap p = fragment_datagram_cap p0"
    using cases by (auto simp: fragment_datagram_cap_def peer_current_fragment_size_def queue_command_def split_beta p0_def peer_new_def pm_new_def
        current_fragment_size_def)
  moreover have "p_config p0 = config" by (simp add: p0_def peer_new_def)
  ultimately show "payload_budget p h = payload_budget p0 h" for h by (simp add: payload_budget_def cfg)
  have "per_packet_overhead config + 2 + 12 \<le> fragment_datagram_cap p"
    using assms(4) cap by (simp add: payload_budget_def \<open>p_config p0 = config\<close>)
  then show "\<forall>c \<in> set (queue_of p). harmless c \<and> datagram_size X config c \<le> fragment_datagram_cap p"
    using cases assms(3)
    by (auto simp: queue_command_def split_beta queue_of_def peer_new_def cq_default_def cq_new_def cq_enqueue_def datagram_size_def
        encode_command_def wire_simps)
  show "room_for p n = (max_waiting_data config = 0 \<or> n \<le> max_waiting_data config)"
    using cases by (auto simp: room_for_def queue_command_def split_beta peer_new_def)
  show "bt_outgoing_limit (p_bandwidth_throttle p) = outgoing_bandwidth_limit config"
    using cases by (auto simp: queue_command_def split_beta peer_new_def bt_new_def)
  show "p_next_unreliable_sequence p = 0" using cases by (auto simp: queue_command_def split_beta peer_new_def)
qed

text \<open>The update of a session with an empty queue sends at most a heartbeat.\<close>

lemma idle_update:
  assumes X: "byteorder_be X" "compressors_lossless X" "never_fails X (p_config p)" "receive_buffer_max_size (p_config p) \<le> 1537"
    "use_checksums config = use_checksums (p_config p)" and p: "peer_safe X p" "queue_of p = []"
  shows "\<exists>q ds css. session_update X env p t = Ok (q, map Send ds) \<and> list_all2 (\<lambda>d cs. open_datagram X config d = Ok cs) ds css \<and>
    (\<forall>c \<in> set (concat css). harmless c) \<and> (\<forall>d \<in> set ds. length d \<le> receive_buffer_max_size (p_config p))"
proof -
  let ?p = "heartbeat env (fst (peer_update_bandwidth_window p t)) t"
  have steps: "peer_steps X p ?p"
    using heartbeat_steps on_bandwidth [of X p t] by (meson converse_rtranclp_into_rtranclp)
  have w: "queue_of (fst (peer_update_bandwidth_window p t)) = []" "p_config (fst (peer_update_bandwidth_window p t)) = p_config p"
    using p(2) by (simp_all add: peer_update_bandwidth_window_def queue_of_def split_beta)
  have cfg: "p_config ?p = p_config p" and ping: "\<forall>c \<in> set (queue_of ?p). harmless c"
    using w by (auto simp: heartbeat_def enqueue_ping_command_def enqueue_command_result split: option.split)
  have owned: "map owned (queue_of ?p) = queue_of ?p" using ping owned_harmless by (intro map_idI) blast
  have "peer_inv ?p" using steps p(1) by (auto simp: peer_safe_def intro: peer_steps_inv)
  with X cfg obtain q ds css where q: "flush_commands X ?p [] = Ok (q, map Send ds)"
    "list_all2 (\<lambda>d cs. open_datagram X config d = Ok cs) ds css" "concat css @ map owned (queue_of q) = queue_of ?p"
    "\<forall>d \<in> set ds. length d \<le> receive_buffer_max_size (p_config p)"
    using flush_result [of X ?p config "[]"] owned by auto
  obtain q' acts where u: "session_update X env p t = Ok (q', acts)" using update_total [OF p(1)] by blast
  then have "acts = map Send ds" by (auto simp: session_update_def Let_def q(1) res_bind_Ok_iff)
  moreover have "set (concat css) \<subseteq> set (queue_of ?p)" unfolding q(3) [symmetric] by simp
  ultimately show ?thesis using u q(2,4) ping by (intro exI [of _ q'] exI [of _ ds] exI [of _ css]) blast
qed

text \<open>
  Reliable packets count as ordered unless they ask for no order. Unreliable packets are sent without order, whatever they ask for, except for unsequenced ones, which are sent in another way.
\<close>

abbreviation ordered_as :: "delivery_guarantee \<Rightarrow> ordering_guarantee \<Rightarrow> bool" where
  "ordered_as del ord \<equiv> del = Reliable \<and> ord \<noteq> NoOrdering"

lemma event_queued:
  assumes "byteorder_be X" "peer_inv p" "0 < payload_budget p 9" "length data \<le> unat (max_fragments (p_config p)) * payload_budget p 9"
    and "room_for p (length data)" "p_next_unreliable_sequence p = 0" "del = Unreliable \<longrightarrow> ord \<noteq> Unsequenced"
  shows "\<exists>p1 cs. enqueue_event p (packet_new b data del ord ch) = Ok p1 \<and> queued_after X p p1 cs \<and> carried cs del ch (ordered_as del ord) data"
proof (cases del)
  case Reliable
  from reliable_queued [OF assms(1-5), of ch "ord \<noteq> NoOrdering"] obtain p1 cs where
    "enqueue_reliable_data p ch data (ord \<noteq> NoOrdering) = Ok (p1, 0)" "queued_after X p p1 cs" "carried cs Reliable ch (ord \<noteq> NoOrdering) data" by blast
  then show ?thesis by (intro exI [of _ p1] exI [of _ cs]) (simp add: enqueue_event_def packet_new_def Reliable)
next
  case Unreliable
  from unreliable_queued [OF assms(1-6), of ch] obtain p1 cs where
    u: "enqueue_unreliable_data p ch data = Ok (p1, 0)" "queued_after X p p1 cs" "carried cs Unreliable ch False data" by blast
  have "enqueue_event p (packet_new b data del ord ch) = Ok p1"
    using u(1) assms(7) Unreliable by (cases ord) (simp_all add: enqueue_event_def packet_new_def)
  then show ?thesis using u(2,3) by (intro exI [of _ p1] exI [of _ cs]) (simp add: Unreliable)
qed

lemma session_sends:
  fixes b config t now s c ord
  defines "p0 \<equiv> peer_new b config 0 0 0 0"
  assumes X: "byteorder_be X" "compressors_lossless X" "never_fails X config" "receive_buffer_max_size config \<le> 1537"
    and fits: "3 \<le> payload_budget p0 9" "length data \<le> unat (max_fragments config) * payload_budget p0 9"
      "max_waiting_data config = 0 \<or> length data \<le> max_waiting_data config" "outgoing_bandwidth_limit config = 0"
    and checksums: "use_checksums config' = use_checksums config" and ord: "del = Unreliable \<longrightarrow> ord \<noteq> Unsequenced"
  shows "\<exists>q ds css cs xs. process_event X (peer_new b config t now s c) (packet_new b data del ord ch) t = Ok (q, map Send ds) \<and>
    carried cs del ch (ordered_as del ord) data \<and>
    list_all2 (\<lambda>d cs. open_datagram X config' d = Ok cs) ds css \<and> concat css = xs @ map owned cs \<and> (\<forall>c \<in> set xs. harmless c) \<and>
    queue_of q = [] \<and> p_config q = config \<and> (\<forall>d \<in> set ds. length d \<le> receive_buffer_max_size config)"
proof -
  let ?p = "fst (record_send (peer_new b config t now s c))"
  note p = first_send [OF X(1) fits(1) [unfolded p0_def], of t now s c, folded p0_def]
  have pre: "never_fails X (p_config ?p)" "receive_buffer_max_size (p_config ?p) \<le> 1537"
    "\<forall>c \<in> set (queue_of ?p). harmless c \<and> datagram_size X (p_config ?p) c \<le> fragment_datagram_cap ?p"
    "0 < payload_budget ?p 9" "length data \<le> unat (max_fragments (p_config ?p)) * payload_budget ?p 9" "room_for ?p (length data)"
    "use_checksums config' = use_checksums (p_config ?p)"
    using X(3,4) fits checksums p by simp_all
  from event_queued [OF X(1) p(1) pre(4-6) p(7) ord, of b ch] obtain p1 cs where
    enq: "enqueue_event ?p (packet_new b data del ord ch) = Ok p1" "queued_after X ?p p1 cs" and cs: "carried cs del ch (ordered_as del ord) data" by blast
  from queued_sent [OF X(1,2) pre(1-3) enq(2) pre(7), of "[]"] obtain q ds css where
    fl: "flush_commands X p1 [] = Ok (q, map Send ds)"
    and op: "list_all2 (\<lambda>d cs. open_datagram X config' d = Ok cs) ds css" "concat css @ map owned (queue_of q) = queue_of ?p @ map owned cs"
    and sent: "queue_of q = []" "\<forall>d \<in> set ds. length d \<le> receive_buffer_max_size config"
    using p(2,6) fits(4) by auto
  have "process_event X (peer_new b config t now s c) (packet_new b data del ord ch) t = Ok (q, map Send ds)"
    using enq(1) fl record_send_flag [of "peer_new b config t now s c"] by (simp add: process_event_def split_beta Let_def)
  moreover have "p_config q = config" using flush_frame [OF fl] enq(2) p(2) by (simp add: queued_after_def)
  moreover have "concat css = queue_of ?p @ map owned cs" "\<forall>c \<in> set (queue_of ?p). harmless c" using op(2) sent(1) p(3) by simp_all
  ultimately show ?thesis using cs op(1) sent by blast
qed

lemma first_poll:
  assumes "compressors_report X" "window_ordered config" "\<forall>n. fills (envs n)" "packet_address k = b"
    and "process_event X (create_session config b t (envs 0)) k t = Ok (q, map Send ds)" "session_update X (envs 1) q t = Ok (q', map Send ds')"
  shows "\<exists>h. host_manual_poll X no_op_interceptor envs (host_send (host_bind config ()) k) [] t = Ok h \<and>
    sm_sent (h_handler h) = map (Pair b) (ds @ ds')"
proof -
  let ?m = "(sm_new config ())\<lparr>sm_user_events := [k]\<rparr> :: (peer, packet, socket_event, unit) session_manager"
  have "sm_inv (peer_cfg_ok X config) (peer_safe X) ?m" using assms(1,2) by (simp add: sm_inv_new peer_cfg_ok_def)
  from peer_contract.poll_total [OF assms(3) this, of no_op_interceptor "blocking_mode config" "[]" t] obtain m' where
    m': "sm_manual_poll (peer_ops X) no_op_interceptor envs (blocking_mode config) ?m [] t = Ok m'" by blast
  then obtain m2 u2 m3 where s: "user_loop (peer_ops X) envs t (?m\<lparr>sm_user_events := []\<rparr>) (unestablished_session_count (peer_ops X) ?m) [k] = Ok (m2, u2)"
    "update_loop (peer_ops X) envs t m2 (hm_keys (sm_sessions m2)) = Ok m3" "sm_sent m' = sm_sent m3 @ sm_pending_sends m3"
    by (rule poll_stages) (auto simp del: user_loop.simps)
  have acc: "can_accept_duplicate (?m\<lparr>sm_user_events := []\<rparr>) b"
    by (simp add: can_accept_duplicate_def count_of_def sm_new_def) (simp add: unat_gt_0)
  have m2: "sm_sessions m2 = [(b, q)]" "sm_pending_sends m2 = map (Pair b) ds" "sm_sent m2 = []" "sm_draws m2 = 1"
    using s(1) acc assms(4,5)
    by (auto simp: user_event_def Let_def peer_ops_def packet_address_def handle_actions_result increment_duplicate_count_def sm_new_def
        hm_empty_def hm_get_def hm_insert_def)
  have "sm_sent m3 = []" "sm_pending_sends m3 = map (Pair b) (ds @ ds')"
    using s(2) m2 assms(6) by (auto simp: hm_keys_def hm_get_def peer_ops_def Let_def handle_actions_result)
  then have sent: "sm_sent m' = map (Pair b) (ds @ ds')" using s(3) by simp
  then show ?thesis using m' by (simp add: host_manual_poll_def host_send_def host_bind_def sm_new_def)
qed

lemma host_sends:
  fixes b config t ord
  defines "p0 \<equiv> peer_new b config 0 0 0 0"
  assumes X: "byteorder_be X" "compressors_lossless X" "never_fails X config" "receive_buffer_max_size config \<le> 1537"
    and fits: "3 \<le> payload_budget p0 9" "length data \<le> unat (max_fragments config) * payload_budget p0 9"
      "max_waiting_data config = 0 \<or> length data \<le> max_waiting_data config" "outgoing_bandwidth_limit config = 0"
    and checksums: "use_checksums config' = use_checksums config" and ord: "del = Unreliable \<longrightarrow> ord \<noteq> Unsequenced"
    and total: "compressors_report X" "window_ordered config" "\<forall>n. fills (envs n)"
  shows "\<exists>h ds css cs. host_manual_poll X no_op_interceptor envs (host_send (host_bind config ()) (packet_new b data del ord ch)) [] t = Ok h \<and>
    sm_sent (h_handler h) = map (Pair b) ds \<and>
    carried cs del ch (ordered_as del ord) data \<and>
    list_all2 (\<lambda>d cs. open_datagram X config' d = Ok cs) ds css \<and> filter plain_data (concat css) = map owned cs \<and>
    (\<forall>c \<in> set (concat css). quiet c) \<and> (\<forall>d \<in> set ds. length d \<le> receive_buffer_max_size config)"
proof -
  let ?k = "packet_new b data del ord ch"
  let ?p = "create_session config b t (envs 0)"
  obtain q ds css cs xs where q: "process_event X ?p ?k t = Ok (q, map Send ds)" "queue_of q = []" "p_config q = config"
    and cs: "carried cs del ch (ordered_as del ord) data"
    and ds: "list_all2 (\<lambda>d cs. open_datagram X config' d = Ok cs) ds css" "concat css = xs @ map owned cs" "\<forall>c \<in> set xs. harmless c"
      "\<forall>d \<in> set ds. length d \<le> receive_buffer_max_size config"
    using session_sends [OF X fits [unfolded p0_def] checksums ord, of t "se_now (envs 0)" "se_session_id (envs 0)" "se_connect_id (envs 0)" ch]
    by (auto simp: create_session_def)
  have "peer_safe X ?p" using total by (simp add: peer_safe_def create_session_def peer_inv_new) (simp add: peer_new_def)
  then have safe: "peer_safe X q" by (rule steps_safe [OF process_event_steps [OF q(1)]])
  have X': "never_fails X (p_config q)" "receive_buffer_max_size (p_config q) \<le> 1537" "use_checksums config' = use_checksums (p_config q)"
    using X(3,4) checksums by (simp_all add: q(3))
  obtain q' ds' css' where u: "session_update X (envs 1) q t = Ok (q', map Send ds')" "list_all2 (\<lambda>d cs. open_datagram X config' d = Ok cs) ds' css'"
    "\<forall>c \<in> set (concat css'). harmless c" "\<forall>d \<in> set ds'. length d \<le> receive_buffer_max_size config"
    using idle_update [OF X(1,2) X' safe q(2), of "envs 1" t] by (auto simp: q(3))
  from first_poll [OF total _ q(1) u(1)] obtain h where
    h: "host_manual_poll X no_op_interceptor envs (host_send (host_bind config ()) ?k) [] t = Ok h" "sm_sent (h_handler h) = map (Pair b) (ds @ ds')"
    by (auto simp: packet_address_def packet_new_def)
  have all: "concat (css @ css') = xs @ map owned cs @ concat css'" using ds(2) by simp
  have "\<forall>c \<in> set xs \<union> set (concat css'). harmless c" using ds(3) u(3) by blast
  note quiet = carried_quiet [OF all this cs]
  show ?thesis
    using h cs quiet list_all2_appendI [OF ds(1) u(2)] ds(4) u(4)
    by (intro exI [of _ h] exI [of _ "ds @ ds'"] exI [of _ "css @ css'"] exI [of _ cs]) auto
qed

section \<open>Properties\<close>

text \<open>
  C1: A packet reaches the other application. An application hands a fresh host a packet for the address \<open>b\<close>, reliable or unreliable, ordered or not, and polls once. When
  neither side limits its bandwidth and the packet is within the fragment limit, the host sends datagrams to \<open>b\<close> only, and a fresh host that finds them in its
  socket, in any order, together with whatever handshake and heartbeat they contain, reports in its next poll exactly one packet: these bytes, with the same delivery guarantee,
  on the same channel, from the address the datagrams came from. Unsequenced packets are left out: the sender cuts them into packets of their own.
\<close>

theorem host_to_host:
  fixes t t' :: instant
  assumes X: "byteorder_be X" "compressors_lossless X" "compressors_report X" "never_fails X config"
    and sender: "window_ordered config" "\<forall>n. fills (envs n)" "outgoing_bandwidth_limit config = 0" "receive_buffer_max_size config \<le> 1537"
    and fits: "3 \<le> payload_budget (peer_new b config 0 0 0 0) 9"
      "length data \<le> unat (max_fragments config) * payload_budget (peer_new b config 0 0 0 0) 9"
      "max_waiting_data config = 0 \<or> length data \<le> max_waiting_data config"
    and receiver: "window_ordered config'" "\<forall>n. fills (envs' n)" "incoming_bandwidth_limit config' = 0"
      "0 < max_unestablished_connections config'" "\<not> blocking_mode config'"
      "use_checksums config' = use_checksums config" "receive_buffer_max_size config \<le> receive_buffer_max_size config'"
    and ord: "del = Unreliable \<longrightarrow> ord \<noteq> Unsequenced"
  shows "\<exists>h ds. host_manual_poll X no_op_interceptor envs (host_send (host_bind config ()) (packet_new b data del ord ch)) [] t = Ok h \<and>
    sm_sent (h_handler h) = map (Pair b) ds \<and>
    (\<forall>ds'. mset ds' = mset ds \<longrightarrow>
      (\<exists>h'. host_manual_poll X no_op_interceptor envs' (host_bind config' ()) (map (\<lambda>d. Received d a) ds') t' = Ok h' \<and>
        map delivered_as (packet_events (sm_events (h_handler h'))) = [(a, data, del, ch)]))"
proof -
  from host_sends [OF X(1,2,4) sender(4) fits sender(3) receiver(6) ord X(3) sender(1,2), of ch t] obtain h ds css cs where
    h: "host_manual_poll X no_op_interceptor envs (host_send (host_bind config ()) (packet_new b data del ord ch)) [] t = Ok h"
      "sm_sent (h_handler h) = map (Pair b) ds"
    and cs: "carried cs del ch (ordered_as del ord) data"
    and ds: "list_all2 (\<lambda>d cs. open_datagram X config' d = Ok cs) ds css" "filter plain_data (concat css) = map owned cs"
      "\<forall>c \<in> set (concat css). quiet c" "\<forall>d \<in> set ds. length d \<le> receive_buffer_max_size config"
    by (elim exE conjE) (rule that)
  let ?r = "peer_new a config' t' t' 0 0"
  have r: "hm_get (p_command_fragments ?r) 0 = None" "ordered_as del ord \<longrightarrow> hm_get (p_channel_states ?r) ch = None" "p_remote_address ?r = a"
    using new_session_view(1) [of a config' t' t' 0 0] by (simp_all add: delivery_view_def)
  have "\<exists>h'. host_manual_poll X no_op_interceptor envs' (host_bind config' ()) (map (\<lambda>d. Received d a) ds') t' = Ok h' \<and>
      map delivered_as (packet_events (sm_events (h_handler h'))) = [(a, data, del, ch)]" if perm: "mset ds' = mset ds" for ds'
  proof -
    from permuted_datagrams [OF ds(1-3) cs _ r(1,2) perm, of 0 t'] obtain css' where
      css': "list_all2 (\<lambda>d cs. open_datagram X config' d = Ok cs) ds' css'" "\<forall>c \<in> set (concat css'). quiet c"
      and got: "map delivered_as (map fst (snd (arrivals 0 ?r (map (\<lambda>c. (c, t')) (filter plain_data (concat css')))))) = [(a, data, del, ch)]"
      unfolding r(3) by auto
    have "\<forall>d \<in> set ds'. length d \<le> receive_buffer_max_size config'"
      using ds(4) receiver(7) mset_eq_setD [OF perm] by (auto intro: le_trans)
    from host_receives [OF X(3) receiver(1-5) css' this, of a t' 0] got show ?thesis by force
  qed
  then show ?thesis using h by blast
qed

text \<open>Two hosts with the default configuration but for the bandwidth limits.\<close>

definition sample_open_config :: config where
  "sample_open_config = default_config\<lparr>incoming_bandwidth_limit := 0, outgoing_bandwidth_limit := 0\<rparr>"

theorem host_to_host_witness:
  "\<exists>h ds h'. host_manual_poll sample_ext no_op_interceptor (\<lambda>n. sample_env) (host_send (host_bind sample_open_config ())
      (packet_new \<lparr>sa_ip = V4 0, sa_port = 2\<rparr> (replicate 3000 1) Reliable (Ordered None) 4)) [] 7 = Ok h \<and>
    sm_sent (h_handler h) = map (Pair \<lparr>sa_ip = V4 0, sa_port = 2\<rparr>) ds \<and>
    host_manual_poll sample_ext no_op_interceptor (\<lambda>n. sample_env) (host_bind sample_open_config ())
      (map (\<lambda>d. Received d \<lparr>sa_ip = V4 0, sa_port = 1\<rparr>) (rev ds)) 9 = Ok h' \<and>
    map delivered_as (packet_events (sm_events (h_handler h'))) = [(\<lparr>sa_ip = V4 0, sa_port = 1\<rparr>, replicate 3000 1, Reliable, 4)]"
proof -
  let ?c = sample_open_config and ?b = "\<lparr>sa_ip = V4 0, sa_port = 2\<rparr>" and ?a = "\<lparr>sa_ip = V4 0, sa_port = 1\<rparr>"
  have c: "window_ordered ?c" "outgoing_bandwidth_limit ?c = 0" "receive_buffer_max_size ?c \<le> 1537" "incoming_bandwidth_limit ?c = 0"
    "0 < max_unestablished_connections ?c" "\<not> blocking_mode ?c" "never_fails sample_ext ?c"
    "max_waiting_data ?c = 0 \<or> length (replicate 3000 (1 :: u8)) \<le> max_waiting_data ?c" "unat (max_fragments ?c) = unat (max_fragments default_config)"
    by (simp_all add: sample_open_config_def never_fails_uncompressed window_ordered_def default_config_def DEFAULT_MTU_def)
  have b: "payload_budget (peer_new ?b ?c 0 0 0 0) 9 = payload_budget sample_peer 9"
    by (simp add: payload_budget_def fragment_datagram_cap_def peer_current_fragment_size_def current_fragment_size_def peer_new_def sample_peer_def
        pm_new_def per_packet_overhead_def compression_overhead_def checksum_overhead_def default_config_def sample_open_config_def)
  have fits: "3 \<le> payload_budget (peer_new ?b ?c 0 0 0 0) 9"
    "length (replicate 3000 (1 :: u8)) \<le> unat (max_fragments ?c) * payload_budget (peer_new ?b ?c 0 0 0 0) 9"
    by (simp_all add: b sample_budget c(9)) (simp add: default_config_def MAX_FRAGMENTS_DEFAULT_def)
  have env: "\<forall>n. fills ((\<lambda>n :: nat. sample_env) n)" by (simp add: fills_def sample_env_def)
  have ord: "Reliable = Unreliable \<longrightarrow> Ordered None \<noteq> Unsequenced" by simp
  from host_to_host [OF sample_ext_byteorder sample_ext_lossless sample_ext_report c(7,1) env c(2,3) fits c(8,1) env c(4-6) refl le_refl ord,
      of 4 7 ?a 9]
  obtain h ds where h: "host_manual_poll sample_ext no_op_interceptor (\<lambda>n. sample_env) (host_send (host_bind ?c ())
      (packet_new ?b (replicate 3000 1) Reliable (Ordered None) 4)) [] 7 = Ok h" "sm_sent (h_handler h) = map (Pair ?b) ds"
    and got: "\<forall>ds'. mset ds' = mset ds \<longrightarrow>
      (\<exists>h'. host_manual_poll sample_ext no_op_interceptor (\<lambda>n. sample_env) (host_bind ?c ()) (map (\<lambda>d. Received d ?a) ds') 9 = Ok h' \<and>
        map delivered_as (packet_events (sm_events (h_handler h'))) = [(?a, replicate 3000 1, Reliable, 4)])"
    by (elim exE conjE) (rule that)
  from got [rule_format, of "rev ds"] h show ?thesis by (auto simp: exI)
qed

end
