(* ===== verification/Unreliable_Exchange.thy ===== *)
theory Unreliable_Exchange
  imports Peer_Session
begin

text \<open>
  Unreliable packets that ask for more than plain delivery. An unsequenced payload that does not fit a datagram is cut, but unlike fragments the pieces are not joined
  again: each becomes a packet of its own. A sequenced packet is sent as a plain unreliable one, so that the receiver cannot drop it when it is late.
\<close>

section \<open>The pieces that are queued\<close>

lemma enqueue_other_state:
  "fst (enqueue_command (p\<lparr>p_unsequenced_state := u\<rparr>) c) = (fst (enqueue_command p c))\<lparr>p_unsequenced_state := u\<rparr>"
  by (simp add: enqueue_command_def queue_command_def Let_def split_beta)

lemma enqueue_all_state [simp]: "p_unsequenced_state (enqueue_all p cs) = p_unsequenced_state p"
  unfolding enqueue_all_def
  by (induction cs arbitrary: p) (simp_all add: enqueue_command_def queue_command_def Let_def split_beta)

abbreviation chunk_command :: "u8 \<Rightarrow> bytes \<Rightarrow> nat \<Rightarrow> nat \<Rightarrow> protocol_command" where
  "chunk_command ch data s i \<equiv> SendUnsequenced ch (of_nat i) (piece data s i)"

lemma unsequenced_loop_result:
  assumes "0 < s" "outgoing_unsequenced_group (p_unsequenced_state p) = of_nat i" "i \<le> div_ceil (length data) s"
  shows "\<exists>u. unsequenced_loop ch (sb_from_arc data) s p (min (i * s) (length data)) =
    Ok ((enqueue_all p (map (chunk_command ch data s) [i..<div_ceil (length data) s]))\<lparr>p_unsequenced_state := u\<rparr>)"
  using assms(2,3)
proof (induction "div_ceil (length data) s - i" arbitrary: p i)
  case 0
  then have i: "i = div_ceil (length data) s" by simp
  then have "min (i * s) (length data) = length data" using div_ceil_upper [OF assms(1), of "length data"] by simp
  moreover have "unsequenced_loop ch (sb_from_arc data) s p (length data) = Ok (p\<lparr>p_unsequenced_state := p_unsequenced_state p\<rparr>)"
    by (subst unsequenced_loop.simps) (simp add: sb_from_arc_def)
  ultimately show ?case by (intro exI [of _ "p_unsequenced_state p"]) (simp add: i enqueue_all_def)
next
  case (Suc k)
  then have lt: "i < div_ceil (length data) s" by simp
  have off: "i * s < length data" by (rule div_ceil_lower [OF assms(1) lt])
  let ?c = "chunk_command ch data s i" and ?u = "(p_unsequenced_state p)\<lparr>outgoing_unsequenced_group := of_nat (Suc i)\<rparr>"
  let ?p = "(fst (enqueue_command p ?c))\<lparr>p_unsequenced_state := ?u\<rparr>"
  let ?len = "min (max 1 s) (length data - i * s)"
  have len: "?len = min ((i + 1) * s) (length data) - i * s" "i * s + ?len = min (Suc i * s) (length data)" using assms(1) off by simp_all
  have slice: "(sb_slice (sb_from_arc data) (i * s) ?len :: (error_kind, shared_bytes) res) = Ok (piece data s i)"
    unfolding len(1) by (rule slice_piece) (use off in simp)
  have base: "sb_len (sb_from_arc data) = length data" by (simp add: sb_from_arc_def)
  have grp: "next_unsequenced_group p = (p\<lparr>p_unsequenced_state := ?u\<rparr>, of_nat i)"
    using Suc.prems(1) by (simp add: next_unsequenced_group_def next_outgoing_group_def Let_def add.commute)
  have step: "unsequenced_loop ch (sb_from_arc data) s p (i * s) = unsequenced_loop ch (sb_from_arc data) s ?p (i * s + ?len)"
    by (subst unsequenced_loop.simps) (simp only: Let_def base if_P [OF off] slice res_bind.simps grp prod.case enqueue_other_state)
  have min: "min (i * s) (length data) = i * s" using off by simp
  have "\<exists>u. unsequenced_loop ch (sb_from_arc data) s ?p (min (Suc i * s) (length data)) =
      Ok ((enqueue_all ?p (map (chunk_command ch data s) [Suc i..<div_ceil (length data) s]))\<lparr>p_unsequenced_state := u\<rparr>)"
    by (rule Suc.hyps(1)) (use Suc.hyps(2) lt in simp_all)
  then obtain u where "unsequenced_loop ch (sb_from_arc data) s ?p (min (Suc i * s) (length data)) =
      Ok ((enqueue_all ?p (map (chunk_command ch data s) [Suc i..<div_ceil (length data) s]))\<lparr>p_unsequenced_state := u\<rparr>)" by blast
  moreover have "(enqueue_all (q\<lparr>p_unsequenced_state := v\<rparr>) cs)\<lparr>p_unsequenced_state := u\<rparr> = (enqueue_all q cs)\<lparr>p_unsequenced_state := u\<rparr>" for q cs u v
    unfolding enqueue_all_def by (induction cs arbitrary: q) (simp_all add: enqueue_other_state)
  ultimately show ?case
    unfolding min step len(2) using lt by (auto simp: upt_conv_Cons enqueue_all_def)
qed

lemma chunks_size: "0 < s \<Longrightarrow> data_size_of (map (chunk_command ch data s) [0..<div_ceil (length data) s]) = length data"
  using pieces_size [of s data] by (simp add: data_size_of_def comp_def)

lemma unsequenced_queued:
  assumes "0 < payload_budget p 6" "outgoing_unsequenced_group (p_unsequenced_state p) = 0" "room_for p (length data)"
  shows "\<exists>p1. enqueue_event p (packet_new b data Unreliable Unsequenced ch) = Ok p1 \<and>
    queue_of p1 = queue_of p @ map (chunk_command ch data (payload_budget p 6)) [0..<div_ceil (length data) (payload_budget p 6)]"
proof -
  let ?s = "payload_budget p 6" and ?cs = "map (chunk_command ch data (payload_budget p 6)) [0..<div_ceil (length data) (payload_budget p 6)]"
  have b: "fragment_datagram_cap p - per_packet_overhead (p_config p) - 2 - (1 + 1 + 2 + 2) = ?s" by (simp add: payload_budget_def)
  obtain u where "unsequenced_loop ch (sb_from_arc data) ?s p 0 = Ok ((enqueue_all p ?cs)\<lparr>p_unsequenced_state := u\<rparr>)"
    using unsequenced_loop_result [OF assms(1), of p 0 data ch] assms(2) by auto
  moreover have "queue_of ((enqueue_all p ?cs)\<lparr>p_unsequenced_state := u\<rparr>) = queue_of p @ ?cs"
    using enqueue_all_room [of p ?cs] assms(1,3) by (simp add: chunks_size) (simp add: queue_of_def)
  ultimately show ?thesis unfolding enqueue_event_def Let_def b by (simp add: packet_new_def)
qed

section \<open>The pieces that arrive\<close>

lemma piece_bytes: "sb_as_slice (piece d s i) = take s (drop (i * s) d)"
proof -
  have "min ((i + 1) * s) (length d) - i * s = min s (length (drop (i * s) d))" by auto
  then show ?thesis unfolding as_slice_piece by (metis take_all_iff take_take order_refl)
qed

text \<open>Groups of the first window that have not arrived yet are no duplicates, whatever the order.\<close>

lemma first_window:
  assumes "uns_inv u" "incoming_unsequenced_group u = 0" "uns_groups u = of_nat ` K" "K \<subseteq> {..<1024}" "i < 1024" "i \<notin> K"
  shows "\<not> is_duplicate u (of_nat i)" "uns_inv (mark_received u (of_nat i))" "incoming_unsequenced_group (mark_received u (of_nat i)) = 0"
    "uns_groups (mark_received u (of_nat i)) = of_nat ` insert i K"
proof -
  have "i mod 65536 = i" using assms(5) by simp
  then have i: "unat (of_nat i :: u16) = i" by (simp add: unat_of_nat)
  have "(of_nat i :: u16) \<noteq> of_nat k" if "k \<in> K" for k
  proof
    assume "(of_nat i :: u16) = of_nat k"
    then have "unat (of_nat i :: u16) = unat (of_nat k :: u16)" by simp
    moreover have "k < 1024" using that assms(4) by auto
    ultimately have "i = k" using i by (simp add: unat_of_nat)
    then show False using that assms(6) by simp
  qed
  then show "\<not> is_duplicate u (of_nat i)" using assms(1-3,5) i by (auto simp: is_duplicate_iff)
  show "uns_inv (mark_received u (of_nat i))" "incoming_unsequenced_group (mark_received u (of_nat i)) = 0"
    "uns_groups (mark_received u (of_nat i)) = of_nat ` insert i K"
    using mark_received_refines [OF assms(1), of "of_nat i"] assms(2,3,5) i by (simp_all add: uns_mark_def)
qed

lemma chunks_arrive:
  assumes "uns_inv (p_unsequenced_state r)" "incoming_unsequenced_group (p_unsequenced_state r) = 0"
    "uns_groups (p_unsequenced_state r) = of_nat ` K" "K \<inter> set zs = {}" "distinct zs" "K \<union> set zs \<subseteq> {..<1024}" "\<forall>i \<in> set zs. sb_wf (d i)"
  shows "map fst (snd (arrivals rnd r (map (\<lambda>i. (SendUnsequenced ch (of_nat i) (d i), t)) zs))) =
    map (\<lambda>i. packet_new (p_remote_address r) (sb_as_slice (d i)) Unreliable Unsequenced ch) zs"
  using assms
proof (induction zs arbitrary: r K)
  case (Cons i zs)
  let ?q = "(r\<lparr>p_last_heard := t\<rparr>)\<lparr>p_unsequenced_state := mark_received (p_unsequenced_state r) (of_nat i)\<rparr>"
  have "K \<subseteq> {..<1024}" "i < 1024" "i \<notin> K" using Cons.prems(4,6) by auto
  note w = first_window [OF Cons.prems(1-3) this]
  have one: "process_command rnd r (SendUnsequenced ch (of_nat i) (d i)) t =
      (?q, Ok (zom_one (packet_new (p_remote_address r) (sb_as_slice (d i)) Unreliable Unsequenced ch, PtPacket)))"
    using w(1) Cons.prems(7) by (simp add: process_command_def proc_send_unsequenced_def is_unsequenced_duplicate_def mark_unsequenced_received_def user_packet_def)
  have "map fst (snd (arrivals rnd ?q (map (\<lambda>i. (SendUnsequenced ch (of_nat i) (d i), t)) zs))) =
    map (\<lambda>i. packet_new (p_remote_address ?q) (sb_as_slice (d i)) Unreliable Unsequenced ch) zs"
    by (rule Cons.IH [where K = "insert i K"]) (use w Cons.prems in auto)
  then show ?case by (simp add: one Let_def split_beta)
qed simp

section \<open>Properties\<close>

text \<open>
  C32: An unsequenced packet does not arrive as one. A payload that does not fit a datagram is cut into as many pieces as needed, and a receiver that has seen no unsequenced packet yet
  reports each piece as a packet of its own, in the order of arrival; nothing tells the application which of them belong together. An empty payload is not sent at all.
\<close>

theorem unsequenced_split:
  fixes data :: bytes and rnd :: u16 and t :: instant
  defines "n \<equiv> \<lambda>p. div_ceil (length data) (payload_budget p 6)"
  assumes p: "0 < payload_budget p 6" "outgoing_unsequenced_group (p_unsequenced_state p) = 0" "room_for p (length data)" "queue_of p = []"
    and small: "n p \<le> 1024" and r: "p_unsequenced_state r = uns_new" and zs: "distinct zs" "set zs = {..<n p}"
  shows "\<exists>p1. enqueue_event p (packet_new b data Unreliable Unsequenced ch) = Ok p1 \<and> length (queue_of p1) = n p \<and>
    map (pk_payload \<circ> fst) (snd (arrivals rnd r (map (\<lambda>i. (owned (queue_of p1 ! i), t)) zs))) =
      map (\<lambda>i. take (payload_budget p 6) (drop (i * payload_budget p 6) data)) zs"
proof -
  let ?s = "payload_budget p 6"
  let ?d = "\<lambda>i. sb_owned (piece data ?s i)"
  obtain p1 where p1: "enqueue_event p (packet_new b data Unreliable Unsequenced ch) = Ok p1" "queue_of p1 = map (chunk_command ch data ?s) [0..<n p]"
    using unsequenced_queued [OF p(1-3), of b ch] by (auto simp: p(4) n_def)
  have wf: "sb_wf (piece data ?s i)" if "i \<in> set zs" for i using that zs(2) p(1) by (auto simp: n_def intro: piece_wf_ceil)
  have cmds: "map (\<lambda>i. (owned (queue_of p1 ! i), t)) zs = map (\<lambda>i. (SendUnsequenced ch (of_nat i) (?d i), t)) zs"
    using zs(2) by (simp add: p1(2))
  have "map fst (snd (arrivals rnd r (map (\<lambda>i. (SendUnsequenced ch (of_nat i) (?d i), t)) zs))) =
      map (\<lambda>i. packet_new (p_remote_address r) (sb_as_slice (?d i)) Unreliable Unsequenced ch) zs"
    by (rule chunks_arrive [where K = "{}"]) (use small zs r in \<open>simp_all add: sb_owned_def, auto simp: uns_new_def\<close>)
  then have "map pk_payload (map fst (snd (arrivals rnd r (map (\<lambda>i. (owned (queue_of p1 ! i), t)) zs)))) =
      map (\<lambda>i. take ?s (drop (i * ?s) data)) zs"
    unfolding cmds by (simp add: packet_new_def sb_owned_def piece_bytes)
  then show ?thesis using p1 by (simp add: comp_def)
qed

lemma sample_budget_unsequenced: "payload_budget sample_peer 6 = 1010"
  using sample_budget by (simp add: payload_budget_def)

theorem unsequenced_split_witness:
  "\<exists>p1. enqueue_event sample_peer (packet_new \<lparr>sa_ip = V4 0, sa_port = 1\<rparr> (replicate 3000 1) Unreliable Unsequenced 0) = Ok p1 \<and>
    map (length \<circ> pk_payload \<circ> fst) (snd (arrivals 5 sample_peer (map (\<lambda>i. (owned (queue_of p1 ! i), 9)) [2, 0, 1]))) = [980, 1010, 1010]"
proof -
  let ?b = "payload_budget sample_peer 6" and ?d = "replicate 3000 (1 :: u8)"
  have n: "div_ceil (length ?d) ?b = 3" unfolding length_replicate by (simp add: sample_budget_unsequenced div_ceil_def)
  have u: "p_unsequenced_state sample_peer = uns_new" by (simp add: sample_peer_def peer_new_def)
  have p: "0 < ?b" "outgoing_unsequenced_group (p_unsequenced_state sample_peer) = 0" "room_for sample_peer (length ?d)" "queue_of sample_peer = []"
    "div_ceil (length ?d) ?b \<le> 1024" "distinct [2, 0, 1 :: nat]" "set [2, 0, 1] = {..<div_ceil (length ?d) ?b}"
    unfolding n by (auto simp: sample_budget_unsequenced u uns_new_def room_for_def default_config_def)
  from unsequenced_split [OF p(1-5) u p(6,7), of "\<lparr>sa_ip = V4 0, sa_port = 1\<rparr>" 0 5 9] obtain p1 where
    p1: "enqueue_event sample_peer (packet_new \<lparr>sa_ip = V4 0, sa_port = 1\<rparr> ?d Unreliable Unsequenced 0) = Ok p1"
    and got: "map (pk_payload \<circ> fst) (snd (arrivals 5 sample_peer (map (\<lambda>i. (owned (queue_of p1 ! i), 9)) [2, 0, 1]))) =
      map (\<lambda>i. take ?b (drop (i * ?b) ?d)) [2, 0, 1]" by blast
  from arg_cong [OF got, of "map length"]
  have "map (length \<circ> pk_payload \<circ> fst) (snd (arrivals 5 sample_peer (map (\<lambda>i. (owned (queue_of p1 ! i), 9)) [2, 0, 1]))) =
      map (\<lambda>i. min ?b (3000 - i * ?b)) [2, 0, 1]" by (simp add: comp_def)
  then show ?thesis using p1 by (auto simp: sample_budget_unsequenced)
qed

text \<open>
  C33: Sequencing is not enforced. Of two unreliable packets for which the application asked that late ones be dropped, the receiver delivers both when the second overtakes the first,
  the older one last: the sender queues them without a number, as it does for packets that ask for no order.
\<close>

theorem sequenced_not_enforced:
  fixes rnd :: u16
  assumes p: "0 < payload_budget p 4" "length d1 \<le> payload_budget p 4" "length d2 \<le> payload_budget p 4"
    "room_for p (length d1 + length d2)" "queue_of p = []"
  shows "\<exists>p1 p2. enqueue_event p (packet_new b d1 Unreliable (Sequenced s) ch) = Ok p1 \<and>
    enqueue_event p1 (packet_new b d2 Unreliable (Sequenced s) ch) = Ok p2 \<and> length (queue_of p2) = 2 \<and>
    map (pk_payload \<circ> fst) (snd (arrivals rnd r [(owned (queue_of p2 ! 1), t1), (owned (queue_of p2 ! 0), t2)])) = [d2, d1]"
proof -
  have enq: "enqueue_event q (packet_new b d Unreliable (Sequenced s) ch) =
      Ok (fst (enqueue_command (q\<lparr>p_next_unreliable_sequence := p_next_unreliable_sequence q + 1\<rparr>) (SendUnreliable ch (sb_from_arc d))))"
    if "0 < payload_budget q 4" "length d \<le> payload_budget q 4" for q d
  proof -
    have "payload_budget (q\<lparr>p_next_unreliable_sequence := n\<rparr>) 4 = payload_budget q 4" for n
      by (simp add: payload_budget_def fragment_datagram_cap_def peer_current_fragment_size_def)
    then show ?thesis using that by (simp add: enqueue_event_def packet_new_def enqueue_unreliable_offered offered_def Let_def enqueue_all_def)
  qed
  define p1 where "p1 = fst (enqueue_command (p\<lparr>p_next_unreliable_sequence := p_next_unreliable_sequence p + 1\<rparr>) (SendUnreliable ch (sb_from_arc d1)))"
  define p2 where "p2 = fst (enqueue_command (p1\<lparr>p_next_unreliable_sequence := p_next_unreliable_sequence p1 + 1\<rparr>) (SendUnreliable ch (sb_from_arc d2)))"
  have budget: "payload_budget p1 4 = payload_budget p 4"
    by (simp add: p1_def enqueue_command_def queue_command_def Let_def split_beta payload_budget_def fragment_datagram_cap_def peer_current_fragment_size_def)
  have q: "queue_of (q\<lparr>p_next_unreliable_sequence := n\<rparr>) = queue_of q" for q n by (simp add: queue_of_def)
  have "queue_of p2 = [SendUnreliable ch (sb_from_arc d1), SendUnreliable ch (sb_from_arc d2)]"
    using p(4,5) by (auto simp: p2_def p1_def enqueue_command_result room_for_def would_exceed_def q)
  moreover have "enqueue_event p (packet_new b d1 Unreliable (Sequenced s) ch) = Ok p1" unfolding p1_def by (rule enq [OF p(1,2)])
  moreover have "enqueue_event p1 (packet_new b d2 Unreliable (Sequenced s) ch) = Ok p2" unfolding p2_def by (rule enq) (simp_all add: budget p(1,3))
  ultimately show ?thesis
    by (intro exI [of _ p1] exI [of _ p2]) (simp add: process_command_def proc_send_unreliable_def user_packet_def packet_new_def sb_owned_def)
qed

theorem sequenced_not_enforced_witness:
  "\<exists>p1 p2. enqueue_event sample_peer (packet_unreliable_sequenced \<lparr>sa_ip = V4 0, sa_port = 1\<rparr> [1] None) = Ok p1 \<and>
    enqueue_event p1 (packet_unreliable_sequenced \<lparr>sa_ip = V4 0, sa_port = 1\<rparr> [2] None) = Ok p2 \<and>
    map (pk_payload \<circ> fst) (snd (arrivals 5 sample_peer [(owned (queue_of p2 ! 1), 8), (owned (queue_of p2 ! 0), 9)])) = [[2], [1]]"
proof -
  have b: "payload_budget sample_peer 4 = 1012" using sample_budget by (simp add: payload_budget_def)
  have "0 < payload_budget sample_peer 4" "length [1 :: u8] \<le> payload_budget sample_peer 4" "length [2 :: u8] \<le> payload_budget sample_peer 4"
    "room_for sample_peer (length [1 :: u8] + length [2 :: u8])" "queue_of sample_peer = []"
    by (simp_all add: b room_for_def) (simp add: default_config_def)
  from sequenced_not_enforced [OF this, of "\<lparr>sa_ip = V4 0, sa_port = 1\<rparr>" None 0 5 sample_peer 8 9] show ?thesis
    by (auto simp: packet_unreliable_sequenced_def packet_new_def)
qed

end
