(* ===== verification/Ordered_Stream.thy ===== *)
theory Ordered_Stream
  imports End_To_End
begin

text \<open>
  A stream of ordered packets from the sender's application to the receiver's. The sender takes the number of a reliable packet from a counter that nothing advances
  (\<^verbatim>\<open>bitfold-peer/src/peer/fragmenter.rs\<close>, \<^verbatim>\<open>bitfold-protocol/src/acknowledgment.rs\<close>), so the receiver sees number 0 every time.
\<close>

section \<open>The sender\<close>

text \<open>An application that sends payloads one after another as ordered packets on a channel.\<close>

fun enqueue_stream :: "peer \<Rightarrow> u8 \<Rightarrow> bytes list \<Rightarrow> (error_kind, peer) res" where
  "enqueue_stream p ch [] = Ok p"
| "enqueue_stream p ch (d # ds) = res_bind (enqueue_reliable_data p ch d True) (\<lambda>(p, _). enqueue_stream p ch ds)"

lemma queued_after_refl: "peer_inv p \<Longrightarrow> queued_after X p p []"
  by (simp add: queued_after_def)

lemma queued_after_trans: "queued_after X p p1 cs \<Longrightarrow> queued_after X p1 p2 cs' \<Longrightarrow> queued_after X p p2 (cs @ cs')"
  by (auto simp: queued_after_def)

lemma queued_after_budget: "queued_after X p p1 cs \<Longrightarrow> payload_budget p1 h = payload_budget p h"
  by (simp add: queued_after_def payload_budget_def)

lemma queued_after_room:
  assumes "queued_after X p p1 cs" "peer_inv p" "room_for p (data_size_of cs + n)"
  shows "room_for p1 n"
  using assms by (auto simp: queued_after_def peer_inv_def waiting_inv_def room_for_def data_size_of_def)

lemma single_queued:
  assumes "byteorder_be X" "peer_inv p" "0 < payload_budget p 7" "length d \<le> payload_budget p 7" "room_for p (length d)"
  shows "\<exists>p1. enqueue_reliable_data p ch d o_flag = Ok (p1, 0) \<and> queued_after X p p1 [SendReliable ch 0 o_flag (sb_from_arc d)]"
proof -
  let ?c = "SendReliable ch 0 o_flag (sb_from_arc d)"
  define p1 where "p1 = enqueue_all p [?c]"
  have off: "offered p d 7 9 ?c (SendFragment ch 0 o_flag) = [?c]" using assms(3,4) by (simp add: offered_def)
  then have enq: "enqueue_reliable_data p ch d o_flag = Ok (p1, 0)"
    using assms(2) by (simp add: enqueue_reliable_offered peer_inv_def local_sequence_num_def p1_def)
  have "queue_of p1 = queue_of p @ [?c]" unfolding p1_def using assms(5) by (intro enqueue_all_room) (simp add: data_size_of_def)
  moreover have "p_config p1 = p_config p" "peer_inv p1" using peer_inv_send_reliable [OF assms(2) enq] by (simp_all add: p1_def)
  moreover have "command_wf ?c \<and> datagram_size X (p_config p) ?c \<le> fragment_datagram_cap p"
    using reliable_offered_fits [OF assms(1), of ?c p d ch 0 o_flag] unfolding off by simp
  ultimately have "queued_after X p p1 [?c]"
    by (simp add: queued_after_def p1_def fragment_datagram_cap_def peer_current_fragment_size_def)
  then show ?thesis using enq by blast
qed

lemma stream_queued:
  assumes "byteorder_be X" "peer_inv p" "0 < payload_budget p 7" "\<forall>d \<in> set ds. length d \<le> payload_budget p 7"
    "room_for p (sum_list (map length ds))"
  shows "\<exists>p1. enqueue_stream p ch ds = Ok p1 \<and> queued_after X p p1 (map (\<lambda>d. SendReliable ch 0 True (sb_from_arc d)) ds)"
  using assms(2-)
proof (induction ds arbitrary: p)
  case (Cons d ds)
  let ?c = "SendReliable ch 0 True (sb_from_arc d)"
  have "room_for p (length d)" using Cons.prems(4) by (auto simp: room_for_def)
  moreover have "length d \<le> payload_budget p 7" using Cons.prems(3) by simp
  ultimately obtain p1 where p1: "enqueue_reliable_data p ch d True = Ok (p1, 0)" "queued_after X p p1 [?c]"
    using single_queued [OF assms(1) Cons.prems(1,2), of d ch True] by blast
  have "peer_inv p1" using p1(2) by (simp add: queued_after_def)
  moreover have "room_for p1 (sum_list (map length ds))"
    using queued_after_room [OF p1(2) Cons.prems(1)] Cons.prems(4) by (simp add: data_size_of_def)
  ultimately obtain p2 where
    "enqueue_stream p1 ch ds = Ok p2" "queued_after X p1 p2 (map (\<lambda>d. SendReliable ch 0 True (sb_from_arc d)) ds)"
    using Cons.IH [of p1] Cons.prems(2,3) by (auto simp: queued_after_budget [OF p1(2)])
  then show ?case using p1(1) queued_after_trans [OF p1(2)] by fastforce
qed (simp add: queued_after_refl)

section \<open>The receiver\<close>

lemma zeros_deliver_first:
  assumes "hm_get (p_channel_states r) ch = None" "xs \<noteq> []" "\<forall>d \<in> set xs. sb_wf d"
  shows "map delivered_as (map fst (snd (arrivals rnd r (map (\<lambda>c. (c, t)) (map (\<lambda>d. SendReliable ch 0 True d) xs))))) =
    [(p_remote_address r, sb_as_slice (hd xs), Reliable, ch)]"
proof -
  obtain d rest where xs: "xs = d # rest" using assms(2) by (cases xs) auto
  from first_zero [OF assms(1), of d rnd t] assms(3) obtain p' z where
    p': "process_command rnd r (SendReliable ch 0 True d) t = (p', Ok z)" "waits_for_one p' ch" by (auto simp: xs)
  have "map delivered_as (map fst (snd (arrivals rnd r [(data_command Reliable ch 0 True d, t)]))) =
      [(p_remote_address r, sb_as_slice d, Reliable, ch)]"
    using assms(1,3) by (intro single_delivered) (simp_all add: xs)
  moreover have "snd (arrivals rnd p' (map (\<lambda>c. (c, t)) (map (\<lambda>d. SendReliable ch 0 True d) rest))) = []"
    using zeros_ignored [OF p'(2), of rnd "map (\<lambda>d. (d, t)) rest"] by (simp add: comp_def)
  ultimately show ?thesis by (simp add: xs p'(1) split_beta)
qed

lemma stream_received:
  assumes "list_all2 (\<lambda>d cs. open_datagram X (p_config r) d = Ok cs) ds css"
    and "concat css = map owned (map (\<lambda>d. SendReliable ch 0 True (sb_from_arc d)) payloads)"
    and "hm_get (p_channel_states r) ch = None" "payloads \<noteq> []"
  shows "map delivered_as (snd (receive_datagrams X rnd r ds t)) = [(p_remote_address r, hd payloads, Reliable, ch)]"
proof -
  let ?xs = "map (\<lambda>d. sb_owned (sb_from_arc d)) payloads"
  have css: "concat css = map (\<lambda>d. SendReliable ch 0 True d) ?xs" by (simp add: assms(2))
  then have q: "\<forall>c \<in> set (concat css). quiet c" "filter plain_data (concat css) = map (\<lambda>d. SendReliable ch 0 True d) ?xs"
    by (auto simp: quiet_def filter_id_conv)
  have "snd (receive_datagrams X rnd r ds t) = map fst (snd (arrivals rnd r (map (\<lambda>c. (c, t)) (filter plain_data (concat css)))))"
    by (rule datagrams_arrivals [OF assms(1) q(1)]) simp_all
  moreover have "sb_as_slice (hd ?xs) = hd payloads" using assms(4) by (simp add: hd_map sb_owned_def)
  ultimately show ?thesis
    using zeros_deliver_first [OF assms(3), of ?xs rnd t] assms(4) by (simp add: q(2) sb_owned_def del: map_map)
qed

section \<open>Properties\<close>

text \<open>
  C35: Of a stream of ordered packets only one is ever delivered. When an application gives a session with an empty queue payloads that each fit a datagram as ordered packets on one channel, the flush sends them
  all unless the bandwidth is used up, and a receiver that has not used the channel delivers the first of them and drops all others; when the datagrams arrive in another order, it delivers
  exactly one of the payloads. The sender numbers all of them 0.
\<close>

theorem ordered_stream_stalls:
  fixes rnd :: u16 and t :: instant
  assumes X: "byteorder_be X" "compressors_lossless X" "never_fails X (p_config p)" "receive_buffer_max_size (p_config p) \<le> 1537"
    and p: "peer_steps X (peer_new addr config time now sid cid) p" "queue_of p = []"
    and fits: "0 < payload_budget p 7" "\<forall>d \<in> set payloads. length d \<le> payload_budget p 7"
      "room_for p (sum_list (map length payloads))" "payloads \<noteq> []"
    and r: "use_checksums (p_config r) = use_checksums (p_config p)" "hm_get (p_channel_states r) ch = None"
  shows "\<exists>p1 q ds. enqueue_stream p ch payloads = Ok p1 \<and> flush_commands X p1 [] = Ok (q, map Send ds) \<and>
    (queue_of q = [] \<or> \<not> peer_can_send_within_bandwidth q \<and> bt_outgoing_limit (p_bandwidth_throttle p) \<noteq> 0) \<and>
    (queue_of q = [] \<longrightarrow>
      map delivered_as (snd (receive_datagrams X rnd r ds t)) = [(p_remote_address r, hd payloads, Reliable, ch)]) \<and>
    (\<forall>ds'. queue_of q = [] \<and> mset ds' = mset ds \<longrightarrow> (\<exists>d \<in> set payloads.
      map delivered_as (snd (receive_datagrams X rnd r ds' t)) = [(p_remote_address r, d, Reliable, ch)]))"
proof -
  let ?f = "\<lambda>d. SendReliable ch 0 True (sb_from_arc d)"
  have inv: "peer_inv p" by (rule peer_steps_inv [OF p(1) peer_inv_new])
  from stream_queued [OF X(1) inv fits(1-3)] obtain p1 where
    p1: "enqueue_stream p ch payloads = Ok p1" "queued_after X p p1 (map ?f payloads)" by blast
  have none: "\<forall>c \<in> set (queue_of p). harmless c \<and> datagram_size X (p_config p) c \<le> fragment_datagram_cap p" by (simp add: p(2))
  from queued_sent [OF X none p1(2) r(1), of "[]"] obtain q ds css where
    fl: "flush_commands X p1 [] = Ok (q, map Send ds)"
    and op: "list_all2 (\<lambda>d cs. open_datagram X (p_config r) d = Ok cs) ds css"
      "concat css @ map owned (queue_of q) = map owned (map ?f payloads)"
    and sent: "queue_of q = [] \<or> \<not> peer_can_send_within_bandwidth q \<and> bt_outgoing_limit (p_bandwidth_throttle p) \<noteq> 0"
    by (auto simp: p(2))
  have "\<exists>d \<in> set payloads. map delivered_as (snd (receive_datagrams X rnd r ds' t)) = [(p_remote_address r, d, Reliable, ch)]"
    if "queue_of q = []" "mset ds' = mset ds" for ds'
  proof -
    from permuted_opened [OF op(1) that(2)] obtain css' where
      css': "list_all2 (\<lambda>d cs. open_datagram X (p_config r) d = Ok cs) ds' css'" "mset (concat css') = mset (concat css)" by blast
    then have "mset (concat css') = mset (map (\<lambda>d. owned (?f d)) payloads)" using op(2) that(1) by (simp add: comp_def)
    from mset_map_preimage [OF this] obtain zs where zs: "mset zs = mset payloads" "concat css' = map owned (map ?f zs)"
      by (auto simp: comp_def)
    then have "zs \<noteq> []" using fits(4) by auto
    then have "hd zs \<in> set payloads" using mset_eq_setD [OF zs(1)] by (metis hd_in_set)
    then show ?thesis using stream_received [OF css'(1) zs(2) r(2) \<open>zs \<noteq> []\<close>] by blast
  qed
  then show ?thesis using p1(1) fl sent op stream_received [OF op(1) _ r(2) fits(4)] by auto
qed

theorem ordered_stream_stalls_witness:
  "\<exists>p1 q ds. enqueue_stream sample_sender 0 [[1, 2], [3], [4, 5, 6]] = Ok p1 \<and> flush_commands sample_ext p1 [] = Ok (q, map Send ds) \<and>
    queue_of q = [] \<and>
    map delivered_as (snd (receive_datagrams sample_ext 5 sample_peer ds 9)) = [(p_remote_address sample_peer, [1, 2], Reliable, 0)]"
proof -
  note s = sample_sender_ready
  let ?ps = "[[1, 2], [3], [4, 5, 6]] :: bytes list"
  have fits: "0 < payload_budget sample_sender 7" "\<forall>d \<in> set ?ps. length d \<le> payload_budget sample_sender 7"
    "room_for sample_sender (sum_list (map length ?ps))" "?ps \<noteq> []"
    by (simp_all add: sample_sender_budget s(5))
  from ordered_stream_stalls [OF sample_ext_byteorder sample_ext_lossless s(2,3) sample_sender_steps s(1) fits s(7) mp [OF s(9) TrueI], of 5 9]
  obtain p1 q ds where run: "enqueue_stream sample_sender 0 ?ps = Ok p1" "flush_commands sample_ext p1 [] = Ok (q, map Send ds)"
    and all: "queue_of q = [] \<or> \<not> peer_can_send_within_bandwidth q \<and> bt_outgoing_limit (p_bandwidth_throttle sample_sender) \<noteq> 0"
    and got: "queue_of q = [] \<longrightarrow> map delivered_as (snd (receive_datagrams sample_ext 5 sample_peer ds 9)) =
      [(p_remote_address sample_peer, hd ?ps, Reliable, 0)]"
    by (elim exE conjE) (rule that)
  have empty: "queue_of q = []" using all s(4) by simp
  note mp [OF got empty, unfolded list.sel]
  then show ?thesis by (intro exI [of _ p1] exI [of _ q] exI [of _ ds] conjI run empty)
qed

end
