(* ===== verification/Session_Bandwidth.thy ===== *)
theory Session_Bandwidth
  imports End_To_End Session_Interface
begin

text \<open>
  The bandwidth limits of a session over its whole life: what the contract \<open>rate_limiter\<close>, which the throttle satisfies in both directions, yields for the guards and
  records in \<^verbatim>\<open>bitfold-host/src/peer_session.rs\<close>. The bound counts the bytes of the datagrams a session hands out and of those it reports from, not the throttle's own counters.
\<close>

section \<open>Runs of a session\<close>

text \<open>The calls a session receives from its host, with the datagram, event, clock and random numbers of each.\<close>

datatype session_op =
    OpPacket session_env bytes instant
  | OpEvent packet instant
  | OpUpdate session_env instant
  | OpDisconnect

fun session_apply :: "ext \<Rightarrow> peer \<Rightarrow> session_op \<Rightarrow> session_result" where
  "session_apply X p (OpPacket env d t) = process_packet X env p d t"
| "session_apply X p (OpEvent ev t) = process_event X p ev t"
| "session_apply X p (OpUpdate env t) = session_update X env p t"
| "session_apply X p OpDisconnect = Ok (disconnect p, [])"

text \<open>A run, and the actions of each call.\<close>

fun session_run :: "ext \<Rightarrow> peer \<Rightarrow> session_op list \<Rightarrow> (error_kind, peer \<times> socket_event action list list) res" where
  "session_run X p [] = Ok (p, [])"
| "session_run X p (call # calls) =
     res_bind (session_apply X p call) (\<lambda>(p, acts).
     res_bind (session_run X p calls) (\<lambda>(p, rest). Ok (p, acts # rest)))"

text \<open>The bytes a list of actions sends.\<close>

fun sent_bytes :: "'e action list \<Rightarrow> nat" where
  "sent_bytes [] = 0"
| "sent_bytes (Send d # acts) = length d + sent_bytes acts"
| "sent_bytes (Emit e # acts) = sent_bytes acts"

text \<open>The bytes of a datagram from which the session reported something; one over the limit is dropped without a report.\<close>

fun heard_bytes :: "session_op \<Rightarrow> 'e action list \<Rightarrow> nat" where
  "heard_bytes (OpPacket env d t) acts = (if acts = [] then 0 else length d)"
| "heard_bytes _ acts = 0"

fun sets_limit :: "protocol_command \<Rightarrow> bool" where
  "sets_limit (BandwidthLimit _ _) = True"
| "sets_limit _ = False"

text \<open>
  The calls up to time \<open>T\<close>: random data has the length asked for, a datagram is a slice of the receive buffer, and, since a peer obeys a remote \<open>BandwidthLimit\<close> command, none
  changes the limits.
\<close>

fun op_within :: "ext \<Rightarrow> config \<Rightarrow> instant \<Rightarrow> session_op \<Rightarrow> bool" where
  "op_within X config T (OpPacket env d t) \<longleftrightarrow> t \<le> T \<and> length d \<le> receive_buffer_max_size config \<and>
     (case open_datagram X config d of Ok cs \<Rightarrow> \<not> list_ex sets_limit cs | _ \<Rightarrow> True)"
| "op_within X config T (OpEvent ev t) \<longleftrightarrow> t \<le> T"
| "op_within X config T (OpUpdate env t) \<longleftrightarrow> t \<le> T \<and> fills env"
| "op_within X config T OpDisconnect \<longleftrightarrow> True"

lemma sent_bytes_append [simp]: "sent_bytes (xs @ ys) = sent_bytes xs + sent_bytes ys"
  by (induction xs rule: sent_bytes.induct) simp_all

section \<open>What leaves the throttle alone\<close>

lemma enqueue_throttle [simp]: "p_bandwidth_throttle (fst (enqueue_command p c)) = p_bandwidth_throttle p"
  by (simp add: enqueue_command_def queue_command_def Let_def split_beta)

lemma verify_settings: "settings (fst (proc_verify_connect p pid inc out w)) = settings p"
  by (auto simp: proc_verify_connect_def nothing_def Let_def peer_set_window_size_def res_bind_Ok_iff split: res.splits)

lemma control_settings:
  assumes "\<not> plain_data c" "\<not> harmless c" "\<not> sets_limit c"
  shows "settings (fst (process_command rnd p c t)) = settings p"
  using assms verify_settings [of "p\<lparr>p_last_heard := t\<rparr>"]
  by (cases c) (simp_all add: process_command_def nothing_def proc_send_unreliable_sequenced_def proc_send_unsequenced_def
      proc_throttle_configure_def proc_pmtu_reply_def mark_unsequenced_received_def peer_process_incoming_def
      enqueue_command_def queue_command_def Let_def split_beta split: option.split)

lemma command_settings: "\<not> sets_limit c \<Longrightarrow> settings (fst (process_command rnd p c t)) = settings p"
  using data_settings [of c rnd p t] harmless_command [of c rnd p t] control_settings [of c rnd p t] by blast

lemma commands_settings: "\<not> list_ex sets_limit cs \<Longrightarrow> settings (fst (process_commands rnd p cs t out)) = settings p"
proof (induction cs arbitrary: p out)
  case (Cons c cs)
  obtain q r where q: "process_command rnd p c t = (q, r)" by fastforce
  then have "settings q = settings p" using command_settings [of c rnd p t] Cons.prems by simp
  then show ?case using Cons.IH [of q] Cons.prems q by (simp split: res.split)
qed simp

lemma packet_settings:
  assumes "case open_datagram X (p_config p) d of Ok cs \<Rightarrow> \<not> list_ex sets_limit cs | _ \<Rightarrow> True"
  shows "settings (fst (process_command_packet X rnd p d t)) = settings p"
proof -
  have "p_config (record_data_received p n) = p_config p" "settings (record_data_received p n) = settings p"
    "settings (record_packet_received (record_data_received p n)) = settings p" for n by (simp_all add: peer_defs)
  then show ?thesis
    using assms commands_settings
    by (simp add: process_command_packet_def Let_def split: res.splits) (simp add: record_packet_received_def)
qed

lemma connection_settings:
  "settings (fst (record_recv p)) = settings p" "settings (fst (record_send p)) = settings p" "settings (disconnect p) = settings p"
  by (auto simp: record_recv_def record_send_def initiate_connect_def disconnect_def queue_command_def Let_def split_beta
      split: peer_state.split)

lemma unsequenced_settings: "unsequenced_loop ch base budget p offset = Ok q \<Longrightarrow> settings q = settings p"
proof (induction ch base budget p offset rule: unsequenced_loop.induct)
  case (1 ch base budget p offset)
  then show ?case
    by (auto simp: unsequenced_loop.simps [of ch base budget p offset] Let_def split_beta res_bind_Ok_iff next_unsequenced_group_def
        enqueue_command_result split: if_splits)
qed

lemma event_settings: "enqueue_event p ev = Ok q \<Longrightarrow> settings q = settings p"
  by (cases "pk_delivery ev"; cases "pk_ordering ev")
     (auto simp: enqueue_event_def Let_def res_bind_Ok_iff enqueue_reliable_offered enqueue_unreliable_offered
       dest: unsequenced_settings)

lemma heartbeat_settings: "settings (heartbeat env p t) = settings p"
  by (simp add: heartbeat_def enqueue_ping_command_def enqueue_command_result split: option.split)

lemma pmtu_settings: "peer_handle_pmtu p t token fill = Ok q \<Longrightarrow> settings q = settings p"
  by (auto simp: peer_handle_pmtu_def res_bind_Ok_iff enqueue_command_result split_beta split: option.splits)

section \<open>The account of a session\<close>

definition in_budget :: "ext \<Rightarrow> config \<Rightarrow> instant \<Rightarrow> instant \<Rightarrow> peer \<Rightarrow> nat \<Rightarrow> nat \<Rightarrow> bool" where
  "in_budget X config t0 T p sent heard \<longleftrightarrow> peer_safe X p \<and> p_config p = config \<and>
     (let b = p_bandwidth_throttle p; D = receive_buffer_max_size config in
      bt_outgoing_limit b = outgoing_bandwidth_limit config \<and> bt_incoming_limit b = incoming_bandwidth_limit config \<and>
      bandwidth_window_start b \<le> T \<and>
      (outgoing_bandwidth_limit config \<noteq> 0 \<longrightarrow> bt_out.accounted D t0 b sent) \<and>
      (incoming_bandwidth_limit config \<noteq> 0 \<longrightarrow> bt_in.accounted D t0 b heard))"

lemma in_budget_new:
  assumes "compressors_report X" "window_ordered config" "t0 \<le> T"
  shows "in_budget X config t0 T (peer_new a config t0 now sid cid) 0 0"
proof -
  let ?b = "bt_new (outgoing_bandwidth_limit config) (incoming_bandwidth_limit config) t0"
  have "bt_out.accounted D t0 ?b 0" if "outgoing_bandwidth_limit config \<noteq> 0" for D
    using bt_out.accounted_start [of ?b D] that by (simp add: bt_new_def unat_gt_0)
  moreover have "bt_in.accounted D t0 ?b 0" if "incoming_bandwidth_limit config \<noteq> 0" for D
    using bt_in.accounted_start [of ?b D] that by (simp add: bt_new_def unat_gt_0)
  ultimately show ?thesis
    using assms peer_inv_new [of a config t0 now sid cid]
    by (simp add: in_budget_def peer_safe_def peer_new_def) (simp add: bt_new_def)
qed

lemma in_budget_settings:
  assumes "in_budget X config t0 T p n m" "settings q = settings p" "peer_steps X p q"
  shows "in_budget X config t0 T q n m"
  using assms steps_safe [OF assms(3)] by (simp add: in_budget_def)

lemma in_budget_less: "in_budget X config t0 T p n m \<Longrightarrow> k \<le> m \<Longrightarrow> in_budget X config t0 T p n k"
  unfolding in_budget_def Let_def using bt_in.accounted_less by blast

lemma in_budget_tick:
  assumes "in_budget X config t0 T p n m" "t \<le> T"
  shows "in_budget X config t0 T (fst (peer_update_bandwidth_window p t)) n m"
proof -
  let ?b = "p_bandwidth_throttle p"
  have "p_bandwidth_throttle (fst (peer_update_bandwidth_window p t)) = fst (update_bandwidth_window ?b t)"
    "p_config (fst (peer_update_bandwidth_window p t)) = p_config p"
    by (simp_all add: peer_update_bandwidth_window_def split_beta)
  moreover have "bt_outgoing_limit (fst (update_bandwidth_window ?b t)) = bt_outgoing_limit ?b"
    "bt_incoming_limit (fst (update_bandwidth_window ?b t)) = bt_incoming_limit ?b"
    by (simp_all add: update_bandwidth_window_def)
  moreover have "bandwidth_window_start (fst (update_bandwidth_window ?b t)) \<le> max (bandwidth_window_start ?b) t"
    by (rule bt_out.tick_started)
  ultimately show ?thesis
    using assms steps_safe [OF r_into_rtranclp [of "peer_step X", OF on_bandwidth [of X p t]]]
      bt_out.accounted_tick [of _ t0 ?b n t] bt_in.accounted_tick [of _ t0 ?b m t]
    by (auto simp: in_budget_def Let_def unat_eq_0)
qed

lemma in_budget_received:
  assumes "in_budget X config t0 T p n m" "peer_can_receive_within_bandwidth p" "k \<le> receive_buffer_max_size config"
    "receive_buffer_max_size config < 2 ^ 32"
  shows "in_budget X config t0 T (peer_record_bytes_received p (of_nat k)) n (m + k)"
proof -
  let ?b = "p_bandwidth_throttle p" and ?b' = "record_bytes_received (p_bandwidth_throttle p) (of_nat k)"
  have k: "unat (of_nat k :: u32) = k" using assms(3,4) by (intro unat_of_nat_u32) simp
  have "bt_out.accounted D t0 ?b' n = bt_out.accounted D t0 ?b n" for D
    by (rule bt_out.accounted_cong) (simp_all add: record_bytes_received_def)
  then show ?thesis
    using assms steps_safe [OF r_into_rtranclp [of "peer_step X", OF on_bytes_received [of X p "of_nat k"]]] k
      bt_in.accounted_transfer [of "receive_buffer_max_size config" t0 ?b m "of_nat k"]
    by (auto simp: in_budget_def Let_def peer_record_bytes_received_def peer_can_receive_within_bandwidth_def unat_eq_0)
       (simp_all add: record_bytes_received_def)
qed

lemma in_budget_sent:
  assumes "in_budget X config t0 T p n m" "peer_can_send_within_bandwidth p" "k \<le> receive_buffer_max_size config"
    "receive_buffer_max_size config < 2 ^ 32"
  shows "in_budget X config t0 T (peer_record_bytes_sent p (of_nat k)) (n + k) m"
proof -
  let ?b = "p_bandwidth_throttle p" and ?b' = "record_bytes_sent (p_bandwidth_throttle p) (of_nat k)"
  have k: "unat (of_nat k :: u32) = k" using assms(3,4) by (intro unat_of_nat_u32) simp
  have "bt_in.accounted D t0 ?b' m = bt_in.accounted D t0 ?b m" for D
    by (rule bt_in.accounted_cong) (simp_all add: record_bytes_sent_def)
  then show ?thesis
    using assms steps_safe [OF r_into_rtranclp [of "peer_step X", OF on_bytes_sent [of X p "of_nat k"]]] k
      bt_out.accounted_transfer [of "receive_buffer_max_size config" t0 ?b n "of_nat k"]
    by (auto simp: in_budget_def Let_def peer_record_bytes_sent_def peer_can_send_within_bandwidth_def unat_eq_0)
       (simp_all add: record_bytes_sent_def)
qed

lemma flush_in_budget:
  assumes "flush_commands X p a = Ok (q, b)" "in_budget X config t0 T p n m" "receive_buffer_max_size config < 2 ^ 32"
  shows "\<exists>ds. b = a @ map Send ds \<and> in_budget X config t0 T q (n + sent_bytes (map Send ds :: socket_event action list)) m"
  using assms
proof (induction X p a arbitrary: n rule: flush_commands.induct)
  case (1 X p a)
  obtain p' r where e: "encode_queued_commands_bounded X p (fragment_datagram_cap p) = (p', r)" by fastforce
  have "settings p' = settings p" using bounded_frame [of X p "fragment_datagram_cap p"] by (simp add: e)
  then have p': "in_budget X config t0 T p' n m" "p_bandwidth_throttle p' = p_bandwidth_throttle p"
    using in_budget_settings [OF "1.prems"(2)] on_bounded [OF e] by auto
  show ?case
  proof (cases "(has_queued_commands p \<and> peer_can_send_within_bandwidth p) \<and> (\<exists>d. r = Ok (Some d))")
    case True
    then obtain d where go: "has_queued_commands p \<and> peer_can_send_within_bandwidth p" and r: "r = Ok (Some d)" by blast
    let ?p = "peer_record_bytes_sent p' (of_nat (length d))"
    have "length d \<le> receive_buffer_max_size config"
      using bounded_fits [of X p _ p' d] e r effective_max_cap [of p] "1.prems"(2) by (fastforce simp: in_budget_def)
    moreover have "peer_can_send_within_bandwidth p'" using go p'(2) by (simp add: peer_can_send_within_bandwidth_def)
    ultimately have b: "in_budget X config t0 T ?p (n + length d) m"
      using in_budget_sent [OF p'(1) _ _ "1.prems"(3)] by blast
    have "flush_commands X ?p (a @ [Send d]) = Ok (q, b)" using "1.prems"(1) go e r by (simp add: flush_commands.simps [of X p])
    from "1.IH" [OF go e [symmetric] r refl this b "1.prems"(3)] obtain ds where
      "b = (a @ [Send d]) @ map Send ds" "in_budget X config t0 T q (n + length d + sent_bytes (map Send ds :: socket_event action list)) m" by blast
    then show ?thesis by (intro exI [of _ "d # ds"]) (simp add: add.assoc)
  next
    case False
    then have "(q = p \<or> q = p') \<and> b = a"
      using "1.prems"(1) e by (auto simp: flush_commands.simps [of X p] split: if_splits res.splits option.splits)
    then show ?thesis using p' "1.prems"(2) by (intro exI [of _ "[]"]) auto
  qed
qed

section \<open>The calls of a session\<close>

lemma sent_bytes_events [simp]: "sent_bytes (map (\<lambda>x. Emit (f x)) xs) = 0"
  by (induction xs) simp_all

lemma packet_in_budget:
  assumes "process_packet X env p d t = Ok (q, acts)" "in_budget X config t0 T p n m" "op_within X config T (OpPacket env d t)"
    "receive_buffer_max_size config < 2 ^ 32"
  shows "in_budget X config t0 T q (n + sent_bytes acts) (m + heard_bytes (OpPacket env d t) acts)"
proof -
  let ?p1 = "fst (peer_update_bandwidth_window p t)"
  let ?p2 = "peer_record_bytes_received ?p1 (of_nat (length d))"
  obtain p3 r where r: "process_command_packet X (se_peer_id env) ?p2 d t = (p3, r)" by fastforce
  have b1: "in_budget X config t0 T ?p1 n m" using in_budget_tick [OF assms(2)] assms(3) by simp
  consider "acts = []" "q = p \<or> q = ?p1" | "peer_can_receive_within_bandwidth ?p1" "r \<noteq> Panic" "acts = []" "q = p3"
    | "peer_can_receive_within_bandwidth ?p1" "r \<noteq> Panic" "q = fst (record_recv p3)" "sent_bytes acts = 0"
    using assms(1) r by (auto simp: process_packet_def Let_def split_beta split: if_splits res.splits)
  then show ?thesis
  proof cases
    case 1
    then show ?thesis using b1 assms(2) by auto
  next
    case 2
    have b2: "in_budget X config t0 T ?p2 n (m + length d)" using in_budget_received [OF b1 2(1) _ assms(4)] assms(3) by simp
    then have "settings p3 = settings ?p2"
      using packet_settings [of X ?p2 d "se_peer_id env" t] assms(3) r by (simp add: in_budget_def)
    then have "in_budget X config t0 T p3 n (m + length d)" using in_budget_settings [OF b2] on_packet [OF r 2(2)] by blast
    then show ?thesis using 2(3,4) in_budget_less by (metis add.right_neutral heard_bytes.simps(1) le_add1 sent_bytes.simps(1))
  next
    case 3
    have b2: "in_budget X config t0 T ?p2 n (m + length d)" using in_budget_received [OF b1 3(1) _ assms(4)] assms(3) by simp
    then have "settings p3 = settings ?p2"
      using packet_settings [of X ?p2 d "se_peer_id env" t] assms(3) r by (simp add: in_budget_def)
    then have "in_budget X config t0 T p3 n (m + length d)" using in_budget_settings [OF b2] on_packet [OF r 3(2)] by blast
    then have "in_budget X config t0 T q n (m + length d)"
      unfolding 3(3) using in_budget_settings [OF _ connection_settings(1)] on_recv by blast
    then show ?thesis using in_budget_less 3(4) by auto
  qed
qed

lemma event_in_budget:
  assumes "process_event X p ev t = Ok (q, acts)" "in_budget X config t0 T p n m" "receive_buffer_max_size config < 2 ^ 32"
  shows "in_budget X config t0 T q (n + sent_bytes acts) m"
proof -
  obtain p1 where p1: "enqueue_event (fst (record_send p)) ev = Ok p1" "peer_steps X (fst (record_send p)) p1"
    using event_steps by blast
  then have f: "flush_commands X p1 [] = Ok (q, acts)"
    using assms(1) record_send_flag [of p] by (simp add: process_event_def split_beta Let_def)
  have "in_budget X config t0 T (fst (record_send p)) n m"
    using in_budget_settings [OF assms(2) connection_settings(2)] on_send by blast
  then have "in_budget X config t0 T p1 n m" using in_budget_settings event_settings [OF p1(1)] p1(2) by blast
  then show ?thesis using flush_in_budget [OF f _ assms(3)] by auto
qed

lemma update_in_budget:
  assumes "session_update X env p t = Ok (q, acts)" "in_budget X config t0 T p n m" "t \<le> T" "fills env"
    "receive_buffer_max_size config < 2 ^ 32"
  shows "in_budget X config t0 T q (n + sent_bytes acts) m"
proof -
  let ?p = "fst (peer_update_bandwidth_window p t)"
  obtain p2 where f: "flush_commands X (heartbeat env ?p t) [] = Ok (p2, acts)"
    and h: "peer_handle_pmtu p2 t (se_token env) (se_fill env) = Ok q"
    using assms(1) by (auto simp: session_update_def Let_def res_bind_Ok_iff)
  have "in_budget X config t0 T (heartbeat env ?p t) n m"
    using in_budget_settings [OF in_budget_tick [OF assms(2,3)] heartbeat_settings heartbeat_steps] .
  then have "in_budget X config t0 T p2 (n + sent_bytes acts) m" using flush_in_budget [OF f _ assms(5)] by auto
  then show ?thesis
    using in_budget_settings [OF _ pmtu_settings [OF h], of X] r_into_rtranclp [of "peer_step X", OF on_pmtu [OF h]] assms(4)
    by (simp add: fills_def)
qed

lemma session_apply_in_budget:
  assumes "in_budget X config t0 T p n m" "op_within X config T call" "receive_buffer_max_size config < 2 ^ 32"
  shows "\<exists>q acts. session_apply X p call = Ok (q, acts) \<and>
    in_budget X config t0 T q (n + sent_bytes acts) (m + heard_bytes call acts)"
proof (cases call)
  case (OpPacket env d t)
  obtain q acts where "process_packet X env p d t = Ok (q, acts)" using process_packet_total assms(1) by (meson in_budget_def)
  from packet_in_budget [OF this assms(1) _ assms(3)] this show ?thesis using assms(2) OpPacket by auto
next
  case (OpEvent ev t)
  obtain q acts where "process_event X p ev t = Ok (q, acts)" using process_event_total assms(1) by (meson in_budget_def)
  from event_in_budget [OF this assms(1,3)] this show ?thesis using OpEvent by auto
next
  case (OpUpdate env t)
  obtain q acts where "session_update X env p t = Ok (q, acts)" using update_total assms(1) by (meson in_budget_def)
  from update_in_budget [OF this assms(1) _ _ assms(3)] this show ?thesis using assms(2) OpUpdate by auto
next
  case OpDisconnect
  have "in_budget X config t0 T (disconnect p) n m"
    using in_budget_settings [OF assms(1) connection_settings(3)] on_disconnect by blast
  then show ?thesis using OpDisconnect by simp
qed

lemma session_run_in_budget:
  assumes "in_budget X config t0 T p n m" "\<forall>call \<in> set calls. op_within X config T call" "receive_buffer_max_size config < 2 ^ 32"
  shows "\<exists>q outs. session_run X p calls = Ok (q, outs) \<and> in_budget X config t0 T q
    (n + sum_list (map sent_bytes outs)) (m + sum_list (map2 heard_bytes calls outs))"
  using assms(1,2)
proof (induction calls arbitrary: p n m)
  case (Cons call calls)
  from session_apply_in_budget [OF Cons.prems(1) _ assms(3), of call] Cons.prems(2) obtain p1 acts where
    p1: "session_apply X p call = Ok (p1, acts)" "in_budget X config t0 T p1 (n + sent_bytes acts) (m + heard_bytes call acts)" by auto
  from Cons.IH [OF p1(2)] Cons.prems(2) obtain q outs where "session_run X p1 calls = Ok (q, outs)"
    "in_budget X config t0 T q (n + sent_bytes acts + sum_list (map sent_bytes outs))
      (m + heard_bytes call acts + sum_list (map2 heard_bytes calls outs))" by auto
  then show ?case using p1(1) by (simp add: add.assoc)
qed simp

section \<open>Properties\<close>

text \<open>
  C23: The bandwidth limits hold over the whole life of a session, whatever calls it gets from its host. If a session with an outgoing limit was made at \<open>t0\<close>, all datagrams it sends up
  to \<open>T\<close> have together at most the limit for every window of a second that can have begun by then, plus for each of them the part of one datagram that may pass the
  limit; and the same holds with the incoming limit for the datagrams it accepts, those from which it reports a connection or packets to the application. The limits are those the session was made with: a remote
  \<open>BandwidthLimit\<close> command replaces them, and runs with such a command are left out.
\<close>

theorem bandwidth_respected:
  assumes "compressors_report X" and "window_ordered config" and "receive_buffer_max_size config < 2 ^ 32" and "t0 \<le> T"
    and "\<forall>call \<in> set calls. op_within X config T call"
  shows "\<exists>q outs. session_run X (peer_new addr config t0 now sid cid) calls = Ok (q, outs) \<and>
    (outgoing_bandwidth_limit config \<noteq> 0 \<longrightarrow> sum_list (map sent_bytes outs) \<le>
       ((T - t0) div BANDWIDTH_WINDOW + 1) * (unat (outgoing_bandwidth_limit config) + receive_buffer_max_size config - 1)) \<and>
    (incoming_bandwidth_limit config \<noteq> 0 \<longrightarrow> sum_list (map2 heard_bytes calls outs) \<le>
       ((T - t0) div BANDWIDTH_WINDOW + 1) * (unat (incoming_bandwidth_limit config) + receive_buffer_max_size config - 1))"
proof -
  from session_run_in_budget [OF in_budget_new [OF assms(1,2,4)] assms(5,3), of addr now sid cid] obtain q outs where
    run: "session_run X (peer_new addr config t0 now sid cid) calls = Ok (q, outs)"
    and b: "in_budget X config t0 T q (sum_list (map sent_bytes outs)) (sum_list (map2 heard_bytes calls outs))" by auto
  let ?b = "p_bandwidth_throttle q" and ?D = "receive_buffer_max_size config"
  show ?thesis
    using run b bt_out.accounted_bound [of ?D t0 ?b _ T] bt_in.accounted_bound [of ?D t0 ?b _ T]
    by (auto simp: in_budget_def Let_def unat_eq_0)
qed

text \<open>
  A session with limits of 5000 bytes. For ten seconds it is given, every tenth of a second, a datagram, three kilobytes to send, and an update: 300000 bytes, of which it sends at most 64510.
\<close>

definition sample_limited :: config where
  "sample_limited = default_config\<lparr>outgoing_bandwidth_limit := 5000, incoming_bandwidth_limit := 5000\<rparr>"

definition sample_calls :: "session_op list" where
  "sample_calls = concat (map (\<lambda>i. [OpPacket sample_env sample_connect (i * from_millis 100),
     OpEvent (packet_reliable_unordered \<lparr>sa_ip = V4 0, sa_port = 1\<rparr> (replicate 3000 1)) (i * from_millis 100),
     OpUpdate sample_env (i * from_millis 100)]) [0..<100])"

lemma sample_calls_within: "\<forall>call \<in> set sample_calls. op_within sample_ext sample_limited (from_millis 9900) call"
proof -
  have "open_datagram sample_ext sample_limited sample_connect = Ok [Connect 1 1400 1 5 6]"
    using sample_connect_opens by (simp add: open_datagram_def sample_limited_def)
  moreover have "length sample_connect \<le> receive_buffer_max_size sample_limited" "fills sample_env"
    by (simp_all add: sample_connect_def sample_limited_def default_config_def DEFAULT_MTU_def fills_def sample_env_def)
  moreover have "i * from_millis 100 \<le> from_millis 9900" if "i < 100" for i using that by (simp add: from_millis_def)
  ultimately show ?thesis by (auto simp: sample_calls_def)
qed

theorem bandwidth_respected_witness:
  "\<exists>q outs. session_run sample_ext (peer_new \<lparr>sa_ip = V4 0, sa_port = 1\<rparr> sample_limited 0 0 7 8) sample_calls = Ok (q, outs) \<and>
    sum_list (map sent_bytes outs) \<le> 64510 \<and> sum_list (map2 heard_bytes sample_calls outs) \<le> 64510"
proof -
  have "compressors_report sample_ext" "window_ordered sample_limited" "receive_buffer_max_size sample_limited < 2 ^ 32"
    by (simp_all add: sample_ext_report window_ordered_def sample_limited_def default_config_def DEFAULT_MTU_def)
  from bandwidth_respected [OF this _ sample_calls_within, of 0 "\<lparr>sa_ip = V4 0, sa_port = 1\<rparr>" 0 7 8]
  show ?thesis by (simp add: sample_limited_def default_config_def DEFAULT_MTU_def BANDWIDTH_WINDOW_def from_secs_def from_millis_def)
qed

end
