(* ===== verification/Session_Output.thy ===== *)
theory Session_Output
  imports Session_Manager
begin

text \<open>
  What a host lets out: the datagrams it sends and the events it reports. The locale \<open>session_output\<close> is the contract of a session about its output: as long as a session
  belongs to an address, whatever it sends is acceptable and whatever it reports concerns this address. The lemmas of the locale lift the contract through every
  stage of a poll to the manager; the interpretation \<open>peer_output\<close> discharges it for the peer, where a datagram is acceptable when it fits the
  receive buffer and opens to well-formed commands.
\<close>

section \<open>The contract\<close>

definition actions_ok :: "(bytes \<Rightarrow> bool) \<Rightarrow> ('r \<Rightarrow> bool) \<Rightarrow> 'r action list \<Rightarrow> bool" where
  "actions_ok sendable reportable acts \<longleftrightarrow>
     (\<forall>x \<in> set acts. case x of Send d \<Rightarrow> sendable d | Emit e \<Rightarrow> reportable e)"

lemma actions_ok_simps [simp]:
  "actions_ok S E []" "actions_ok S E (as @ bs) \<longleftrightarrow> actions_ok S E as \<and> actions_ok S E bs"
  "actions_ok S E (Send d # as) \<longleftrightarrow> S d \<and> actions_ok S E as" "actions_ok S E (Emit e # as) \<longleftrightarrow> E e \<and> actions_ok S E as"
  by (auto simp: actions_ok_def)

lemma actions_ok_iff:
  "actions_ok S E acts \<longleftrightarrow> (\<forall>d. Send d \<in> set acts \<longrightarrow> S d) \<and> (\<forall>e. Emit e \<in> set acts \<longrightarrow> E e)"
  unfolding actions_ok_def by (metis action.exhaust action.simps(5,6))

locale session_output =
  fixes ops :: "('s, 'e, 'r) session_ops"
    and at_home :: "socket_addr \<Rightarrow> 's \<Rightarrow> bool"
    and sendable :: "bytes \<Rightarrow> bool"
    and reportable :: "socket_addr \<Rightarrow> 'r \<Rightarrow> bool"
    and cfg_ok :: "config \<Rightarrow> bool"
    and env_ok :: "session_env \<Rightarrow> bool"
  assumes create_home: "cfg_ok c \<Longrightarrow> at_home addr (so_create ops c addr t env)"
    and packet_output: "at_home addr s \<Longrightarrow> so_process_packet ops env s d t = Ok (s', acts) \<Longrightarrow>
      at_home addr s' \<and> actions_ok sendable (reportable addr) acts"
    and event_output: "at_home addr s \<Longrightarrow> so_process_event ops s ev t = Ok (s', acts) \<Longrightarrow>
      at_home addr s' \<and> actions_ok sendable (reportable addr) acts"
    and update_output: "at_home addr s \<Longrightarrow> env_ok env \<Longrightarrow> so_update ops env s t = Ok (s', acts) \<Longrightarrow>
      at_home addr s' \<and> actions_ok sendable (reportable addr) acts"
    and drop_output: "at_home addr s \<Longrightarrow> actions_ok sendable (reportable addr) (snd (so_should_drop ops s t))"

section \<open>The manager\<close>

text \<open>
  Every session is at home, everything that waits or went out concerns one of the addresses \<open>A\<close> and is acceptable, and what the application has queued is for these addresses.
\<close>

definition out_inv ::
  "(config \<Rightarrow> bool) \<Rightarrow> (socket_addr \<Rightarrow> 's \<Rightarrow> bool) \<Rightarrow> (bytes \<Rightarrow> bool) \<Rightarrow> (socket_addr \<Rightarrow> 'r \<Rightarrow> bool) \<Rightarrow> ('e \<Rightarrow> socket_addr) \<Rightarrow> socket_addr set \<Rightarrow>
     ('s, 'e, 'r, 'i) session_manager \<Rightarrow> bool" where
  "out_inv cfg_ok at_home sendable reportable target A m \<longleftrightarrow> cfg_ok (sm_config m) \<and>
     (\<forall>(a, s) \<in> set (sm_sessions m). a \<in> A \<and> at_home a s) \<and>
     (\<forall>(a, d) \<in> set (sm_pending_sends m) \<union> set (sm_sent m). a \<in> A \<and> sendable d) \<and>
     (\<forall>e \<in> set (sm_pending_events m) \<union> set (sm_events m). \<exists>a \<in> A. reportable a e) \<and>
     (\<forall>e \<in> set (sm_user_events m). target e \<in> A)"

definition keeps_sendable :: "(bytes \<Rightarrow> bool) \<Rightarrow> 'i interceptor \<Rightarrow> bool" where
  "keeps_sendable sendable ic \<longleftrightarrow> (\<forall>i a d i' d'. sendable d \<longrightarrow> ic_on_send ic i a d = (i', d', True) \<longrightarrow> sendable d')"

lemma keeps_sendable_no_op: "keeps_sendable S no_op_interceptor"
  by (simp add: keeps_sendable_def no_op_interceptor_def)

lemma out_inv_cong:
  "sm_sessions m' = sm_sessions m \<Longrightarrow> sm_config m' = sm_config m \<Longrightarrow> sm_pending_sends m' = sm_pending_sends m \<Longrightarrow>
   sm_sent m' = sm_sent m \<Longrightarrow> sm_pending_events m' = sm_pending_events m \<Longrightarrow> sm_events m' = sm_events m \<Longrightarrow>
   sm_user_events m' = sm_user_events m \<Longrightarrow>
   out_inv C H S E T A m' = out_inv C H S E T A m"
  by (simp add: out_inv_def)

lemma out_inv_other [simp]:
  "out_inv C H S E T A (m\<lparr>sm_receive_buffer := b\<rparr>) = out_inv C H S E T A m"
  "out_inv C H S E T A (m\<lparr>sm_interceptor := i\<rparr>) = out_inv C H S E T A m"
  "out_inv C H S E T A (m\<lparr>sm_draws := n\<rparr>) = out_inv C H S E T A m"
  "out_inv C H S E T A (increment_duplicate_count m a) = out_inv C H S E T A m"
  by (rule out_inv_cong; simp add: increment_duplicate_count_def Let_def)+

lemma out_inv_taken: "out_inv C H S E T A m \<Longrightarrow> out_inv C H S E T A (m\<lparr>sm_user_events := []\<rparr>)"
  by (simp add: out_inv_def)

lemma out_inv_queued:
  "out_inv C H S E T A m \<Longrightarrow> \<forall>e \<in> set es. T e \<in> A \<Longrightarrow> out_inv C H S E T A (m\<lparr>sm_user_events := sm_user_events m @ es\<rparr>)"
  unfolding out_inv_def by (simp add: ball_Un)

lemma out_inv_new: "C c \<Longrightarrow> out_inv C H S E T A (sm_new c i)"
  by (simp add: out_inv_def sm_new_def hm_empty_def)

lemma out_inv_mono: "out_inv C H S E T A m \<Longrightarrow> A \<subseteq> B \<Longrightarrow> out_inv C H S E T B m"
  unfolding out_inv_def by fast

lemma sends_of_set: "x \<in> set (sends_of a acts) \<longleftrightarrow> (\<exists>d. x = (a, d) \<and> Send d \<in> set acts)"
  by (force simp: sends_of_def split: action.splits)

lemma emits_of_set: "e \<in> set (emits_of acts) \<longleftrightarrow> Emit e \<in> set acts"
  by (force simp: emits_of_def split: action.splits)

lemma out_inv_actions:
  assumes "out_inv C H S E T A m" "a \<in> A" "actions_ok S (E a) acts"
  shows "out_inv C H S E T A (handle_actions m a acts)"
  using assms unfolding out_inv_def handle_actions_result actions_ok_iff
  by (auto simp: sends_of_set emits_of_set)

lemma hm_insert_set: "set (hm_insert k v m) \<subseteq> insert (k, v) (set m)"
  unfolding hm_insert_def by (induction m) auto

lemma out_inv_session:
  assumes "out_inv C H S E T A m" "a \<in> A" "H a s"
  shows "out_inv C H S E T A (m\<lparr>sm_sessions := hm_insert a s (sm_sessions m)\<rparr>)"
  using assms hm_insert_set [of a s "sm_sessions m"] by (auto simp: out_inv_def)

lemma out_inv_delete: "out_inv C H S E T A m \<Longrightarrow> out_inv C H S E T A (m\<lparr>sm_sessions := hm_delete a (sm_sessions m)\<rparr>)"
  by (auto simp: out_inv_def hm_delete_def AList.delete_eq)

lemma receive_loop_Received:
  assumes "receive_loop ops ic envs bl t m u (Received d a # inputs) = Ok (m', u')"
  obtains m1 u1 b where "receive_one ops ic envs t m u d a = Ok (m1, u1, b)"
    "m1 = m' \<or> receive_loop ops ic envs bl t m1 u1 inputs = Ok (m', u')"
  using assms by (auto simp: res_bind_Ok_iff split: if_splits)

context session_output
begin

abbreviation outputs :: "socket_addr set \<Rightarrow> ('s, 'e, 'r, 'i) session_manager \<Rightarrow> bool" where
  "outputs A m \<equiv> out_inv cfg_ok at_home sendable reportable (so_address ops) A m"

lemma home: "outputs A m \<Longrightarrow> hm_get (sm_sessions m) a = Some s \<Longrightarrow> a \<in> A \<and> at_home a s"
  by (auto simp: out_inv_def hm_get_def dest: map_of_SomeD)

lemma created: "outputs A m \<Longrightarrow> at_home a (so_create ops (sm_config m) a t env)"
  by (simp add: out_inv_def create_home)

lemma stored:
  assumes "outputs A m" "a \<in> A" "at_home a s \<and> actions_ok sendable (reportable a) acts"
  shows "outputs A (handle_actions (m\<lparr>sm_sessions := hm_insert a s (sm_sessions m)\<rparr>) a acts)"
  using assms by (intro out_inv_actions out_inv_session) simp_all

lemma packet_to_session_outputs:
  assumes "packet_to_session ops envs t m u d a = Ok (m', u')" "outputs A m" "a \<in> A"
  shows "outputs A m'"
proof (cases "hm_get (sm_sessions m) a")
  case (Some s)
  note h = home [OF assms(2) Some]
  from assms(1) Some obtain s' acts where s': "so_process_packet ops (envs (sm_draws m)) s d t = Ok (s', acts)"
    "m' = handle_actions (m\<lparr>sm_draws := sm_draws m + 1, sm_sessions := hm_insert a s' (sm_sessions m)\<rparr>) a acts"
    by (auto simp: packet_to_session_def Let_def res_bind_Ok_iff split: if_splits)
  show ?thesis
    using stored [OF _ assms(3) packet_output [OF conjunct2 [OF h] s'(1)], of "m\<lparr>sm_draws := sm_draws m + 1\<rparr>"] assms(2)
    by (simp add: s'(2))
next
  case None
  let ?m = "m\<lparr>sm_draws := sm_draws m + 1\<rparr>"
  have m: "outputs A ?m" using assms(2) by simp
  from assms(1) None obtain s' acts where
    s': "so_process_packet ops (envs (sm_draws m)) (so_create ops (sm_config m) a t (envs (sm_draws m))) d t = Ok (s', acts)"
    and m': "m' = handle_actions ?m a acts \<or>
      m' = increment_duplicate_count ((handle_actions ?m a acts)\<lparr>sm_sessions := hm_insert a s' (sm_sessions m)\<rparr>) a"
    by (auto simp: packet_to_session_def Let_def res_bind_Ok_iff split: if_splits)
  note out = packet_output [OF created [OF assms(2)] s']
  have "outputs A (handle_actions ?m a acts)" using out m assms(3) by (intro out_inv_actions) simp_all
  moreover from this have "outputs A ((handle_actions ?m a acts)\<lparr>sm_sessions := hm_insert a s' (sm_sessions m)\<rparr>)"
    using out_inv_session [of _ _ _ _ _ _ "handle_actions ?m a acts" a s'] out assms(3) by simp
  ultimately show ?thesis using m' by auto
qed

lemma receive_one_outputs:
  assumes "receive_one ops ic envs t m u d a = Ok (m', u', b)" "outputs A m" "a \<in> A"
  shows "outputs A m'"
  using assms by (auto simp: receive_one_def Let_def split_beta res_bind_Ok_iff split: if_splits intro: packet_to_session_outputs)

lemma receive_loop_outputs:
  assumes "receive_loop ops ic envs bl t m u inputs = Ok (m', u')" "outputs A m" "\<forall>d a. Received d a \<in> set inputs \<longrightarrow> a \<in> A"
  shows "outputs A m'"
  using assms
proof (induction inputs arbitrary: m u)
  case (Cons x inputs)
  show ?case
  proof (cases x)
    case (Received d a)
    with Cons.prems(1) obtain m1 u1 b where one: "receive_one ops ic envs t m u d a = Ok (m1, u1, b)"
      and rest: "m1 = m' \<or> receive_loop ops ic envs bl t m1 u1 inputs = Ok (m', u')"
      by (auto elim: receive_loop_Received simp del: receive_loop.simps)
    have m1: "outputs A m1" using receive_one_outputs [OF one Cons.prems(2)] Cons.prems(3) Received by auto
    from rest show ?thesis
    proof
      assume "receive_loop ops ic envs bl t m1 u1 inputs = Ok (m', u')"
      from Cons.IH [OF this m1] Cons.prems(3) show ?thesis by simp
    qed (use m1 in simp)
  qed (use Cons.prems in simp)
qed simp

lemma user_event_outputs:
  assumes "user_event ops envs t m u ev = Ok (m', u')" "outputs A m" "so_address ops ev \<in> A"
  shows "outputs A m'"
proof (cases "hm_get (sm_sessions m) (so_address ops ev)")
  case (Some s)
  let ?a = "so_address ops ev"
  from assms(1) Some obtain s' acts where s': "so_process_event ops s ev t = Ok (s', acts)"
    "m' = handle_actions (m\<lparr>sm_draws := sm_draws m + 1, sm_sessions := hm_insert ?a s' (sm_sessions m)\<rparr>) ?a acts"
    by (auto simp: user_event_def Let_def res_bind_Ok_iff split: if_splits)
  show ?thesis
    using stored [OF _ assms(3) event_output [OF _ s'(1)], of "m\<lparr>sm_draws := sm_draws m + 1\<rparr>"] home [OF assms(2) Some] assms(2)
    by (simp add: s'(2))
next
  case None
  let ?a = "so_address ops ev" and ?m = "m\<lparr>sm_draws := sm_draws m + 1\<rparr>"
  have m: "outputs A ?m" using assms(2) by simp
  from assms(1) None have "m' = m \<or> (\<exists>s' acts.
      so_process_event ops (so_create ops (sm_config m) ?a t (envs (sm_draws m))) ev t = Ok (s', acts) \<and>
      m' = increment_duplicate_count (handle_actions (?m\<lparr>sm_sessions := hm_insert ?a s' (sm_sessions ?m)\<rparr>) ?a acts) ?a)"
    by (auto simp: user_event_def Let_def res_bind_Ok_iff split: if_splits)
  then show ?thesis
    using stored [OF m assms(3) event_output [OF created [OF assms(2)]]] assms(2) by auto
qed

lemma user_loop_outputs:
  assumes "user_loop ops envs t m u es = Ok (m', u')" "outputs A m" "\<forall>e \<in> set es. so_address ops e \<in> A"
  shows "outputs A m'"
  using assms
proof (induction es arbitrary: m u)
  case (Cons e es)
  then show ?case by (auto simp: res_bind_Ok_iff dest: user_event_outputs)
qed simp

lemma update_loop_outputs:
  assumes "update_loop ops envs t m as = Ok m'" "outputs A m" "\<forall>n. env_ok (envs n)"
  shows "outputs A m'"
  using assms(1,2)
proof (induction as arbitrary: m)
  case (Cons a as)
  show ?case
  proof (cases "hm_get (sm_sessions m) a")
    case (Some s)
    let ?m = "m\<lparr>sm_draws := sm_draws m + 1\<rparr>"
    from Cons.prems(1) Some obtain s' acts where s': "so_update ops (envs (sm_draws m)) s t = Ok (s', acts)"
      "update_loop ops envs t (handle_actions (?m\<lparr>sm_sessions := hm_insert a s' (sm_sessions ?m)\<rparr>) a acts) as = Ok m'"
      by (auto simp: Let_def res_bind_Ok_iff)
    have "outputs A ?m" using Cons.prems(2) by simp
    from stored [OF this _ update_output [OF _ _ s'(1)]] home [OF Cons.prems(2) Some] assms(3)
    show ?thesis using Cons.IH [OF s'(2)] by blast
  qed (use Cons in simp)
qed simp

lemma collect_outputs:
  assumes "outputs A m" "\<forall>(a, s) \<in> set xs. a \<in> A \<and> at_home a s"
  shows "outputs A (fst (foldl (collect_drop ops t) (m, ds) xs))"
  using assms
proof (induction xs arbitrary: m ds)
  case (Cons x xs)
  obtain a s where x: "x = (a, s)" by fastforce
  then have "outputs A (handle_actions m a (snd (so_should_drop ops s t)))"
    using Cons.prems drop_output by (intro out_inv_actions) auto
  then show ?case using Cons.IH Cons.prems(2) by (simp add: collect_drop_def x Let_def split_beta)
qed simp

lemma remove_outputs: "remove_loop m as = Ok m' \<Longrightarrow> outputs A m \<Longrightarrow> outputs A m'"
proof (induction as arbitrary: m)
  case (Cons a as)
  then obtain m1 where m1: "decrement_duplicate_count (m\<lparr>sm_sessions := hm_delete a (sm_sessions m)\<rparr>) a = Ok m1" "remove_loop m1 as = Ok m'"
    by (auto simp: Let_def res_bind_Ok_iff)
  have "outputs A (m\<lparr>sm_sessions := hm_delete a (sm_sessions m)\<rparr>)" by (rule out_inv_delete [OF Cons.prems(2)])
  then have "outputs A m1"
    using m1(1) by (auto simp: decrement_duplicate_count_def Let_def out_inv_def split: option.splits if_splits)
  with Cons.IH m1(2) show ?case by blast
qed simp

lemma flush_outputs:
  assumes "outputs A m" "keeps_sendable sendable ic"
  shows "outputs A (messenger_flush ic m)"
proof -
  have step: "outputs A (foldl (flush_send ic) n xs)" if "outputs A n" "\<forall>(a, d) \<in> set xs. a \<in> A \<and> sendable d" for n xs
    using that
  proof (induction xs arbitrary: n)
    case (Cons x xs)
    obtain a d where x: "x = (a, d)" by fastforce
    obtain i d' b where i: "ic_on_send ic (sm_interceptor n) a d = (i, d', b)" by (metis prod.exhaust)
    have "b \<Longrightarrow> sendable d'" using assms(2) i Cons.prems(2) by (auto simp: keeps_sendable_def x)
    then have "outputs A (flush_send ic n x)"
      using Cons.prems by (auto simp: flush_send_def x i Let_def out_inv_def)
    then show ?case using Cons by simp
  qed simp
  have "outputs A (m\<lparr>sm_pending_sends := []\<rparr>)" "\<forall>(a, d) \<in> set (sm_pending_sends m). a \<in> A \<and> sendable d"
    using assms(1) by (simp_all add: out_inv_def)
  from step [OF this] have "outputs A (foldl (flush_send ic) (m\<lparr>sm_pending_sends := []\<rparr>) (sm_pending_sends m))" .
  then show ?thesis by (auto simp: messenger_flush_def Let_def out_inv_def)
qed

lemma poll_outputs:
  assumes "sm_manual_poll ops ic envs bl m inputs t = Ok m'" "outputs A m"
    and "\<forall>n. env_ok (envs n)" "keeps_sendable sendable ic" "\<forall>d a. Received d a \<in> set inputs \<longrightarrow> a \<in> A"
  shows "outputs A m'"
proof -
  obtain m1 u1 m2 u2 m3 m5 where
    m1: "receive_loop ops ic envs bl t m (unestablished_session_count ops m) inputs = Ok (m1, u1)"
    and m2: "user_loop ops envs t (m1\<lparr>sm_user_events := []\<rparr>) u1 (sm_user_events m1) = Ok (m2, u2)"
    and m3: "update_loop ops envs t m2 (hm_keys (sm_sessions m2)) = Ok m3"
    and m5: "remove_loop (fst (foldl (collect_drop ops t) (m3, []) (sm_sessions m3)))
      (snd (foldl (collect_drop ops t) (m3, []) (sm_sessions m3))) = Ok m5" "m' = messenger_flush ic m5"
    using assms(1) by (auto simp: sm_manual_poll_def Let_def res_bind_Ok_iff split_beta)
  have "outputs A m1" by (rule receive_loop_outputs [OF m1 assms(2,5)])
  then have "outputs A m2" by (intro user_loop_outputs [OF m2] out_inv_taken) (simp_all add: out_inv_def)
  then have o3: "outputs A m3" by (rule update_loop_outputs [OF m3 _ assms(3)])
  then have "outputs A (fst (foldl (collect_drop ops t) (m3, []) (sm_sessions m3)))"
    by (intro collect_outputs) (simp_all add: out_inv_def)
  then show ?thesis using remove_outputs [OF m5(1)] flush_outputs [OF _ assms(4)] m5(2) by blast
qed

end

section \<open>The output of a peer\<close>

text \<open>A datagram that any peer with the same checksum setting can receive and open.\<close>

definition valid_datagram :: "ext \<Rightarrow> config \<Rightarrow> bytes \<Rightarrow> bool" where
  "valid_datagram X config d \<longleftrightarrow> length d \<le> receive_buffer_max_size config \<and>
     (case open_datagram X config d of Ok cs \<Rightarrow> cs \<noteq> [] \<and> list_all command_wf cs | _ \<Rightarrow> False)"

definition wire_ok :: "ext \<Rightarrow> config \<Rightarrow> bool" where
  "wire_ok X config \<longleftrightarrow> byteorder_be X \<and> compressors_lossless X \<and> receive_buffer_max_size config \<le> 1537"

definition peer_at :: "ext \<Rightarrow> config \<Rightarrow> socket_addr \<Rightarrow> peer \<Rightarrow> bool" where
  "peer_at X config a p \<longleftrightarrow> wire_ok X config \<and> p_remote_address p = a \<and> peer_inv p \<and>
     fixed_config p = config\<lparr>incoming_bandwidth_limit := 0, outgoing_bandwidth_limit := 0\<rparr>"

abbreviation concerns :: "socket_addr \<Rightarrow> socket_event \<Rightarrow> bool" where
  "concerns a e \<equiv> event_address e = a"

lemma steps_at: "peer_steps X p q \<Longrightarrow> peer_at X config a p \<Longrightarrow> peer_at X config a q"
  using peer_steps_inv [of X p q] peer_steps_moves [of X p q] by (simp add: peer_at_def moves_def)

lemma at_config:
  assumes "peer_at X config a p"
  shows "receive_buffer_max_size (p_config p) = receive_buffer_max_size config" "use_checksums (p_config p) = use_checksums config"
  using assms unfolding peer_at_def
  by (auto dest: arg_cong [of _ _ receive_buffer_max_size] arg_cong [of _ _ use_checksums])

lemma owned_wf: "command_wf c \<Longrightarrow> command_wf (owned c)"
  by (cases c) (simp_all add: command_wf_def sb_owned_def)

lemma bounded_valid:
  assumes "peer_at X config a p" "encode_queued_commands_bounded X p (fragment_datagram_cap p) = (p', Ok (Some d))"
  shows "valid_datagram X config d"
proof -
  have inv: "waiting_inv p" "\<forall>c \<in> set (queue_of p). command_wf c" and X: "byteorder_be X" "compressors_lossless X"
    and small: "effective_max p (fragment_datagram_cap p) \<le> receive_buffer_max_size config" "receive_buffer_max_size config \<le> 1537"
    using assms(1) effective_max_cap [of p] at_config(1) [OF assms(1)] by (simp_all add: peer_at_def peer_inv_def wire_ok_def)
  obtain n where n: "0 < n" "open_datagram X config d = Ok (map owned (take n (queue_of p)))"
    using datagram_delivers_prefix [OF X inv _ at_config(2) [OF assms(1), symmetric] assms(2)] small by auto
  have "queue_of p \<noteq> []" using bounded_shrinks [OF assms(2)] by auto
  moreover have "list_all command_wf (map owned (take n (queue_of p)))"
    using inv(2) by (auto simp: list_all_iff owned_wf dest: in_set_takeD)
  moreover have "length d \<le> receive_buffer_max_size config"
    using bounded_fits [OF assms(2)] small(1) by simp
  ultimately show ?thesis using n by (simp add: valid_datagram_def)
qed

lemma flush_valid:
  assumes "flush_commands X p acts = Ok (q, acts')" "peer_at X config a p"
    and "actions_ok (valid_datagram X config) (concerns a) acts"
  shows "actions_ok (valid_datagram X config) (concerns a) acts'"
  using assms
proof (induction X p acts rule: flush_commands.induct)
  case (1 X p acts)
  obtain p' r where b: "encode_queued_commands_bounded X p (fragment_datagram_cap p) = (p', r)" by fastforce
  have at': "peer_at X config a p'"
    by (rule steps_at [OF r_into_rtranclp [of "peer_step X", OF on_bounded [OF b]] "1.prems"(2)])
  have at2: "peer_at X config a (peer_record_bytes_sent p' n)" for n
    by (rule steps_at [OF r_into_rtranclp [of "peer_step X", OF on_bytes_sent] at'])
  have valid: "r = Ok (Some d) \<Longrightarrow> valid_datagram X config d" for d using bounded_valid [OF "1.prems"(2)] b by simp
  show ?case
    using "1.prems"(1,3) "1.IH" [OF _ b [symmetric] _ _ _ at2] b valid
    by (auto simp: flush_commands.simps [of X p] split: if_splits res.splits option.splits)
qed

lemma user_packet_address [simp]: "pk_addr (fst (user_packet p d del ord ch)) = p_remote_address p"
  by (simp add: user_packet_def packet_new_def)

lemma store_address: "p_remote_address (fst (store_fragment p s b i d)) = p_remote_address p"
  using moves_store_fragment [of p s b i d] by (simp add: moves_def)

lemma fragment_addresses:
  assumes "snd (proc_send_fragment p c s o_flag i n d t) = Ok z" "k \<in> set (zom_collect z)"
  shows "pk_addr (fst k) = p_remote_address p"
proof -
  obtain q r where q: "store_fragment (peer_process_incoming p s 0 t) s (fb_new c n o_flag t) i d = (q, r)" by fastforce
  then have "p_remote_address q = p_remote_address p"
    using store_address [of "peer_process_incoming p s 0 t" s "fb_new c n o_flag t" i d] by simp
  then show ?thesis
    using assms by (auto simp: proc_send_fragment_def q nothing_def Let_def split_beta split: option.splits list.splits if_splits)
qed

lemma unreliable_fragment_addresses:
  assumes "snd (proc_send_unreliable_fragment p c s i n d t) = Ok z" "k \<in> set (zom_collect z)"
  shows "pk_addr (fst k) = p_remote_address p"
  using assms store_address [of p s "fb_new c n False t" i d]
  by (auto simp: proc_send_unreliable_fragment_def nothing_def split: prod.splits option.splits)

text \<open>Whatever a command delivers comes from the address of the peer.\<close>

lemma command_addresses:
  assumes "snd (process_command rnd p c t) = Ok z" "k \<in> set (zom_collect z)"
  shows "pk_addr (fst k) = p_remote_address p"
  using assms fragment_addresses [of "p\<lparr>p_last_heard := t\<rparr>"] unreliable_fragment_addresses [of "p\<lparr>p_last_heard := t\<rparr>"]
  by (cases c)
     (auto simp: process_command_def nothing_def proc_send_reliable_def proc_send_unreliable_def proc_send_unreliable_sequenced_def
       proc_send_unsequenced_def mark_unsequenced_received_def proc_connect_def proc_verify_connect_def proc_bandwidth_limit_def
       proc_throttle_configure_def proc_pmtu_reply_def Let_def split_beta split: if_splits res.splits option.splits)

lemma commands_addresses:
  assumes "snd (process_commands rnd p cs t out) = Ok z" "\<forall>k \<in> set out. pk_addr (fst k) = p_remote_address p"
  shows "\<forall>k \<in> set (zom_collect z). pk_addr (fst k) = p_remote_address p"
  using assms
proof (induction cs arbitrary: p out)
  case (Cons c cs)
  obtain q r where q: "process_command rnd p c t = (q, r)" by fastforce
  have addr: "p_remote_address q = p_remote_address p" using moves_process_command [of p rnd c t] by (simp add: q moves_def)
  obtain x where x: "r = Ok x" "snd (process_commands rnd q cs t (out @ zom_collect x)) = Ok z"
    using Cons.prems(1) by (cases r) (simp_all add: q)
  have "\<forall>k \<in> set (zom_collect x). pk_addr (fst k) = p_remote_address p" using command_addresses [of rnd p c t x] by (simp add: q x(1))
  then have "\<forall>k \<in> set (out @ zom_collect x). pk_addr (fst k) = p_remote_address q" using Cons.prems(2) by (auto simp: addr)
  from Cons.IH [OF x(2) this] show ?case by (simp add: addr)
qed auto

lemma packet_addresses:
  assumes "snd (process_command_packet X rnd p d t) = Ok z" "k \<in> set (zom_collect z)"
  shows "pk_addr (fst k) = p_remote_address p"
proof -
  let ?p = "record_packet_received (record_data_received p (length d))"
  obtain cs where "snd (process_commands rnd ?p cs t []) = Ok z"
    using assms(1) by (auto simp: process_command_packet_def Let_def split: res.splits)
  from commands_addresses [OF this] assms(2) show ?thesis by (simp add: peer_defs)
qed

lemma process_packet_output:
  assumes "peer_at X config a p" "process_packet X env p d t = Ok (q, acts)"
  shows "actions_ok (valid_datagram X config) (concerns a) acts"
proof -
  let ?p = "peer_record_bytes_received (fst (peer_update_bandwidth_window p t)) (of_nat (length d))"
  obtain p1 r where r: "process_command_packet X (se_peer_id env) ?p d t = (p1, r)" by fastforce
  have p: "p_remote_address ?p = a" using assms(1) by (simp add: peer_at_def peer_defs split_beta)
  have "p_remote_address p1 = a" using moves_packet [of ?p X "se_peer_id env" d t] p by (simp add: r moves_def)
  then have p1: "p_remote_address (fst (record_recv p1)) = a" using moves_record_recv [of p1] by (simp add: moves_def)
  have "pk_addr (fst k) = a" if "r = Ok z" "k \<in> set (zom_collect z)" for z k
    using packet_addresses [of X "se_peer_id env" ?p d t z k] that p by (simp add: r)
  then show ?thesis
    using assms(2) r p1 by (auto simp: process_packet_def Let_def split_beta actions_ok_iff split: if_splits res.splits)
qed

lemma process_event_output:
  assumes "peer_at X config a p" "process_event X p ev t = Ok (q, acts)"
  shows "actions_ok (valid_datagram X config) (concerns a) acts"
proof -
  obtain p1 where p1: "enqueue_event (fst (record_send p)) ev = Ok p1" "flush_commands X p1 [] = Ok (q, acts)"
    using assms(2) record_send_flag [of p] by (auto simp: process_event_def Let_def split_beta res_bind_Ok_iff)
  have "peer_steps X p (fst (record_send p))" by (rule r_into_rtranclp, rule on_send)
  moreover have "peer_steps X (fst (record_send p)) p1" using event_steps [of "fst (record_send p)" ev X] p1(1) by auto
  ultimately have "peer_steps X p p1" by (rule rtranclp_trans)
  from flush_valid [OF p1(2) steps_at [OF this assms(1)]] show ?thesis by simp
qed

lemma session_update_output:
  assumes "peer_at X config a p" "session_update X env p t = Ok (q, acts)"
  shows "actions_ok (valid_datagram X config) (concerns a) acts"
proof -
  let ?p = "heartbeat env (fst (peer_update_bandwidth_window p t)) t"
  have "peer_steps X p ?p" using heartbeat_steps on_bandwidth [of X p t] by (meson converse_rtranclp_into_rtranclp)
  moreover obtain q1 where "flush_commands X ?p [] = Ok (q1, acts)"
    using assms(2) by (auto simp: session_update_def Let_def res_bind_Ok_iff)
  ultimately show ?thesis using flush_valid [OF _ steps_at [OF _ assms(1)], of ?p "[]" q1 acts] by simp
qed

lemma should_drop_output: "peer_at X config a p \<Longrightarrow> actions_ok S (concerns a) (snd (should_drop p t))"
  by (auto simp: should_drop_def Let_def peer_at_def)

definition output_cfg :: "ext \<Rightarrow> config \<Rightarrow> config \<Rightarrow> bool" where
  "output_cfg X config c \<longleftrightarrow> c = config \<and> wire_ok X config"

interpretation peer_output: session_output "peer_ops X" "peer_at X config" "valid_datagram X config" concerns "output_cfg X config" fills
proof (unfold_locales, unfold peer_ops_def session_ops.simps, goal_cases)
  case (1 c addr t env)
  then show ?case by (simp add: output_cfg_def peer_at_def create_session_def peer_inv_new) (simp add: peer_new_def)
next
  case 2
  then show ?case using process_packet_output steps_at [OF process_packet_steps] by blast
next
  case 3
  then show ?case using process_event_output steps_at [OF process_event_steps] by blast
next
  case 4
  then show ?case using session_update_output steps_at [OF session_update_steps] unfolding fills_def by blast
next
  case 5
  then show ?case by (rule should_drop_output)
qed

end
