(* ===== verification/Host_Output.thy ===== *)
theory Host_Output
  imports Host Session_Output
begin

text \<open>
  What leaves a host over any run of its application: only valid datagrams, only to and about addresses that the application or the network brought up.
\<close>

section \<open>Runs\<close>

text \<open>The addresses an operation brings up: the target of a packet and the senders of the datagrams a poll finds.\<close>

fun op_addresses :: "host_op \<Rightarrow> socket_addr set" where
  "op_addresses (OpSend k) = {packet_address k}"
| "op_addresses (OpPoll inputs t) = (\<Union>x \<in> set inputs. case x of Received d a \<Rightarrow> {a} | ReceiveError \<Rightarrow> {})"
| "op_addresses _ = {}"

abbreviation host_out :: "ext \<Rightarrow> config \<Rightarrow> socket_addr set \<Rightarrow> 'i host \<Rightarrow> bool" where
  "host_out X config A h \<equiv> out_inv (output_cfg X config) (peer_at X config) (valid_datagram X config) concerns packet_address A (h_handler h)"

lemma established_known:
  assumes "host_out X config A h" "a \<in> set (established_sessions (peer_ops X) (h_handler h))"
  shows "a \<in> A"
  using assms by (auto simp: established_sessions_def out_inv_def)

lemma host_recv_out: "host_out X config A h \<Longrightarrow> host_out X config A (fst (host_recv h))"
  by (cases "sm_events (h_handler h)") (simp_all add: host_recv_def, simp add: out_inv_def)

lemma host_disconnect_out:
  assumes "host_out X config A h"
  shows "host_out X config A (host_disconnect h a)"
proof (cases "hm_get (sm_sessions (h_handler h)) a")
  case (Some p)
  then have p: "a \<in> A" "peer_at X config a p"
    using assms by (auto simp: out_inv_def hm_get_def dest: map_of_SomeD)
  have "peer_at X config a (disconnect p)"
    by (rule steps_at [OF r_into_rtranclp [of "peer_step X", OF on_disconnect] p(2)])
  then show ?thesis using out_inv_session [OF assms p(1)] by (simp add: host_disconnect_def Some)
qed (simp add: host_disconnect_def assms)

lemma host_apply_out:
  assumes "host_apply X ic envs h x = Ok h'" "host_out X config A h" "op_addresses x \<subseteq> A"
    and "\<forall>n. fills (envs n)" "keeps_sendable (valid_datagram X config) ic"
  shows "host_out X config A h'"
proof (cases x)
  case (OpSend k)
  then show ?thesis using assms(1,3) out_inv_queued [OF assms(2), of "[k]"] by (auto simp: host_send_def)
next
  case (OpBroadcast ch data del ord)
  have "packet_address (packet_new a data del ord ch) = a" for a by (simp add: packet_address_def packet_new_def)
  then show ?thesis
    using assms(1) established_known [OF assms(2)] OpBroadcast by (auto simp: broadcast_result intro!: out_inv_queued [OF assms(2)])
next
  case OpRecv
  then show ?thesis using assms(1,2) host_recv_out by auto
next
  case (OpDisconnect a)
  then show ?thesis using assms(1,2) host_disconnect_out by auto
next
  case (OpPoll inputs t)
  then obtain m where m: "sm_manual_poll (peer_ops X) ic envs (h_blocking_mode h) (h_handler h) inputs t = Ok m" "h' = h\<lparr>h_handler := m\<rparr>"
    using assms(1) by (auto simp: host_manual_poll_def res_bind_Ok_iff)
  have "a \<in> A" if "Received d a \<in> set inputs" for d a using assms(3) that by (force simp: OpPoll)
  moreover have "so_address (peer_ops X) = packet_address" by (simp add: peer_ops_def)
  ultimately show ?thesis
    using peer_output.poll_outputs [OF m(1) _ assms(4,5), of A] assms(2) by (simp add: m(2))
qed

lemma host_run_out:
  assumes "host_run X ic envs h xs = Ok h'" "host_out X config A h" "\<forall>x \<in> set xs. op_addresses x \<subseteq> A"
    and "\<forall>n. fills (envs n)" "keeps_sendable (valid_datagram X config) ic"
  shows "host_out X config A h'"
  using assms(1-3)
proof (induction xs arbitrary: h)
  case (Cons x xs)
  then show ?case using host_apply_out [OF _ _ _ assms(4,5)] by (auto simp: res_bind_Ok_iff)
qed simp

lemma host_bind_out: "wire_ok X config \<Longrightarrow> host_out X config A (host_bind config i)"
  by (simp add: host_bind_def out_inv_new output_cfg_def)

section \<open>Properties\<close>

text \<open>
  C5: Whatever arrives and whatever the application does, every datagram a host sends fits the receive buffer of its configuration, and a peer with the same checksum setting
  opens it to a non-empty list of well-formed commands. An interceptor may rewrite datagrams as long as it turns valid ones into valid ones.
\<close>

theorem host_sends_valid:
  assumes "byteorder_be X" and "compressors_lossless X" and "receive_buffer_max_size config \<le> 1537"
    and "\<forall>n. fills (envs n)" and "keeps_sendable (valid_datagram X config) ic"
    and "host_run X ic envs (host_bind config i) xs = Ok h"
  shows "\<forall>(a, d) \<in> set (sm_sent (h_handler h)). length d \<le> receive_buffer_max_size config \<and>
    (\<exists>cs. open_datagram X config d = Ok cs \<and> cs \<noteq> [] \<and> (\<forall>c \<in> set cs. command_wf c))"
proof -
  have "wire_ok X config" using assms(1-3) by (simp add: wire_ok_def)
  from host_run_out [OF assms(6) host_bind_out [OF this, of UNIV] _ assms(4,5)]
  have "\<forall>(a, d) \<in> set (sm_sent (h_handler h)). valid_datagram X config d" by (auto simp: out_inv_def)
  then show ?thesis by (fastforce simp: valid_datagram_def list_all_iff split: res.splits)
qed

theorem host_sends_valid_witness:
  "\<exists>h. host_run sample_ext no_op_interceptor (\<lambda>n. sample_env) (host_bind default_config ())
      [OpSend (packet_unreliable \<lparr>sa_ip = V4 0, sa_port = 2\<rparr> [1, 2, 3]),
       OpPoll [Received sample_connect \<lparr>sa_ip = V4 0, sa_port = 1\<rparr>] 5] = Ok h \<and>
    (\<forall>(a, d) \<in> set (sm_sent (h_handler h)). \<exists>cs. open_datagram sample_ext default_config d = Ok cs \<and> cs \<noteq> [])"
proof -
  let ?xs = "[OpSend (packet_unreliable \<lparr>sa_ip = V4 0, sa_port = 2\<rparr> [1, 2, 3]),
       OpPoll [Received sample_connect \<lparr>sa_ip = V4 0, sa_port = 1\<rparr>] 5]"
  have ok: "window_ordered default_config" "\<forall>n. fills ((\<lambda>n :: nat. sample_env) n)" "receive_buffer_max_size default_config \<le> 1537"
    by (simp_all add: window_ordered_def default_config_def fills_def sample_env_def DEFAULT_MTU_def)
  have "host_inv sample_ext default_config (host_bind default_config ())"
    using sample_ext_report ok(1) by (simp add: host_bind_def sm_inv_new peer_cfg_ok_def)
  from host_run_total [OF ok(2) this] obtain h where
    run: "host_run sample_ext no_op_interceptor (\<lambda>n. sample_env) (host_bind default_config ()) ?xs = Ok h" by blast
  from host_sends_valid [OF sample_ext_byteorder sample_ext_lossless ok(3,2) keeps_sendable_no_op run] run show ?thesis by fast
qed

text \<open>
  C11: A host keeps to the addresses it was given: everything it sends goes to, and every event it reports concerns, an address to which the application has sent a
  packet or from which a datagram has arrived.
\<close>

theorem host_keeps_to_addresses:
  assumes "byteorder_be X" and "compressors_lossless X" and "receive_buffer_max_size config \<le> 1537"
    and "\<forall>n. fills (envs n)" and "keeps_sendable (valid_datagram X config) ic"
    and "host_run X ic envs (host_bind config i) xs = Ok h"
  shows "fst ` set (sm_sent (h_handler h)) \<union> event_address ` set (sm_events (h_handler h)) \<union> fst ` set (sm_sessions (h_handler h))
    \<subseteq> (\<Union>x \<in> set xs. op_addresses x)"
proof -
  have "wire_ok X config" using assms(1-3) by (simp add: wire_ok_def)
  from host_run_out [OF assms(6) host_bind_out [OF this, of "\<Union>x \<in> set xs. op_addresses x"] _ assms(4,5)]
  have "host_out X config (\<Union>x \<in> set xs. op_addresses x) h" by blast
  then show ?thesis by (fastforce simp: out_inv_def)
qed

theorem host_keeps_to_addresses_witness:
  "\<exists>h. host_run sample_ext no_op_interceptor (\<lambda>n. sample_env) (host_bind default_config ())
      [OpPoll [Received sample_connect \<lparr>sa_ip = V4 0, sa_port = 1\<rparr>] 5] = Ok h \<and>
    event_address ` set (sm_events (h_handler h)) \<subseteq> {\<lparr>sa_ip = V4 0, sa_port = 1\<rparr>}"
proof -
  have ok: "window_ordered default_config" "\<forall>n. fills ((\<lambda>n :: nat. sample_env) n)" "receive_buffer_max_size default_config \<le> 1537"
    by (simp_all add: window_ordered_def default_config_def fills_def sample_env_def DEFAULT_MTU_def)
  have "host_inv sample_ext default_config (host_bind default_config ())"
    using sample_ext_report ok(1) by (simp add: host_bind_def sm_inv_new peer_cfg_ok_def)
  from host_run_total [OF ok(2) this] obtain h where
    run: "host_run sample_ext no_op_interceptor (\<lambda>n. sample_env) (host_bind default_config ())
      [OpPoll [Received sample_connect \<lparr>sa_ip = V4 0, sa_port = 1\<rparr>] 5] = Ok h" by blast
  from host_keeps_to_addresses [OF sample_ext_byteorder sample_ext_lossless ok(3,2) keeps_sendable_no_op run] run show ?thesis by auto
qed

end
