(* ===== verification/Transport.thy ===== *)
theory Transport
  imports Host
begin

text \<open>
  The UDP socket beneath a host: the trait of a datagram socket (\<^verbatim>\<open>bitfold-core/src/transport.rs\<close>), its implementation by \<^verbatim>\<open>SocketWithConditioner\<close>, the socket options and
  the functions that bind a host (\<^verbatim>\<open>bitfold-host/src/socket.rs\<close>), and the polling loop as it calls the socket.

  The operating system is the record \<open>udp\<close> of its calls on a socket of type \<open>'k\<close>. Nothing is assumed of the calls but, where a poll is to return, that a socket
  does not deliver datagrams for ever (\<open>runs_dry\<close>). The system clock is the time given to each poll.

  \<open>Host\<close> describes a poll by the list of the datagrams it finds. Here it is shown that a poll which calls the socket again and again is such a poll.
\<close>

section \<open>Calls of the operating system\<close>

type_synonym 'a io = "io_error + 'a"

record 'k udp =
  udp_bind :: "socket_addr list io \<Rightarrow> 'k io"
  udp_try_clone :: "'k \<Rightarrow> 'k \<times> unit io"
  udp_set_recv_buffer_size :: "'k \<Rightarrow> usize \<Rightarrow> 'k \<times> unit io"
  udp_set_send_buffer_size :: "'k \<Rightarrow> usize \<Rightarrow> 'k \<times> unit io"
  udp_set_ttl :: "'k \<Rightarrow> u32 \<Rightarrow> 'k \<times> unit io"
  udp_set_broadcast :: "'k \<Rightarrow> bool \<Rightarrow> 'k \<times> unit io"
  udp_set_nonblocking :: "'k \<Rightarrow> bool \<Rightarrow> 'k \<times> unit io"
  udp_send_to :: "'k \<Rightarrow> bytes \<Rightarrow> socket_addr \<Rightarrow> 'k \<times> usize io"
  udp_recv_from :: "'k \<Rightarrow> usize \<Rightarrow> 'k \<times> (bytes \<times> socket_addr) io"
  udp_local_addr :: "'k \<Rightarrow> socket_addr io"

text \<open>The operator \<^verbatim>\<open>?\<close> on a call that changes the socket.\<close>

definition io_then :: "'k \<times> unit io \<Rightarrow> ('k \<Rightarrow> 'k \<times> unit io) \<Rightarrow> 'k \<times> unit io" where
  "io_then r f = (case r of (k, Inl e) \<Rightarrow> (k, Inl e) | (k, Inr u) \<Rightarrow> f k)"

definition from_io :: "'a io \<Rightarrow> (error_kind, 'a) res" where
  "from_io r = (case r of Inl e \<Rightarrow> Err (error_from_io e) | Inr a \<Rightarrow> Ok a)"

section \<open>Sockets\<close>

definition apply_socket_options :: "'k udp \<Rightarrow> 'k \<Rightarrow> config \<Rightarrow> 'k \<times> unit io" where
  "apply_socket_options U socket config =
     io_then (udp_try_clone U socket) (\<lambda>socket.
     io_then (case socket_recv_buffer_size config of Some n \<Rightarrow> udp_set_recv_buffer_size U socket n | None \<Rightarrow> (socket, Inr ())) (\<lambda>socket.
     io_then (case socket_send_buffer_size config of Some n \<Rightarrow> udp_set_send_buffer_size U socket n | None \<Rightarrow> (socket, Inr ())) (\<lambda>socket.
     io_then (case socket_ttl config of Some ttl \<Rightarrow> udp_set_ttl U socket ttl | None \<Rightarrow> (socket, Inr ())) (\<lambda>socket.
     io_then (if socket_broadcast config then udp_set_broadcast U socket True else (socket, Inr ())) (\<lambda>socket.
     (socket, Inr ()))))))"

record 'k conditioner =
  sc_is_blocking_mode :: bool
  sc_socket :: 'k

definition conditioner_new :: "'k udp \<Rightarrow> 'k \<Rightarrow> bool \<Rightarrow> (error_kind, 'k conditioner) res" where
  "conditioner_new U socket is_blocking_mode =
     (case udp_set_nonblocking U socket (\<not> is_blocking_mode) of
        (socket, Inl e) \<Rightarrow> Err (error_from_io e)
      | (socket, Inr u) \<Rightarrow> Ok \<lparr>sc_is_blocking_mode = is_blocking_mode, sc_socket = socket\<rparr>)"

definition send_packet :: "'k udp \<Rightarrow> 'k conditioner \<Rightarrow> socket_addr \<Rightarrow> bytes \<Rightarrow> 'k conditioner \<times> usize io" where
  "send_packet U s addr payload = (let (k, r) = udp_send_to U (sc_socket s) payload addr in (s\<lparr>sc_socket := k\<rparr>, r))"

definition receive_packet :: "'k udp \<Rightarrow> 'k conditioner \<Rightarrow> usize \<Rightarrow> 'k conditioner \<times> (bytes \<times> socket_addr) io" where
  "receive_packet U s buffer_len = (let (k, r) = udp_recv_from U (sc_socket s) buffer_len in (s\<lparr>sc_socket := k\<rparr>, r))"

definition conditioner_local_addr :: "'k udp \<Rightarrow> 'k conditioner \<Rightarrow> socket_addr io" where
  "conditioner_local_addr U s = udp_local_addr U (sc_socket s)"

definition is_blocking_mode :: "'k conditioner \<Rightarrow> bool" where
  "is_blocking_mode s = sc_is_blocking_mode s"

section \<open>Binding a host\<close>

definition bind_with_config_clock_and_interceptor ::
  "'k udp \<Rightarrow> 'k \<Rightarrow> config \<Rightarrow> 'i \<Rightarrow> (error_kind, 'i host \<times> 'k conditioner) res" where
  "bind_with_config_clock_and_interceptor U socket config interceptor =
     (let (socket, r) = apply_socket_options U socket config
      in res_bind (from_io r) (\<lambda>_.
         res_bind (conditioner_new U socket (blocking_mode config)) (\<lambda>s.
         Ok (host_bind config interceptor, s))))"

definition bind_with_config_and_clock :: "'k udp \<Rightarrow> 'k \<Rightarrow> config \<Rightarrow> (error_kind, unit host \<times> 'k conditioner) res" where
  "bind_with_config_and_clock U socket config = bind_with_config_clock_and_interceptor U socket config ()"

definition bind_with_config :: "'k udp \<Rightarrow> socket_addr list io \<Rightarrow> config \<Rightarrow> (error_kind, unit host \<times> 'k conditioner) res" where
  "bind_with_config U addresses config =
     res_bind (from_io (udp_bind U addresses)) (\<lambda>socket. bind_with_config_and_clock U socket config)"

definition host_bind_to :: "'k udp \<Rightarrow> socket_addr list io \<Rightarrow> (error_kind, unit host \<times> 'k conditioner) res" where
  "host_bind_to U addresses = bind_with_config U addresses default_config"

definition bind_any_with_config :: "'k udp \<Rightarrow> config \<Rightarrow> (error_kind, unit host \<times> 'k conditioner) res" where
  "bind_any_with_config U config =
     (let loopback = V4 0x7F000001; address = \<lparr>sa_ip = loopback, sa_port = 0\<rparr>
      in res_bind (from_io (udp_bind U (Inr [address]))) (\<lambda>socket. bind_with_config_and_clock U socket config))"

definition bind_any :: "'k udp \<Rightarrow> (error_kind, unit host \<times> 'k conditioner) res" where
  "bind_any U = bind_any_with_config U default_config"

definition bind_with_interceptor ::
  "'k udp \<Rightarrow> socket_addr list io \<Rightarrow> config \<Rightarrow> 'i \<Rightarrow> (error_kind, 'i host \<times> 'k conditioner) res" where
  "bind_with_interceptor U addresses config interceptor =
     res_bind (from_io (udp_bind U addresses)) (\<lambda>socket. bind_with_config_clock_and_interceptor U socket config interceptor)"

definition host_local_addr :: "'k udp \<Rightarrow> 'k conditioner \<Rightarrow> (error_kind, socket_addr) res" where
  "host_local_addr U s = from_io (conditioner_local_addr U s)"

section \<open>Polling a socket\<close>

text \<open>
  The receiving loop of a poll. It ends with the first error of the socket, or with the first processed datagram when the socket is in blocking mode; that it
  may not end is the value \<open>None\<close>.
\<close>

partial_function (option) socket_receive_loop ::
  "'k udp \<Rightarrow> ('s, 'e, 'r) session_ops \<Rightarrow> 'i interceptor \<Rightarrow> (nat \<Rightarrow> session_env) \<Rightarrow> instant \<Rightarrow> ('s, 'e, 'r, 'i) session_manager \<Rightarrow> nat \<Rightarrow>
     'k conditioner \<Rightarrow> ((error_kind, ('s, 'e, 'r, 'i) session_manager \<times> nat) res \<times> 'k conditioner) option" where
  "socket_receive_loop U ops ic envs time m unestablished s =
     (let (s, r) = receive_packet U s (length (sm_receive_buffer m))
      in case r of
           Inl e \<Rightarrow> Some (Ok (m, unestablished), s)
         | Inr (payload, address) \<Rightarrow>
             (case receive_one ops ic envs time m unestablished payload address of
                Ok (m, unestablished, processed) \<Rightarrow>
                  if processed \<and> is_blocking_mode s then Some (Ok (m, unestablished), s)
                  else socket_receive_loop U ops ic envs time m unestablished s
              | Err e \<Rightarrow> Some (Err e, s)
              | Panic \<Rightarrow> Some (Panic, s)))"

text \<open>The datagrams of a flush go to the socket in order; an error of the socket is only logged.\<close>

primrec transmit :: "'k udp \<Rightarrow> 'k conditioner \<Rightarrow> (socket_addr \<times> bytes) list \<Rightarrow> 'k conditioner" where
  "transmit U s [] = s"
| "transmit U s (x # xs) = transmit U (fst (send_packet U s (fst x) (snd x))) xs"

text \<open>What a poll does after its receiving loop.\<close>

definition poll_rest ::
  "('s, 'e, 'r) session_ops \<Rightarrow> 'i interceptor \<Rightarrow> (nat \<Rightarrow> session_env) \<Rightarrow> instant \<Rightarrow> ('s, 'e, 'r, 'i) session_manager \<Rightarrow> nat \<Rightarrow>
     (error_kind, ('s, 'e, 'r, 'i) session_manager) res" where
  "poll_rest ops ic envs time m unestablished =
     res_bind (user_loop ops envs time (m\<lparr>sm_user_events := []\<rparr>) unestablished (sm_user_events m)) (\<lambda>(m, unestablished).
     res_bind (update_loop ops envs time m (hm_keys (sm_sessions m))) (\<lambda>m.
     let (m, to_drop) = foldl (collect_drop ops time) (m, []) (sm_sessions m)
     in res_bind (remove_loop m to_drop) (\<lambda>m. Ok (messenger_flush ic m))))"

definition socket_manual_poll ::
  "'k udp \<Rightarrow> ('s, 'e, 'r) session_ops \<Rightarrow> 'i interceptor \<Rightarrow> (nat \<Rightarrow> session_env) \<Rightarrow> ('s, 'e, 'r, 'i) session_manager \<Rightarrow> 'k conditioner \<Rightarrow> instant \<Rightarrow>
     ((error_kind, ('s, 'e, 'r, 'i) session_manager) res \<times> 'k conditioner) option" where
  "socket_manual_poll U ops ic envs m s time =
     (case socket_receive_loop U ops ic envs time m (unestablished_session_count ops m) s of
        None \<Rightarrow> None
      | Some (r, s) \<Rightarrow>
          Some (case res_bind r (\<lambda>(m1, unestablished). poll_rest ops ic envs time m1 unestablished) of
                  Ok m' \<Rightarrow> (Ok m', transmit U s (drop (length (sm_sent m)) (sm_sent m')))
                | Err e \<Rightarrow> (Err e, s)
                | Panic \<Rightarrow> (Panic, s)))"

lemma poll_split:
  "sm_manual_poll ops ic envs blocking m inputs time =
     res_bind (receive_loop ops ic envs blocking time m (unestablished_session_count ops m) inputs)
       (\<lambda>(m1, unestablished). poll_rest ops ic envs time m1 unestablished)"
  by (simp add: sm_manual_poll_def poll_rest_def Let_def)

section \<open>The calls of a poll\<close>

text \<open>
  What passes between a host and its socket: the datagrams and the final error it receives, and the datagrams it transmits. \<open>io_trace U s cs s'\<close> says that the
  calls \<open>cs\<close> take the socket \<open>s\<close> to \<open>s'\<close>.
\<close>

datatype io_call = Receive received | Transmit socket_addr bytes

inductive io_trace :: "'k udp \<Rightarrow> 'k conditioner \<Rightarrow> io_call list \<Rightarrow> 'k conditioner \<Rightarrow> bool" for U where
  trace_end: "io_trace U s [] s"
| trace_received: "receive_packet U s n = (s1, Inr (d, a)) \<Longrightarrow> io_trace U s1 cs s2 \<Longrightarrow> io_trace U s (Receive (Received d a) # cs) s2"
| trace_failed: "receive_packet U s n = (s1, Inl e) \<Longrightarrow> io_trace U s1 cs s2 \<Longrightarrow> io_trace U s (Receive ReceiveError # cs) s2"
| trace_sent: "send_packet U s a d = (s1, r) \<Longrightarrow> io_trace U s1 cs s2 \<Longrightarrow> io_trace U s (Transmit a d # cs) s2"

definition receives_of :: "io_call list \<Rightarrow> received list" where
  "receives_of cs = concat (map (\<lambda>c. case c of Receive x \<Rightarrow> [x] | Transmit a d \<Rightarrow> []) cs)"

definition transmits_of :: "io_call list \<Rightarrow> (socket_addr \<times> bytes) list" where
  "transmits_of cs = concat (map (\<lambda>c. case c of Receive x \<Rightarrow> [] | Transmit a d \<Rightarrow> [(a, d)]) cs)"

lemma calls_simps [simp]:
  "receives_of [] = []" "receives_of (Receive x # cs) = x # receives_of cs" "receives_of (Transmit a d # cs) = receives_of cs"
  "transmits_of [] = []" "transmits_of (Receive x # cs) = transmits_of cs" "transmits_of (Transmit a d # cs) = (a, d) # transmits_of cs"
  "receives_of (cs @ ds) = receives_of cs @ receives_of ds" "transmits_of (cs @ ds) = transmits_of cs @ transmits_of ds"
  by (simp_all add: receives_of_def transmits_of_def)

lemma trace_append: "io_trace U s cs s1 \<Longrightarrow> io_trace U s1 ds s2 \<Longrightarrow> io_trace U s (cs @ ds) s2"
  by (induction rule: io_trace.induct) (auto intro: io_trace.intros)

lemma mode_kept [simp]:
  "is_blocking_mode (fst (send_packet U s a d)) = is_blocking_mode s" "is_blocking_mode (fst (receive_packet U s n)) = is_blocking_mode s"
  by (simp_all add: is_blocking_mode_def send_packet_def receive_packet_def split: prod.split)

lemma trace_mode: "io_trace U s cs s' \<Longrightarrow> is_blocking_mode s' = is_blocking_mode s"
  by (induction rule: io_trace.induct) (metis fst_conv mode_kept)+

lemma transmit_trace: "\<exists>cs. io_trace U s cs (transmit U s xs) \<and> receives_of cs = [] \<and> transmits_of cs = xs"
proof (induction xs arbitrary: s)
  case Nil
  show ?case using trace_end [of U s] by fastforce
next
  case (Cons x xs)
  obtain cs where cs: "io_trace U (fst (send_packet U s (fst x) (snd x))) cs (transmit U s (x # xs))" "receives_of cs = []" "transmits_of cs = xs"
    using Cons.IH by fastforce
  have "io_trace U s (Transmit (fst x) (snd x) # cs) (transmit U s (x # xs))"
    using trace_sent [OF prod.collapse [symmetric] cs(1)] .
  then show ?case using cs(2,3) by (metis calls_simps(3,6) prod.collapse)
qed

section \<open>A polled socket is a list of datagrams\<close>

definition runs_dry :: "'k udp \<Rightarrow> ('k \<Rightarrow> nat) \<Rightarrow> bool" where
  "runs_dry U backlog \<longleftrightarrow> (\<forall>k n k' x. udp_recv_from U k n = (k', Inr x) \<longrightarrow> backlog k' < backlog k)"

lemma receive_loop_runs:
  assumes "runs_dry U backlog"
  shows "\<exists>r s' cs. socket_receive_loop U ops ic envs t m un s = Some (r, s') \<and> io_trace U s cs s' \<and> transmits_of cs = [] \<and>
    receive_loop ops ic envs (is_blocking_mode s) t m un (receives_of cs) = r"
proof (induction "backlog (sc_socket s)" arbitrary: m un s rule: less_induct)
  case less
  obtain s1 x where step: "receive_packet U s (length (sm_receive_buffer m)) = (s1, x)" by force
  then have mode: "is_blocking_mode s1 = is_blocking_mode s" by (metis fst_conv mode_kept(2))
  show ?case
  proof (cases x)
    case (Inl e)
    then have "io_trace U s [Receive ReceiveError] s1" using trace_failed [OF _ trace_end] step by blast
    then show ?thesis
      using step Inl by (subst socket_receive_loop.simps) (auto intro!: exI [of _ "[Receive ReceiveError]"])
  next
    case (Inr y)
    obtain d a where y: "y = (d, a)" by force
    have one: "io_trace U s [Receive (Received d a)] s1" using trace_received [OF _ trace_end] step Inr y by blast
    show ?thesis
    proof (cases "\<exists>m' un' p. receive_one ops ic envs t m un d a = Ok (m', un', p) \<and> \<not> (p \<and> is_blocking_mode s)")
      case True
      then obtain m' un' p where ok: "receive_one ops ic envs t m un d a = Ok (m', un', p)" "\<not> (p \<and> is_blocking_mode s)" by blast
      have "backlog (sc_socket s1) < backlog (sc_socket s)"
        using assms step Inr y by (fastforce simp: runs_dry_def receive_packet_def split: prod.splits)
      from less [OF this, of m' un'] obtain r s' cs where rest: "socket_receive_loop U ops ic envs t m' un' s1 = Some (r, s')" "io_trace U s1 cs s'"
        "transmits_of cs = []" "receive_loop ops ic envs (is_blocking_mode s) t m' un' (receives_of cs) = r" unfolding mode by blast
      then show ?thesis
        using step Inr y ok mode trace_append [OF one rest(2)]
        by (subst socket_receive_loop.simps) (auto intro!: exI [of _ "Receive (Received d a) # cs"])
    next
      case False
      then show ?thesis
        using step Inr y mode one
        by (subst socket_receive_loop.simps) (auto split: res.split intro!: exI [of _ "[Receive (Received d a)]"])
    qed
  qed
qed

text \<open>Only the flush at the end of a poll sends.\<close>

lemma handle_actions_sent [simp]: "sm_sent (handle_actions m a acts) = sm_sent m"
  by (simp add: handle_actions_result)

lemma packet_to_session_sent: "packet_to_session ops envs t m un d a = Ok (m', un') \<Longrightarrow> sm_sent m' = sm_sent m"
  by (auto simp: packet_to_session_def increment_duplicate_count_def Let_def res_bind_Ok_iff split: option.splits if_splits)

lemma receive_one_sent: "receive_one ops ic envs t m un d a = Ok (m', un', p) \<Longrightarrow> sm_sent m' = sm_sent m"
  by (auto simp: receive_one_def Let_def res_bind_Ok_iff dest!: packet_to_session_sent split: prod.splits if_splits)

lemma receive_loop_sent: "receive_loop ops ic envs b t m un xs = Ok (m', un') \<Longrightarrow> sm_sent m' = sm_sent m"
proof (induction xs arbitrary: m un)
  case (Cons x xs)
  then show ?case by (cases x) (auto simp: res_bind_Ok_iff dest!: receive_one_sent split: if_splits)
qed simp

lemma user_event_sent: "user_event ops envs t m un e = Ok (m', un') \<Longrightarrow> sm_sent m' = sm_sent m"
  by (auto simp: user_event_def increment_duplicate_count_def Let_def res_bind_Ok_iff split: option.splits if_splits)

lemma user_loop_sent: "user_loop ops envs t m un es = Ok (m', un') \<Longrightarrow> sm_sent m' = sm_sent m"
proof (induction es arbitrary: m un)
  case (Cons e es)
  then show ?case by (auto simp: res_bind_Ok_iff dest!: user_event_sent)
qed simp

lemma update_loop_sent: "update_loop ops envs t m as = Ok m' \<Longrightarrow> sm_sent m' = sm_sent m"
proof (induction as arbitrary: m)
  case (Cons a as)
  then show ?case by (fastforce simp: res_bind_Ok_iff Let_def split: option.splits)
qed simp

lemma collect_drop_sent: "sm_sent (fst (foldl (collect_drop ops t) (m, ds) xs)) = sm_sent m"
proof (induction xs arbitrary: m ds)
  case (Cons x xs)
  then show ?case by (cases x) (auto simp: collect_drop_def Let_def split: prod.split)
qed simp

lemma remove_loop_sent: "remove_loop m as = Ok m' \<Longrightarrow> sm_sent m' = sm_sent m"
proof (induction as arbitrary: m)
  case (Cons a as)
  then show ?case
    by (fastforce simp: res_bind_Ok_iff Let_def decrement_duplicate_count_def split: option.splits if_splits)
qed simp

lemma flush_sent: "\<exists>xs. sm_sent (messenger_flush ic m) = sm_sent m @ xs"
proof -
  have "\<exists>ys. sm_sent (foldl (flush_send ic) m xs) = sm_sent m @ ys" for m :: "('a, 'b, 'c, 'd) session_manager" and xs
  proof (induction xs arbitrary: m)
    case (Cons x xs)
    have "\<exists>zs. sm_sent (flush_send ic m x) = sm_sent m @ zs" by (auto simp: flush_send_def Let_def split: prod.split)
    then show ?case using Cons [of "flush_send ic m x"] by fastforce
  qed simp
  from this [of "m\<lparr>sm_pending_sends := []\<rparr>"] show ?thesis by (simp add: messenger_flush_def Let_def)
qed

lemma poll_rest_sent:
  assumes "poll_rest ops ic envs t m un = Ok m'"
  shows "\<exists>xs. sm_sent m' = sm_sent m @ xs"
proof -
  obtain m1 un1 m2 m3 where "user_loop ops envs t (m\<lparr>sm_user_events := []\<rparr>) un (sm_user_events m) = Ok (m1, un1)"
    "update_loop ops envs t m1 (hm_keys (sm_sessions m1)) = Ok m2"
    "remove_loop (fst (foldl (collect_drop ops t) (m2, []) (sm_sessions m2))) (snd (foldl (collect_drop ops t) (m2, []) (sm_sessions m2))) = Ok m3"
    "m' = messenger_flush ic m3"
    using assms by (auto simp: poll_rest_def res_bind_Ok_iff Let_def case_prod_beta)
  then show ?thesis
    using flush_sent [of ic m3] by (auto simp: collect_drop_sent dest!: user_loop_sent update_loop_sent remove_loop_sent)
qed

lemma socket_poll_runs:
  assumes "runs_dry U backlog"
  shows "\<exists>r s' cs. socket_manual_poll U ops ic envs m s t = Some (r, s') \<and> io_trace U s cs s' \<and>
    sm_manual_poll ops ic envs (is_blocking_mode s) m (receives_of cs) t = r \<and>
    (\<forall>m'. r = Ok m' \<longrightarrow> sm_sent m' = sm_sent m @ transmits_of cs)"
proof -
  obtain r s1 cs where r: "socket_receive_loop U ops ic envs t m (unestablished_session_count ops m) s = Some (r, s1)"
    "io_trace U s cs s1" "transmits_of cs = []"
    "receive_loop ops ic envs (is_blocking_mode s) t m (unestablished_session_count ops m) (receives_of cs) = r"
    using receive_loop_runs [OF assms] by blast
  let ?r = "res_bind r (\<lambda>(m1, un). poll_rest ops ic envs t m1 un)"
  have poll: "sm_manual_poll ops ic envs (is_blocking_mode s) m (receives_of cs) t = ?r" by (simp add: poll_split r(4))
  show ?thesis
  proof (cases ?r)
    case (Ok m')
    then obtain m1 un where m1: "r = Ok (m1, un)" "poll_rest ops ic envs t m1 un = Ok m'" by (auto simp: res_bind_Ok_iff)
    then obtain xs where xs: "sm_sent m' = sm_sent m @ xs" using receive_loop_sent r(4) poll_rest_sent by metis
    obtain ds where ds: "io_trace U s1 ds (transmit U s1 xs)" "receives_of ds = []" "transmits_of ds = xs" using transmit_trace by blast
    have "socket_manual_poll U ops ic envs m s t = Some (Ok m', transmit U s1 xs)" using Ok by (simp add: socket_manual_poll_def r(1) xs)
    then show ?thesis using trace_append [OF r(2) ds(1)] poll Ok ds(2,3) r(3) xs by (intro exI [of _ "cs @ ds"] exI conjI) auto
  qed (use r poll in \<open>auto simp: socket_manual_poll_def\<close>)
qed

section \<open>Runs over a socket\<close>

datatype app_op =
    AppSend packet
  | AppBroadcast u8 bytes delivery_guarantee ordering_guarantee
  | AppRecv
  | AppDisconnect socket_addr
  | AppPoll instant

fun app_op_of :: "host_op \<Rightarrow> app_op" where
  "app_op_of (OpSend k) = AppSend k"
| "app_op_of (OpBroadcast ch d del ord) = AppBroadcast ch d del ord"
| "app_op_of OpRecv = AppRecv"
| "app_op_of (OpDisconnect a) = AppDisconnect a"
| "app_op_of (OpPoll inputs t) = AppPoll t"

fun op_inputs :: "host_op \<Rightarrow> received list" where
  "op_inputs (OpPoll inputs t) = inputs"
| "op_inputs _ = []"

definition socket_host_poll ::
  "'k udp \<Rightarrow> ext \<Rightarrow> 'i interceptor \<Rightarrow> (nat \<Rightarrow> session_env) \<Rightarrow> 'i host \<Rightarrow> 'k conditioner \<Rightarrow> instant \<Rightarrow>
     ((error_kind, 'i host) res \<times> 'k conditioner) option" where
  "socket_host_poll U X ic envs h s time =
     map_option (\<lambda>(r, s). (res_bind r (\<lambda>m. Ok (h\<lparr>h_handler := m\<rparr>)), s)) (socket_manual_poll U (peer_ops X) ic envs (h_handler h) s time)"

fun socket_apply ::
  "'k udp \<Rightarrow> ext \<Rightarrow> 'i interceptor \<Rightarrow> (nat \<Rightarrow> session_env) \<Rightarrow> 'i host \<Rightarrow> 'k conditioner \<Rightarrow> app_op \<Rightarrow>
     ((error_kind, 'i host) res \<times> 'k conditioner) option" where
  "socket_apply U X ic envs h s (AppSend packet) = Some (Ok (host_send h packet), s)"
| "socket_apply U X ic envs h s (AppBroadcast ch d del ord) = Some (Ok (fst (broadcast X h ch d del ord)), s)"
| "socket_apply U X ic envs h s AppRecv = Some (Ok (fst (host_recv h)), s)"
| "socket_apply U X ic envs h s (AppDisconnect addr) = Some (Ok (host_disconnect h addr), s)"
| "socket_apply U X ic envs h s (AppPoll time) = socket_host_poll U X ic envs h s time"

fun socket_run ::
  "'k udp \<Rightarrow> ext \<Rightarrow> 'i interceptor \<Rightarrow> (nat \<Rightarrow> session_env) \<Rightarrow> 'i host \<Rightarrow> 'k conditioner \<Rightarrow> app_op list \<Rightarrow>
     ((error_kind, 'i host) res \<times> 'k conditioner) option" where
  "socket_run U X ic envs h s [] = Some (Ok h, s)"
| "socket_run U X ic envs h s (x # xs) =
     (case socket_apply U X ic envs h s x of
        None \<Rightarrow> None
      | Some (r, s) \<Rightarrow> (case r of Ok h \<Rightarrow> socket_run U X ic envs h s xs | Err e \<Rightarrow> Some (Err e, s) | Panic \<Rightarrow> Some (Panic, s)))"

lemma trace_local: "\<exists>cs. io_trace U s cs s \<and> receives_of cs = [] \<and> transmits_of cs = []"
  using trace_end by fastforce

lemma local_sent [simp]:
  "sm_sent (h_handler (host_send h k)) = sm_sent (h_handler h)"
  "sm_sent (h_handler (fst (broadcast X h ch d del ord))) = sm_sent (h_handler h)"
  "sm_sent (h_handler (fst (host_recv h))) = sm_sent (h_handler h)"
  "sm_sent (h_handler (host_disconnect h a)) = sm_sent (h_handler h)"
  by (simp_all add: host_send_def broadcast_result host_recv_def host_disconnect_def split: list.split option.split)

lemma local_mode [simp]:
  "h_blocking_mode (host_send h k) = h_blocking_mode h"
  "h_blocking_mode (fst (host_recv h)) = h_blocking_mode h"
  "h_blocking_mode (host_disconnect h a) = h_blocking_mode h"
  by (simp_all add: host_send_def host_recv_def host_disconnect_def split: list.split option.split)

lemma broadcast_mode [simp]: "h_blocking_mode (fst (broadcast X h ch d del ord)) = h_blocking_mode h"
proof -
  have "h_blocking_mode (foldl (\<lambda>h a. host_send h (packet_new a d del ord ch)) h as) = h_blocking_mode h" for as
    by (induction as arbitrary: h) simp_all
  then show ?thesis by (simp add: broadcast_def Let_def)
qed

text \<open>
  One operation over a socket is an operation of the host that was given the datagrams which the socket delivered; what it sent is what was transmitted.
\<close>

lemma socket_apply_runs:
  assumes "runs_dry U backlog" "\<forall>n. fills (envs n)" "host_inv X config h" "h_blocking_mode h = is_blocking_mode s"
  shows "\<exists>h' s' op cs. socket_apply U X ic envs h s x = Some (Ok h', s') \<and> host_apply X ic envs h op = Ok h' \<and> app_op_of op = x \<and>
    io_trace U s cs s' \<and> op_inputs op = receives_of cs \<and> sm_sent (h_handler h') = sm_sent (h_handler h) @ transmits_of cs \<and>
    host_inv X config h' \<and> h_blocking_mode h' = is_blocking_mode s'"
proof -
  have step: ?thesis if "host_apply X ic envs h op = Ok h'" "app_op_of op = x" "socket_apply U X ic envs h s x = Some (Ok h', s')"
      "io_trace U s cs s'" "op_inputs op = receives_of cs" "sm_sent (h_handler h') = sm_sent (h_handler h) @ transmits_of cs"
      "h_blocking_mode h' = h_blocking_mode h" for op h' s' cs
    using that host_apply_total [OF assms(2,3), of ic op] trace_mode [OF that(4)] assms(4) by (metis res.inject(1))
  obtain cs where cs: "io_trace U s cs s" "receives_of cs = []" "transmits_of cs = []" using trace_local by blast
  show ?thesis
  proof (cases x)
    case (AppSend k)
    show ?thesis by (rule step [where op = "OpSend k" and h' = "host_send h k" and s' = s and cs = cs]) (simp_all add: AppSend cs)
  next
    case (AppBroadcast ch d del ord)
    show ?thesis by (rule step [where op = "OpBroadcast ch d del ord" and h' = "fst (broadcast X h ch d del ord)" and s' = s and cs = cs]) (simp_all add: AppBroadcast cs)
  next
    case AppRecv
    show ?thesis by (rule step [where op = OpRecv and h' = "fst (host_recv h)" and s' = s and cs = cs]) (simp_all add: AppRecv cs)
  next
    case (AppDisconnect a)
    show ?thesis by (rule step [where op = "OpDisconnect a" and h' = "host_disconnect h a" and s' = s and cs = cs]) (simp_all add: AppDisconnect cs)
  next
    case (AppPoll t)
    obtain r s' ds where poll: "socket_manual_poll U (peer_ops X) ic envs (h_handler h) s t = Some (r, s')" "io_trace U s ds s'"
      "sm_manual_poll (peer_ops X) ic envs (is_blocking_mode s) (h_handler h) (receives_of ds) t = r"
      "\<forall>m'. r = Ok m' \<longrightarrow> sm_sent m' = sm_sent (h_handler h) @ transmits_of ds"
      using socket_poll_runs [OF assms(1)] by blast
    obtain m' where m': "r = Ok m'" using peer_contract.poll_total [OF assms(2,3)] poll(3) by metis
    show ?thesis
      by (rule step [where op = "OpPoll (receives_of ds) t" and h' = "h\<lparr>h_handler := m'\<rparr>" and s' = s' and cs = ds])
        (use poll m' assms(4) in \<open>simp_all add: AppPoll host_manual_poll_def socket_host_poll_def\<close>)
  qed
qed

lemma socket_run_runs:
  assumes "runs_dry U backlog" "\<forall>n. fills (envs n)" "host_inv X config h" "h_blocking_mode h = is_blocking_mode s"
  shows "\<exists>h' s' ops cs. socket_run U X ic envs h s xs = Some (Ok h', s') \<and> host_run X ic envs h ops = Ok h' \<and> map app_op_of ops = xs \<and>
    io_trace U s cs s' \<and> concat (map op_inputs ops) = receives_of cs \<and> sm_sent (h_handler h') = sm_sent (h_handler h) @ transmits_of cs"
  using assms(3,4)
proof (induction xs arbitrary: h s)
  case Nil
  show ?case using trace_local [of U s] by (fastforce intro: exI [of _ "[]"])
next
  case (Cons x xs)
  obtain h1 s1 op cs where one: "socket_apply U X ic envs h s x = Some (Ok h1, s1)" "host_apply X ic envs h op = Ok h1" "app_op_of op = x"
    "io_trace U s cs s1" "op_inputs op = receives_of cs" "sm_sent (h_handler h1) = sm_sent (h_handler h) @ transmits_of cs"
    "host_inv X config h1" "h_blocking_mode h1 = is_blocking_mode s1"
    using socket_apply_runs [OF assms(1,2) Cons.prems] by blast
  obtain h' s' ops ds where rest: "socket_run U X ic envs h1 s1 xs = Some (Ok h', s')" "host_run X ic envs h1 ops = Ok h'" "map app_op_of ops = xs"
    "io_trace U s1 ds s'" "concat (map op_inputs ops) = receives_of ds" "sm_sent (h_handler h') = sm_sent (h_handler h1) @ transmits_of ds"
    using Cons.IH [OF one(7,8)] by blast
  show ?case
    by (rule exI [of _ h'], rule exI [of _ s'], rule exI [of _ "op # ops"], rule exI [of _ "cs @ ds"])
      (use one rest trace_append [OF one(4) rest(4)] in simp)
qed

lemma bound_host:
  assumes "bind_with_config_clock_and_interceptor U k config i = Ok (h, s)"
  shows "h = host_bind config i \<and> is_blocking_mode s = blocking_mode config"
  using assms by (auto simp: bind_with_config_clock_and_interceptor_def conditioner_new_def is_blocking_mode_def res_bind_Ok_iff
      split: prod.splits sum.splits)

lemma bind_outcome:
  "bind_with_config_clock_and_interceptor U k config i \<noteq> Panic \<and>
   (bind_with_config_clock_and_interceptor U k config i = Err e \<longrightarrow> (\<exists>x. e = IOError x))"
  by (auto simp: bind_with_config_clock_and_interceptor_def conditioner_new_def from_io_def error_from_io_def split: prod.splits sum.splits)

lemma refused_option:
  assumes "udp_try_clone U k = (k1, Inr ())" and "socket_recv_buffer_size config = Some n" and "udp_set_recv_buffer_size U k1 n = (k2, Inl e)"
  shows "bind_with_config_clock_and_interceptor U k config i = Err (IOError e)"
  using assms by (simp add: bind_with_config_clock_and_interceptor_def apply_socket_options_def io_then_def from_io_def error_from_io_def)

section \<open>A network to run on\<close>

text \<open>A socket with datagrams to deliver and a record of what was sent. Datagrams longer than the buffer are cut, and no call but a receive without datagrams fails.\<close>

definition sample_udp :: "((bytes \<times> socket_addr) list \<times> (socket_addr \<times> bytes) list) udp" where
  "sample_udp = \<lparr>
     udp_bind = (\<lambda>as. Inr ([], [])), udp_try_clone = (\<lambda>k. (k, Inr ())),
     udp_set_recv_buffer_size = (\<lambda>k n. (k, Inr ())), udp_set_send_buffer_size = (\<lambda>k n. (k, Inr ())),
     udp_set_ttl = (\<lambda>k n. (k, Inr ())), udp_set_broadcast = (\<lambda>k b. (k, Inr ())), udp_set_nonblocking = (\<lambda>k b. (k, Inr ())),
     udp_send_to = (\<lambda>(ins, outs) d a. ((ins, outs @ [(a, d)]), Inr (length d))),
     udp_recv_from = (\<lambda>(ins, outs) n. case ins of [] \<Rightarrow> (([], outs), Inl (ExternalError ''would block''))
                                      | (d, a) # ins \<Rightarrow> ((ins, outs), Inr (take n d, a))),
     udp_local_addr = (\<lambda>k. Inr \<lparr>sa_ip = V4 0x7F000001, sa_port = 9000\<rparr>)\<rparr>"

lemma sample_udp_runs_dry: "runs_dry sample_udp (\<lambda>(ins, outs). length ins)"
  by (auto simp: runs_dry_def sample_udp_def split: list.splits)

lemma sample_udp_binds:
  "bind_with_config_clock_and_interceptor sample_udp k default_config () =
     Ok (host_bind default_config (), \<lparr>sc_is_blocking_mode = False, sc_socket = k\<rparr>)"
  by (simp add: bind_with_config_clock_and_interceptor_def apply_socket_options_def io_then_def from_io_def conditioner_new_def
      sample_udp_def default_config_def)

section \<open>Properties\<close>

text \<open>
  C4: A host over a socket, with a poll that calls the socket until it reports an error, does what the model of the host does that is given the datagrams in lists: on every
  socket that does not deliver for ever each run of the application returns without a panic; the calls on the socket are some sequence of receives and transmissions,
  the final host is that of a run on exactly the received datagrams, and the datagrams this run sends are exactly those transmitted, in order. An error of the socket only ends the
  receiving of a poll, and an error on sending changes nothing.
\<close>

theorem socket_run_refines:
  assumes "compressors_report X" and "window_ordered config" and "\<forall>n. fills (envs n)" and "runs_dry U backlog"
    and "bind_with_config_clock_and_interceptor U k config i = Ok (h0, s0)"
  shows "\<exists>h s ops cs. socket_run U X ic envs h0 s0 xs = Some (Ok h, s) \<and> io_trace U s0 cs s \<and>
    host_run X ic envs (host_bind config i) ops = Ok h \<and> map app_op_of ops = xs \<and>
    concat (map op_inputs ops) = receives_of cs \<and> sm_sent (h_handler h) = transmits_of cs"
proof -
  have h0: "h0 = host_bind config i" "is_blocking_mode s0 = blocking_mode config" using bound_host [OF assms(5)] by simp_all
  have "host_inv X config h0" using assms(1,2) by (simp add: h0(1) host_bind_def sm_inv_new peer_cfg_ok_def)
  moreover have "h_blocking_mode h0 = is_blocking_mode s0" by (simp add: h0 host_bind_def)
  moreover have "sm_sent (h_handler h0) = []" by (simp add: h0(1) host_bind_def sm_new_def)
  ultimately show ?thesis using socket_run_runs [OF assms(4,3), of X config h0 s0 ic xs] h0(1) by auto
qed

theorem socket_run_refines_witness:
  "\<exists>h s ops cs. socket_run sample_udp sample_ext no_op_interceptor (\<lambda>n. sample_env) (host_bind default_config ())
      \<lparr>sc_is_blocking_mode = False, sc_socket = ([(sample_connect, \<lparr>sa_ip = V4 0, sa_port = 1\<rparr>)], [])\<rparr>
      [AppSend (packet_unreliable \<lparr>sa_ip = V4 0, sa_port = 2\<rparr> [1, 2, 3]), AppPoll 5, AppRecv] = Some (Ok h, s) \<and>
    host_run sample_ext no_op_interceptor (\<lambda>n. sample_env) (host_bind default_config ()) ops = Ok h \<and>
    sm_sent (h_handler h) = transmits_of cs"
proof -
  have "window_ordered default_config" "\<forall>n. fills ((\<lambda>n :: nat. sample_env) n)"
    by (simp_all add: window_ordered_def default_config_def fills_def sample_env_def)
  from socket_run_refines [OF sample_ext_report this sample_udp_runs_dry sample_udp_binds] show ?thesis by blast
qed

end
