(* ===== verification/Throughput.thy ===== *)
theory Throughput
  imports Prelude
begin

text \<open>
  The throughput monitor (\<^verbatim>\<open>bitfold-host/src/throughput.rs\<close>): it counts ticks in windows of a fixed length. The clock is an argument of the
  operations that read it. Sums are 32-bit and panic on overflow.
\<close>

record throughput_entry =
  te_measured_throughput :: u32
  te_start :: instant

record throughput_monitoring =
  throughput_duration :: duration
  tm_timer :: instant
  current_throughput :: u32
  measured_throughput :: "throughput_entry list"

definition tm_new :: "duration \<Rightarrow> instant \<Rightarrow> throughput_monitoring" where
  "tm_new d now = \<lparr>throughput_duration = d, tm_timer = now, current_throughput = 0, measured_throughput = []\<rparr>"

text \<open>The source reads the clock twice in a tick that ends a window.\<close>

definition tick :: "throughput_monitoring \<Rightarrow> instant \<Rightarrow> instant \<Rightarrow> (unit, throughput_monitoring \<times> bool) res" where
  "tick m now now' =
     (if duration_since now (tm_timer m) \<ge> throughput_duration m
      then Ok (m\<lparr>measured_throughput := measured_throughput m @
                   [\<lparr>te_measured_throughput = current_throughput m, te_start = tm_timer m\<rparr>],
                 current_throughput := 0, tm_timer := now'\<rparr>, True)
      else res_bind (add_checked (current_throughput m) 1) (\<lambda>n. Ok (m\<lparr>current_throughput := n\<rparr>, False)))"

fun sum_checked :: "u32 \<Rightarrow> u32 list \<Rightarrow> (unit, u32) res" where
  "sum_checked acc [] = Ok acc"
| "sum_checked acc (x # xs) = res_bind (add_checked acc x) (\<lambda>acc. sum_checked acc xs)"

definition average :: "throughput_monitoring \<Rightarrow> (unit, u32) res" where
  "average m =
     (if measured_throughput m \<noteq> [] then
        res_bind (sum_checked 0 (map te_measured_throughput (measured_throughput m))) (\<lambda>s.
          let n = (of_nat (length (measured_throughput m)) :: u32)
          in if n = 0 then Panic else Ok (s div n))
      else Ok 0)"

definition tm_reset :: "throughput_monitoring \<Rightarrow> throughput_monitoring" where
  "tm_reset m = m\<lparr>current_throughput := 0, measured_throughput := []\<rparr>"

definition last_throughput :: "throughput_monitoring \<Rightarrow> u32" where
  "last_throughput m =
     (if measured_throughput m = [] then 0 else te_measured_throughput (last (measured_throughput m)))"

definition total_measured_ticks :: "throughput_monitoring \<Rightarrow> (unit, u32) res" where
  "total_measured_ticks m =
     res_bind (sum_checked 0 (map te_measured_throughput (measured_throughput m))) (\<lambda>s.
       add_checked s (current_throughput m))"

section \<open>What is counted\<close>

text \<open>Ticks one after another; the result also tells how many of them were inside a window.\<close>

fun ticks :: "throughput_monitoring \<Rightarrow> (instant \<times> instant) list \<Rightarrow> (unit, throughput_monitoring \<times> nat) res" where
  "ticks m [] = Ok (m, 0)"
| "ticks m ((now, now') # ts) =
     res_bind (tick m now now') (\<lambda>(m, ended).
     res_bind (ticks m ts) (\<lambda>(m, n). Ok (m, if ended then n else n + 1)))"

definition ticks_of :: "throughput_monitoring \<Rightarrow> nat" where
  "ticks_of m = (\<Sum>e \<leftarrow> measured_throughput m. unat (te_measured_throughput e)) + unat (current_throughput m)"

lemma sum_checked_result:
  "unat acc + sum_list (map unat xs) < 2 ^ 32 \<Longrightarrow> \<exists>s. sum_checked acc xs = Ok s \<and> unat s = unat acc + sum_list (map unat xs)"
proof (induction xs arbitrary: acc)
  case (Cons x xs)
  then have "add_checked acc x = (Ok (acc + x) :: (unit, u32) res)" by (simp add: add_checked_def)
  moreover from this have "unat (acc + x) = unat acc + unat x" by (rule unat_add_checked)
  ultimately show ?case using Cons.IH [of "acc + x"] Cons.prems by (simp add: add.assoc)
qed simp

lemma total_result: "ticks_of m < 2 ^ 32 \<Longrightarrow> \<exists>s. total_measured_ticks m = Ok s \<and> unat s = ticks_of m"
proof -
  let ?xs = "map te_measured_throughput (measured_throughput m)"
  assume lt: "ticks_of m < 2 ^ 32"
  then have "unat (0 :: u32) + sum_list (map unat ?xs) < 2 ^ 32" by (simp add: ticks_of_def comp_def)
  then obtain s where s: "sum_checked 0 ?xs = Ok s" "unat s = sum_list (map unat ?xs)" using sum_checked_result by fastforce
  then have "add_checked s (current_throughput m) = (Ok (s + current_throughput m) :: (unit, u32) res)"
    using lt by (simp add: add_checked_def ticks_of_def comp_def)
  moreover from this have "unat (s + current_throughput m) = unat s + unat (current_throughput m)" by (rule unat_add_checked)
  ultimately show ?thesis using s by (simp add: total_measured_ticks_def ticks_of_def comp_def)
qed

lemma tick_counts: "tick m now now' = Ok (m', ended) \<Longrightarrow> ticks_of m' = (if ended then ticks_of m else ticks_of m + 1)"
  by (auto simp: tick_def ticks_of_def res_bind_Ok_iff dest: unat_add_checked split: if_splits)

lemma ticks_count: "ticks m ts = Ok (m', n) \<Longrightarrow> ticks_of m' = ticks_of m + n"
proof (induction m ts arbitrary: n rule: ticks.induct)
  case (2 m now now' ts)
  then show ?case by (fastforce simp: res_bind_Ok_iff dest: tick_counts split: if_splits)
qed simp

text \<open>
  The total is the number of ticks inside the windows: a tick that ends a window starts the next one and is itself not counted. The total does
  not overflow before 2^32 ticks.
\<close>

theorem total_counts_ticks:
  assumes "ticks (tm_new d now) ts = Ok (m, n)" and "n < 2 ^ 32"
  shows "\<exists>s. total_measured_ticks m = Ok s \<and> unat s = n"
proof -
  have "ticks_of m = n" using ticks_count [OF assms(1)] by (simp add: tm_new_def ticks_of_def)
  then show ?thesis using total_result [of m] assms(2) by simp
qed

theorem total_counts_ticks_witness:
  "\<exists>m s. ticks (tm_new 10 0) [(1, 1), (2, 2), (12, 12), (13, 13)] = Ok (m, 3) \<and> total_measured_ticks m = Ok s \<and> unat s = 3"
proof -
  have "\<exists>m. ticks (tm_new 10 0) [(1, 1), (2, 2), (12, 12), (13, 13)] = Ok (m, 3)"
    by (simp add: tm_new_def tick_def duration_since_def add_checked_def)
  then show ?thesis using total_counts_ticks by fastforce
qed

end
