(* ===== verification/Spec2Isabelle.thy ===== *)
theory Spec2Isabelle
  imports Host_Exchange Unreliable_Exchange Ordered_Stream Session_Bandwidth Host_Output Transport Throughput Packet_Pool
begin

text \<open>
  Verification of bitfold, a reliable UDP library in Rust (\<^verbatim>\<open>src/crates\<close>).

  \<^bold>\<open>The program.\<close> An application owns a \<^verbatim>\<open>Host\<close>. The host polls a UDP socket through a session manager, which keeps one session per remote address, limits
  how many there are, and hands datagrams, application packets and time to them. A session is a \<^verbatim>\<open>Peer\<close>: it cuts application data into protocol
  commands, queues them, packs them into datagrams, and interprets the commands of the datagrams it receives. A datagram is a list of commands, encoded,
  then compressed, then followed by a checksum. Beneath the peer are small components with their own state: acknowledgments over a ring buffer of received numbers,
  congestion control, the flow-control window, bandwidth limits, the duplicate window of unsequenced packets, reassembly of fragments, ordering per channel and the
  search for the path MTU.

  \<^bold>\<open>How it is modelled.\<close> A struct is a record, an enum a datatype, a function of the source one definition with the same branches. An operation that
  takes \<^verbatim>\<open>&mut self\<close> returns the changed state, also when it fails. A fallible operation returns \<open>Ok\<close>, \<open>Err\<close> or \<open>Panic\<close> (\<open>Prelude\<close>); the release profile checks overflow and aborts, so
  arithmetic that is neither wrapping nor saturating has the outcome \<open>Panic\<close>. \<^verbatim>\<open>u8\<close>, \<^verbatim>\<open>u16\<close> and \<^verbatim>\<open>u32\<close> are words; \<^verbatim>\<open>usize\<close>, \<^verbatim>\<open>u64\<close>, instants and durations are natural
  numbers; \<^verbatim>\<open>f32\<close> is a type of rationals with binary32 rounding (\<open>Float32\<close>). A \<^verbatim>\<open>HashMap\<close> is an association list with distinct keys (\<open>Hash_Map\<close>, interface \<open>rust_map\<close>). What comes from outside is an
  argument: clocks, random numbers, received datagrams, the interceptor, and the third-party packages for byte order, CRC32 and compression
  (the record \<open>ext\<close> of \<open>Externals\<close>, with the named hypotheses \<open>byteorder_be\<close>, \<open>compressors_lossless\<close> and \<open>compressors_report\<close> for what is used of them).

  \<^bold>\<open>Theories.\<close>
  \<^item> \<open>Core_Types\<close> (\<^verbatim>\<open>bitfold-core\<close>: constants, errors, configuration, \<^verbatim>\<open>SharedBytes\<close>), \<open>Packet_Pool\<close> (\<^verbatim>\<open>packet_pool.rs\<close>, interface \<open>buffer_pool\<close>), \<open>Packets\<close> (\<^verbatim>\<open>packet.rs\<close>,
    \<^verbatim>\<open>channel.rs\<close>), \<open>Commands\<close> (\<^verbatim>\<open>command.rs\<close>).
  \<^item> \<open>Codec\<close> (\<^verbatim>\<open>command_codec/encoder.rs\<close>, \<^verbatim>\<open>decoder.rs\<close>) and \<open>Wire\<close> (\<^verbatim>\<open>checksum.rs\<close>, \<^verbatim>\<open>compression.rs\<close>): both encoders agree, decoding inverts encoding, the decoder is total and
    never out of range, checksum and compression round trips.
  \<^item> \<open>Sequence_Buffer\<close>, \<open>Congestion\<close>, \<open>Acknowledgment\<close>, \<open>Bandwidth\<close> (\<^verbatim>\<open>bitfold-protocol\<close>): the ring buffer implements a receive set, the throttle stays a probability, an
    acknowledgment confirms only what was received, and the limiters keep the contract \<open>rate_limiter\<close>.
  \<^item> \<open>Flow_Control\<close>, \<open>Unsequenced_Window\<close>, \<open>Pmtu\<close>, \<open>Fragments\<close>, \<open>Channel_State\<close>, \<open>Command_Queue\<close> (\<^verbatim>\<open>bitfold-peer\<close>): the window stays in bounds, the bit window implements a set of groups,
    the MTU search converges, fragments in any order join to the payload, ordered delivery has no gaps.
  \<^item> \<open>Peer\<close> (\<^verbatim>\<open>peer/mod.rs\<close>), \<open>Peer_Fragmenter\<close>, \<open>Peer_Encoder\<close>, \<open>Peer_Processor\<close> (\<^verbatim>\<open>peer/*.rs\<close>): the state of a peer and its operations. Data it queues always fits a datagram, a datagram never
    exceeds its limit and carries the longest prefix that fits.
  \<^item> \<open>Peer_Protocol\<close>: what two peers achieve together, and what a command can result in.
  \<^item> \<open>Peer_Machine\<close>: the peer as a state machine with one rule per operation; its invariant, and the order of the connection states.
  \<^item> \<open>Peer_Session\<close> (\<^verbatim>\<open>peer_session.rs\<close>), \<open>Session_Interface\<close> (\<^verbatim>\<open>session.rs\<close>, interface \<open>session_contract\<close>), \<open>Session_Manager\<close> (\<^verbatim>\<open>session_manager.rs\<close>), \<open>Host\<close> (\<^verbatim>\<open>socket.rs\<close>): every operation of a session is a run of the
    peer machine; no poll panics; the counters of sessions per address are exact, and datagrams from unknown addresses cannot open more sessions than the limit on unestablished ones. The lemmas on polling are proved in the context of \<open>session_contract\<close> and
    reach the host through its interpretation \<open>peer_contract\<close>.
  \<^item> \<open>End_To_End\<close>: a payload from the sending peer to the receiving one. What a peer delivers depends on three fields of its state alone (\<open>delivery_view\<close>), which is how
    the handshake and heartbeats in the same datagrams are shown not to matter. A payload over the fragment limit arrives cut.
  \<^item> \<open>Host_Exchange\<close>: the same from application to application, for reliable and unreliable packets, through the polls of two hosts with all their stages.
  \<^item> \<open>Unreliable_Exchange\<close>: what becomes of unsequenced and of sequenced packets. \<open>Ordered_Stream\<close>: what becomes of several ordered packets.
  \<^item> \<open>Session_Bandwidth\<close>: the bytes a session sends and accepts over its whole life are within its bandwidth limits, from \<open>rate_limiter\<close> and the guards of \<^verbatim>\<open>peer_session.rs\<close>.
  \<^item> \<open>Session_Output\<close>, \<open>Host_Output\<close>: what leaves a host. The interface \<open>session_output\<close> says that whatever a session sends is acceptable and whatever it reports concerns its
    own address; lifted through the poll and interpreted for the peer (\<open>peer_output\<close>) it gives that every datagram sent is valid and nothing concerns a foreign address.
  \<^item> \<open>Transport\<close> (\<^verbatim>\<open>transport.rs\<close>, \<^verbatim>\<open>socket.rs\<close>): the UDP socket, its options, the bind functions, and the poll as it calls the socket. The calls of the operating system are the record \<open>udp\<close>. A
    host over a socket is a host over lists of datagrams, so that the theorems on \<open>host_run\<close> hold of it.
  \<^item> \<open>Throughput\<close> (\<^verbatim>\<open>throughput.rs\<close>).

  \<^bold>\<open>Bounds.\<close> Loops are structural recursions or have a termination proof; there is no fuel. The receiving loop over a socket may run for ever and is a partial function; it
  returns on every socket that does not deliver for ever (\<open>runs_dry\<close>). The number 1537 in the theorems on datagrams is the largest receive buffer with which a
  datagram holds at most 255 commands (a command takes at least six bytes), the most its count byte can tell; the default is 1452.
  The polling loop of the source runs forever and is modelled by its finite prefixes.

  \<^bold>\<open>What the theorems found.\<close> Several theorems state behaviour that is hardly intended: reliable packets are never numbered, recorded or resent (\<open>nothing_in_flight\<close>), so that of several
  ordered packets only the first is delivered (\<open>ordered_stream_stalls\<close>); the handshake compares the wrong session numbers (\<open>handshake_session_ids\<close>); the connecting
  side never learns that it is connected (\<open>client_never_told\<close>); an acknowledgment is recorded as a received packet (\<open>acknowledgment_counts_as_received\<close>); the two kinds of fragments share their numbers
  (\<open>fragment_kinds_mixed\<close>); the connection of a refused session is reported all the same (\<open>refused_session_reports\<close>); and some at the edges of the number ranges.
  A payload over the fragment limit is delivered in part (\<open>oversized_payload_cut\<close>), an unsequenced one in pieces (\<open>unsequenced_split\<close>), and sequencing is not
  enforced (\<open>sequenced_not_enforced\<close>).
  A probe for the path MTU is of the probed size only when nothing is queued behind it (\<open>probe_datagram_size\<close>).
  \<open>reliable_end_to_end\<close> and \<open>host_to_host\<close> are therefore about the first payload of a session.

  \<^bold>\<open>Not modelled.\<close> The operating system beneath the socket, the system clock and name resolution (\<^verbatim>\<open>time.rs\<close>, \<^verbatim>\<open>utilities.rs\<close>) are input and output; \<^verbatim>\<open>Debug\<close> and \<^verbatim>\<open>Display\<close> output and log messages have no effect on
  the state; sharing of \<^verbatim>\<open>Arc\<close> buffers is invisible, since they are never written. Overflow of statistics counters in \<^verbatim>\<open>u64\<close> is out of reach and left out.
\<close>

end
